(* ===== verification/SR_Prelude.thy ===== *)
theory SR_Prelude
  imports Main "HOL-Library.Word" "HOL-Library.Monad_Syntax"
begin

text \<open>
  Prelude of the router development: the machine types the C code uses, its memory accesses, and
  the lemmas on lists, options and words that the components share.

  A C buffer is the list of the bytes it was allocated with.  Every read and write goes through
  \<open>rd8\<close>, \<open>rd16\<close>, \<open>rd32\<close>, \<open>rd_bytes\<close> and their \<open>wr\<close> counterparts, which return
  \<open>None\<close> when the access leaves the buffer.  Throughout the development \<open>None\<close> as the result
  of an operation means that the C program has no defined behaviour on that input: it accesses
  memory outside an allocation, dereferences a null or dangling pointer, or fails an \<open>assert\<close>.
  Multi-byte loads are little-endian, as on the x86 hosts the program is built for, so a field that
  is in network byte order is kept in that order until the code calls \<open>ntohs\<close> or \<open>ntohl\<close>.
\<close>

unbundle bit_operations_syntax

section \<open>Machine types\<close>

type_synonym u8 = "8 word"
type_synonym u16 = "16 word"
type_synonym u32 = "32 word"
type_synonym buf = "u8 list"

text \<open>Facts about memory accesses (\<open>mem\<close>) and about values in host or network order (\<open>byteorder\<close>).\<close>

named_theorems mem
named_theorems byteorder

section \<open>Byte order\<close>

definition le16 :: "u8 \<Rightarrow> u8 \<Rightarrow> u16" where
  "le16 b0 b1 = ucast b0 OR push_bit 8 (ucast b1)"

definition le32 :: "u8 \<Rightarrow> u8 \<Rightarrow> u8 \<Rightarrow> u8 \<Rightarrow> u32" where
  "le32 b0 b1 b2 b3 =
     ucast b0 OR push_bit 8 (ucast b1) OR push_bit 16 (ucast b2) OR push_bit 24 (ucast b3)"

definition byte :: "nat \<Rightarrow> 'a::len word \<Rightarrow> u8" where
  "byte k w = ucast (drop_bit (8 * k) w)"

definition bytes16 :: "u16 \<Rightarrow> buf" where
  "bytes16 w = [byte 0 w, byte 1 w]"

definition bytes32 :: "u32 \<Rightarrow> buf" where
  "bytes32 w = [byte 0 w, byte 1 w, byte 2 w, byte 3 w]"

definition htons :: "u16 \<Rightarrow> u16" where
  "htons w = le16 (byte 1 w) (byte 0 w)"

definition ntohs :: "u16 \<Rightarrow> u16" where
  "ntohs w = htons w"

definition htonl :: "u32 \<Rightarrow> u32" where
  "htonl w = le32 (byte 3 w) (byte 2 w) (byte 1 w) (byte 0 w)"

definition ntohl :: "u32 \<Rightarrow> u32" where
  "ntohl w = htonl w"

lemma bit_u8_ge: "8 \<le> n \<Longrightarrow> bit (a :: u8) n \<longleftrightarrow> False"
  by (auto dest: bit_imp_le_length)

lemma byte_le16 [simp]:
  "byte 0 (le16 a b) = a" "byte (Suc 0) (le16 a b) = b"
  unfolding byte_def le16_def by (rule bit_word_eqI; auto simp: bit_simps bit_u8_ge)+

lemma byte_le32 [simp]:
  "byte 0 (le32 a b c d) = a" "byte (Suc 0) (le32 a b c d) = b"
  "byte 2 (le32 a b c d) = c" "byte 3 (le32 a b c d) = d"
  unfolding byte_def le32_def by (rule bit_word_eqI; auto simp: bit_simps bit_u8_ge)+

lemma le16_bytes [simp]: "le16 (byte 0 w) (byte (Suc 0) w) = w"
  unfolding byte_def le16_def
  by (rule bit_word_eqI) (auto simp: bit_simps not_less dest: bit_imp_le_length)

lemma le32_bytes [simp]: "le32 (byte 0 w) (byte (Suc 0) w) (byte 2 w) (byte 3 w) = w"
proof (rule bit_word_eqI)
  fix n assume "n < LENGTH(32)"
  then consider "n < 8" | "8 \<le> n" "n < 16" | "16 \<le> n" "n < 24" | "24 \<le> n" "n < 32"
    by fastforce
  then show "bit (le32 (byte 0 w) (byte (Suc 0) w) (byte 2 w) (byte 3 w)) n \<longleftrightarrow> bit w n"
    by cases (auto simp: byte_def le32_def bit_simps)
qed

lemma le16_inject [simp]: "le16 a b = le16 c d \<longleftrightarrow> a = c \<and> b = d"
  by (metis byte_le16)

lemma le32_inject [simp]:
  "le32 a b c d = le32 a' b' c' d' \<longleftrightarrow> a = a' \<and> b = b' \<and> c = c' \<and> d = d'"
  by (metis byte_le32)

lemma htons_le16 [byteorder]: "htons (le16 a b) = le16 b a"
  by (simp add: htons_def)

lemma htonl_le32 [byteorder]: "htonl (le32 a b c d) = le32 d c b a"
  by (simp add: htonl_def)

lemma byte_htons [byteorder]:
  "byte 0 (htons w) = byte (Suc 0) w" "byte (Suc 0) (htons w) = byte 0 w"
  by (simp_all add: htons_def)

lemma byte_htonl [byteorder]:
  "byte 0 (htonl w) = byte 3 w" "byte (Suc 0) (htonl w) = byte 2 w"
  "byte 2 (htonl w) = byte (Suc 0) w" "byte 3 (htonl w) = byte 0 w"
  by (simp_all add: htonl_def)

lemma ntohs_htons [simp]: "ntohs (htons w) = w" "htons (ntohs w) = w" "htons (htons w) = w"
  by (simp_all add: htons_def ntohs_def)

lemma ntohl_htonl [simp]: "ntohl (htonl w) = w" "htonl (ntohl w) = w" "htonl (htonl w) = w"
  by (simp_all add: htonl_def ntohl_def)

lemma htons_inject [simp]: "htons a = htons b \<longleftrightarrow> a = b"
  by (metis ntohs_htons(1))

lemma ntohl_inject [simp]: "ntohl a = ntohl b \<longleftrightarrow> a = b"
  by (metis ntohl_htonl(2))

lemma htons_zero [simp]: "htons 0 = 0"
  by (simp add: htons_def byte_def le16_def)

lemma ntohs_ffff [simp]: "ntohs 0xffff = 0xffff"
  by (simp add: ntohs_def htons_def byte_def le16_def)

lemma length_bytes [simp]: "length (bytes16 w) = 2" "length (bytes32 v) = 4"
  by (simp_all add: bytes16_def bytes32_def)

lemma unat_u8: "unat (a :: u8) < 256"
  using unsigned_less [of a] by simp

lemma unat_u16: "unat (a :: u16) < 65536"
  using unsigned_less [of a] by simp

lemma unat_ucast_u8 [simp]:
  "unat (ucast (a :: u8) :: u16) = unat a" "unat (ucast (a :: u8) :: u32) = unat a"
  using unat_u8 [of a] by (simp_all add: unsigned_ucast_eq take_bit_nat_eq_self)

lemma unat_ucast_u16 [simp]: "unat (ucast (a :: u16) :: u32) = unat a"
  using unat_u16 [of a] by (simp add: unsigned_ucast_eq take_bit_nat_eq_self)

lemma unat_le16: "unat (le16 a b) = unat a + 256 * unat b"
proof -
  have "ucast a AND push_bit 8 (ucast b) = (0 :: u16)"
    by (rule bit_word_eqI) (auto simp: bit_simps bit_u8_ge)
  then have "le16 a b = ucast a + push_bit 8 (ucast b)"
    by (simp add: le16_def disjunctive_add_eq_or)
  moreover have "unat (push_bit 8 (ucast b :: u16)) = 256 * unat b"
    using unat_u8 [of b] by (simp add: push_bit_eq_mult unat_word_ariths)
  moreover note unat_u8 [of a] unat_u8 [of b]
  ultimately show ?thesis by (simp add: unat_word_ariths)
qed

section \<open>Memory accesses\<close>

definition rd8 :: "nat \<Rightarrow> buf \<Rightarrow> u8 option" where
  "rd8 off b = (if off < length b then Some (b ! off) else None)"

definition rd16 :: "nat \<Rightarrow> buf \<Rightarrow> u16 option" where
  "rd16 off b = (if off + 2 \<le> length b then Some (le16 (b ! off) (b ! (off + 1))) else None)"

definition rd32 :: "nat \<Rightarrow> buf \<Rightarrow> u32 option" where
  "rd32 off b =
     (if off + 4 \<le> length b
      then Some (le32 (b ! off) (b ! (off + 1)) (b ! (off + 2)) (b ! (off + 3))) else None)"

definition rd_bytes :: "nat \<Rightarrow> nat \<Rightarrow> buf \<Rightarrow> buf option" where
  "rd_bytes off n b = (if off + n \<le> length b then Some (take n (drop off b)) else None)"

definition wr8 :: "nat \<Rightarrow> u8 \<Rightarrow> buf \<Rightarrow> buf option" where
  "wr8 off v b = (if off < length b then Some (b[off := v]) else None)"

definition wr16 :: "nat \<Rightarrow> u16 \<Rightarrow> buf \<Rightarrow> buf option" where
  "wr16 off v b =
     (if off + 2 \<le> length b then Some (b[off := byte 0 v, off + 1 := byte 1 v]) else None)"

definition wr32 :: "nat \<Rightarrow> u32 \<Rightarrow> buf \<Rightarrow> buf option" where
  "wr32 off v b =
     (if off + 4 \<le> length b
      then Some (b[off := byte 0 v, off + 1 := byte 1 v, off + 2 := byte 2 v, off + 3 := byte 3 v])
      else None)"

text \<open>The access succeeds exactly when it stays inside the buffer.\<close>

lemma rd_Some [mem]:
  "off < length b \<Longrightarrow> rd8 off b = Some (b ! off)"
  "off + 2 \<le> length b \<Longrightarrow> rd16 off b = Some (le16 (b ! off) (b ! (off + 1)))"
  "off + 4 \<le> length b \<Longrightarrow>
     rd32 off b = Some (le32 (b ! off) (b ! (off + 1)) (b ! (off + 2)) (b ! (off + 3)))"
  "off + n \<le> length b \<Longrightarrow> rd_bytes off n b = Some (take n (drop off b))"
  by (simp_all add: rd8_def rd16_def rd32_def rd_bytes_def)

lemma wr_Some [mem]:
  "off < length b \<Longrightarrow> wr8 off v b = Some (b[off := v])"
  "off + 2 \<le> length b \<Longrightarrow> wr16 off w b = Some (b[off := byte 0 w, off + 1 := byte 1 w])"
  "off + 4 \<le> length b \<Longrightarrow>
     wr32 off x b = Some (b[off := byte 0 x, off + 1 := byte 1 x, off + 2 := byte 2 x, off + 3 := byte 3 x])"
  by (simp_all add: wr8_def wr16_def wr32_def)

lemma rd_None:
  "length b \<le> off \<Longrightarrow> rd8 off b = None"
  "length b < off + 2 \<Longrightarrow> rd16 off b = None"
  "length b < off + 4 \<Longrightarrow> rd32 off b = None"
  "length b < off + n \<Longrightarrow> rd_bytes off n b = None"
  by (simp_all add: rd8_def rd16_def rd32_def rd_bytes_def)

lemma wr_None:
  "length b \<le> off \<Longrightarrow> wr8 off v b = None"
  "length b < off + 2 \<Longrightarrow> wr16 off w b = None"
  "length b < off + 4 \<Longrightarrow> wr32 off x b = None"
  by (simp_all add: wr8_def wr16_def wr32_def)

section \<open>Header fields\<close>

text \<open>
  What the code relies on when it assigns a struct field inside a packet: the field has a place
  \<open>[lo, lo + size)\<close> in the buffer, assigning it changes nothing outside that place, and reading
  it back gives the assigned value.
\<close>

locale mem_field =
  fixes get :: "buf \<Rightarrow> 'a option" and put :: "'a \<Rightarrow> buf \<Rightarrow> buf option"
    and lo :: nat and size :: nat
  assumes get_defined: "get b = None \<longleftrightarrow> length b < lo + size"
    and put_defined: "put v b = None \<longleftrightarrow> length b < lo + size"
    and put_length: "put v b = Some b' \<Longrightarrow> length b' = length b"
    and put_get: "put v b = Some b' \<Longrightarrow> get b' = Some v"
    and get_put: "get b = Some v \<Longrightarrow> put v b = Some b"
    and put_put: "put w b = Some b' \<Longrightarrow> put v b' = put v b"
    and put_frame: "put v b = Some b' \<Longrightarrow> i < lo \<or> lo + size \<le> i \<Longrightarrow> b' ! i = b ! i"
    and get_cong: "length b = length b' \<Longrightarrow>
      (\<And>i. lo \<le> i \<Longrightarrow> i < lo + size \<Longrightarrow> b ! i = b' ! i) \<Longrightarrow> get b = get b'"
begin

lemma put_outside:
  assumes "put v b = Some b'"
  shows "take lo b' = take lo b" and "drop (lo + size) b' = drop (lo + size) b"
proof -
  note len = put_length [OF assms] and frame = put_frame [OF assms]
  show "take lo b' = take lo b"
    by (rule nth_equalityI) (use len frame in auto)
  show "drop (lo + size) b' = drop (lo + size) b"
    by (rule nth_equalityI) (use len frame in auto)
qed

text \<open>The idiom of the checksum tests: save a field, overwrite it, put the saved value back.\<close>

lemma save_restore:
  assumes "get b = Some v" and "put w b = Some b'"
  shows "put v b' = Some b"
  using assms put_put get_put by metis

lemma put_total: "lo + size \<le> length b \<Longrightarrow> \<exists>b'. put v b = Some b' \<and> length b' = length b"
  using put_defined [of v b] put_length by (cases "put v b") auto

end

text \<open>Two fields that do not overlap: assigning one does not change what the other reads.\<close>

locale mem_fields =
  a: mem_field geta puta loa sizea + b: mem_field getb putb lob sizeb
  for geta :: "buf \<Rightarrow> 'a option" and puta :: "'a \<Rightarrow> buf \<Rightarrow> buf option" and loa :: nat
    and sizea :: nat
    and getb :: "buf \<Rightarrow> 'b option" and putb :: "'b \<Rightarrow> buf \<Rightarrow> buf option" and lob :: nat
    and sizeb :: nat +
  assumes disjoint: "loa + sizea \<le> lob \<or> lob + sizeb \<le> loa"
begin

lemma get_other: "puta v b = Some b' \<Longrightarrow> getb b' = getb b"
proof (rule b.get_cong)
  assume p: "puta v b = Some b'"
  then show "length b' = length b" by (rule a.put_length)
  fix i assume "lob \<le> i" "i < lob + sizeb"
  then have "i < loa \<or> loa + sizea \<le> i" using disjoint by linarith
  with p show "b' ! i = b ! i" by (rule a.put_frame)
qed

end

interpretation f8: mem_field "rd8 off" "wr8 off" off 1 for off
  by unfold_locales (auto simp: rd8_def wr8_def nth_list_update split: if_splits)

lemma list_update_twice:
  "i \<noteq> j \<Longrightarrow> xs[i := a, j := b, i := c] = xs[i := c, j := b]"
  by (simp add: list_update_swap)

interpretation f16: mem_field "rd16 off" "wr16 off" off 2 for off
proof
  show "rd16 off b = Some v \<Longrightarrow> wr16 off v b = Some b" for b v
    by (auto simp: rd16_def wr16_def split: if_splits intro!: nth_equalityI)
  show "wr16 off w b = Some b' \<Longrightarrow> wr16 off v b' = wr16 off v b" for w b b' v
    by (auto simp: wr16_def list_update_twice split: if_splits)
  show "length b = length b' \<Longrightarrow> (\<And>i. off \<le> i \<Longrightarrow> i < off + 2 \<Longrightarrow> b ! i = b' ! i) \<Longrightarrow>
    rd16 off b = rd16 off b'" for b b' by (simp add: rd16_def)
qed (auto simp: rd16_def wr16_def nth_list_update split: if_splits)

interpretation f32: mem_field "rd32 off" "wr32 off" off 4 for off
proof
  show "rd32 off b = Some v \<Longrightarrow> wr32 off v b = Some b" for b v
    by (auto simp: rd32_def wr32_def split: if_splits)
  show "wr32 off w b = Some b' \<Longrightarrow> wr32 off v b' = wr32 off v b" for w b b' v
    by (auto simp: wr32_def nth_list_update split: if_splits intro!: nth_equalityI)
  show "length b = length b' \<Longrightarrow> (\<And>i. off \<le> i \<Longrightarrow> i < off + 4 \<Longrightarrow> b ! i = b' ! i) \<Longrightarrow>
    rd32 off b = rd32 off b'" for b b' by (simp add: rd32_def)
qed (auto simp: rd32_def wr32_def nth_list_update split: if_splits)

lemma get_other_fields:
  "wr16 a v b = Some b' \<Longrightarrow> a + 2 \<le> c \<or> c + 2 \<le> a \<Longrightarrow> rd16 c b' = rd16 c b"
  "wr16 a v b = Some b' \<Longrightarrow> a + 2 \<le> c \<or> c + 4 \<le> a \<Longrightarrow> rd32 c b' = rd32 c b"
  "wr32 a w b = Some b' \<Longrightarrow> a + 4 \<le> c \<or> c + 2 \<le> a \<Longrightarrow> rd16 c b' = rd16 c b"
  "wr32 a w b = Some b' \<Longrightarrow> a + 4 \<le> c \<or> c + 4 \<le> a \<Longrightarrow> rd32 c b' = rd32 c b"
  by (erule mem_fields.get_other
      [OF mem_fields.intro [OF f16.mem_field_axioms f16.mem_field_axioms mem_fields_axioms.intro], rotated]
      mem_fields.get_other
      [OF mem_fields.intro [OF f16.mem_field_axioms f32.mem_field_axioms mem_fields_axioms.intro], rotated]
      mem_fields.get_other
      [OF mem_fields.intro [OF f32.mem_field_axioms f16.mem_field_axioms mem_fields_axioms.intro], rotated]
      mem_fields.get_other
      [OF mem_fields.intro [OF f32.mem_field_axioms f32.mem_field_axioms mem_fields_axioms.intro], rotated];
      assumption)+

text \<open>
  Two buffers that agree outside a set of byte positions: how a chain of field assignments is
  summarised.
\<close>

definition agree_off :: "nat set \<Rightarrow> buf \<Rightarrow> buf \<Rightarrow> bool" where
  "agree_off S b b' \<longleftrightarrow> length b' = length b \<and> (\<forall>k. k \<notin> S \<longrightarrow> b' ! k = b ! k)"

lemma agree_off_refl [simp]: "agree_off S b b"
  by (simp add: agree_off_def)

lemma agree_off_trans: "agree_off S a b \<Longrightarrow> agree_off T b c \<Longrightarrow> agree_off (S \<union> T) a c"
  by (simp add: agree_off_def)

lemma agree_off_mono: "agree_off S a b \<Longrightarrow> S \<subseteq> T \<Longrightarrow> agree_off T a b"
  by (auto simp: agree_off_def)

lemma agree_off_length: "agree_off S b b' \<Longrightarrow> length b' = length b"
  by (simp add: agree_off_def)

lemma agree_off_wr:
  "wr8 off v b = Some b' \<Longrightarrow> agree_off {off} b b'"
  "wr16 off w b = Some b' \<Longrightarrow> agree_off {off..<off + 2} b b'"
  "wr32 off x b = Some b' \<Longrightarrow> agree_off {off..<off + 4} b b'"
  by (auto simp: agree_off_def wr8_def wr16_def wr32_def nth_list_update split: if_splits)

lemma agree_off_rd:
  assumes "agree_off S b b'"
  shows "off \<notin> S \<Longrightarrow> rd8 off b' = rd8 off b"
    "{off..<off + 2} \<inter> S = {} \<Longrightarrow> rd16 off b' = rd16 off b"
    "{off..<off + 4} \<inter> S = {} \<Longrightarrow> rd32 off b' = rd32 off b"
    "{off..<off + n} \<inter> S = {} \<Longrightarrow> rd_bytes off n b' = rd_bytes off n b"
    "{off..<off + n} \<inter> S = {} \<Longrightarrow> off + n \<le> length b \<Longrightarrow> take n (drop off b') = take n (drop off b)"
proof -
  have len: "length b' = length b" and nth: "\<And>k. k \<notin> S \<Longrightarrow> b' ! k = b ! k"
    using assms by (simp_all add: agree_off_def)
  have out: "off + k \<notin> S" if "{off..<off + m} \<inter> S = {}" "k < m" for k m
  proof -
    have "off + k \<in> {off..<off + m}" using that(2) by simp
    then show ?thesis using that(1) by blast
  qed
  show "off \<notin> S \<Longrightarrow> rd8 off b' = rd8 off b" by (simp add: rd8_def len nth)
  show "rd16 off b' = rd16 off b" if "{off..<off + 2} \<inter> S = {}"
    using nth [OF out [OF that, of 0]] nth [OF out [OF that, of 1]] by (simp add: rd16_def len)
  show "rd32 off b' = rd32 off b" if "{off..<off + 4} \<inter> S = {}"
    using nth [OF out [OF that, of 0]] nth [OF out [OF that, of 1]] nth [OF out [OF that, of 2]]
      nth [OF out [OF that, of 3]] by (simp add: rd32_def len)
  show slice: "take n (drop off b') = take n (drop off b)"
    if "{off..<off + n} \<inter> S = {}" "off + n \<le> length b"
    by (rule nth_equalityI) (use that len nth out in auto)
  show "rd_bytes off n b' = rd_bytes off n b" if "{off..<off + n} \<inter> S = {}"
    using slice [OF that] by (simp add: rd_bytes_def len)
qed

section \<open>C strings\<close>

text \<open>
  A C string is the list of its characters before the terminating NUL.  \<open>strncpy(dst, src, n)\<close>
  keeps the first \<open>n\<close> of them, and \<open>strncmp(a, b, n) == 0\<close> compares the first \<open>n\<close>.
\<close>

definition strncpy :: "string \<Rightarrow> nat \<Rightarrow> string" where
  "strncpy src n = take n src"

definition strn_eq :: "string \<Rightarrow> string \<Rightarrow> nat \<Rightarrow> bool" where
  "strn_eq a b n \<longleftrightarrow> take n a = take n b"

lemma strn_eq_refl [simp]: "strn_eq a a n"
  by (simp add: strn_eq_def)

lemma strn_eq_strncpy [simp]: "strn_eq (strncpy a n) b n \<longleftrightarrow> strn_eq a b n"
  "strn_eq a (strncpy b n) n \<longleftrightarrow> strn_eq a b n"
  by (simp_all add: strn_eq_def strncpy_def)

section \<open>Lists\<close>

text \<open>Change the first element that satisfies the test, the walk the code does over its linked lists.\<close>

fun update_first :: "('a \<Rightarrow> bool) \<Rightarrow> ('a \<Rightarrow> 'a) \<Rightarrow> 'a list \<Rightarrow> 'a list" where
  "update_first P f [] = []"
| "update_first P f (x # xs) = (if P x then f x # xs else x # update_first P f xs)"

lemma length_update_first [simp]: "length (update_first P f xs) = length xs"
  by (induction xs) auto

lemma map_update_first:
  "(\<And>x. x \<in> set xs \<Longrightarrow> P x \<Longrightarrow> g (f x) = g x) \<Longrightarrow> map g (update_first P f xs) = map g xs"
  by (induction xs) auto

lemma update_first_cong:
  "(\<And>x. x \<in> set xs \<Longrightarrow> P x = Q x) \<Longrightarrow> update_first P f xs = update_first Q f xs"
  by (induction xs) auto

lemma find_SomeD: "find P xs = Some x \<Longrightarrow> P x \<and> x \<in> set xs"
  by (induction xs) (auto split: if_splits)

lemma find_append: "find P (xs @ ys) = (case find P xs of None \<Rightarrow> find P ys | Some x \<Rightarrow> Some x)"
  by (induction xs) auto

lemma set_update_first_subset: "set (update_first P f xs) \<subseteq> set xs \<union> f ` {x \<in> set xs. P x}"
  by (induction xs) auto

lemma find_update_first:
  "(\<And>x. P x \<Longrightarrow> P (f x)) \<Longrightarrow> find P (update_first P f xs) = map_option f (find P xs)"
  by (induction xs) auto

lemma update_first_split:
  "find P xs = Some x \<Longrightarrow>
     \<exists>pre post. xs = pre @ x # post \<and> update_first P f xs = pre @ f x # post \<and> list_all (\<lambda>y. \<not> P y) pre"
proof (induction xs)
  case (Cons y ys)
  show ?case
  proof (cases "P y")
    case True
    with Cons.prems show ?thesis by (intro exI [of _ "[]"] exI [of _ ys]) simp
  next
    case False
    with Cons obtain pre post where "ys = pre @ x # post" "update_first P f ys = pre @ f x # post"
      "list_all (\<lambda>y. \<not> P y) pre" by auto
    with False show ?thesis by (intro exI [of _ "y # pre"] exI [of _ post]) simp
  qed
qed simp

text \<open>Remove the first element that satisfies the test.\<close>

fun remove_first :: "('a \<Rightarrow> bool) \<Rightarrow> 'a list \<Rightarrow> 'a list" where
  "remove_first P [] = []"
| "remove_first P (x # xs) = (if P x then xs else x # remove_first P xs)"

lemma remove_first_id: "(\<And>x. x \<in> set xs \<Longrightarrow> \<not> P x) \<Longrightarrow> remove_first P xs = xs"
  by (induction xs) auto

lemma set_remove_first_subset: "set (remove_first P xs) \<subseteq> set xs"
  by (induction xs) auto

lemma distinct_map_remove_first:
  "distinct (map g xs) \<Longrightarrow> distinct (map g (remove_first P xs))"
proof (induction xs)
  case (Cons x xs)
  then show ?case
    using set_remove_first_subset [of P xs] by auto
qed simp

lemma remove_first_eq_filter:
  "distinct (map g xs) \<Longrightarrow> remove_first (\<lambda>x. g x = k) xs = filter (\<lambda>x. g x \<noteq> k) xs"
proof (induction xs)
  case (Cons x xs)
  show ?case
  proof (cases "g x = k")
    case True
    with Cons.prems have "\<forall>y \<in> set xs. g y \<noteq> k" by (metis distinct.simps(2) image_eqI list.set_map list.simps(9))
    with True show ?thesis by (simp add: filter_id_conv)
  next
    case False
    with Cons show ?thesis by simp
  qed
qed simp

end
