(* ===== verification/SR_Protocol.thy ===== *)
theory SR_Protocol
  imports SR_Prelude
begin

text \<open>
  The packed structs and constants of \<open>sr_protocol.h\<close>.  A header is not a separate value: the code
  casts a pointer into the packet buffer, so a field is the offset of its first byte inside its
  struct, and an access is \<open>rd16 (base + field) packet\<close> with the header's base.  The bit fields
  (\<open>ip_hl\<close>, the TCP flags) use the little-endian layout of the header file.
\<close>

section \<open>Constants\<close>

abbreviation (input) sr_IFACE_NAMELEN :: nat where "sr_IFACE_NAMELEN \<equiv> 32"
abbreviation (input) ETHER_ADDR_LEN :: nat where "ETHER_ADDR_LEN \<equiv> 6"
abbreviation (input) IP_ADDR_LEN :: u8 where "IP_ADDR_LEN \<equiv> 4"
abbreviation (input) IP_MAXPACKET :: u32 where "IP_MAXPACKET \<equiv> 65535"
abbreviation (input) DEFAULT_HDRLEN :: u8 where "DEFAULT_HDRLEN \<equiv> 5"
abbreviation (input) IPV4_VERSION :: u8 where "IPV4_VERSION \<equiv> 4"
abbreviation (input) DEFAULT_TTL :: u8 where "DEFAULT_TTL \<equiv> 64"
abbreviation (input) ICMP_DATA_SIZE :: nat where "ICMP_DATA_SIZE \<equiv> 28"

abbreviation (input) ethertype_arp :: u16 where "ethertype_arp \<equiv> 0x0806"
abbreviation (input) ethertype_ip :: u16 where "ethertype_ip \<equiv> 0x0800"

abbreviation (input) arp_op_request :: u16 where "arp_op_request \<equiv> 1"
abbreviation (input) arp_op_reply :: u16 where "arp_op_reply \<equiv> 2"
abbreviation (input) arp_hrd_ethernet :: u16 where "arp_hrd_ethernet \<equiv> 1"
abbreviation (input) arp_pro_ip :: u16 where "arp_pro_ip \<equiv> 0x0800"

abbreviation (input) ip_protocol_icmp :: u8 where "ip_protocol_icmp \<equiv> 0x01"
abbreviation (input) ip_protocol_tcp :: u8 where "ip_protocol_tcp \<equiv> 0x06"
abbreviation (input) ip_protocol_udp :: u8 where "ip_protocol_udp \<equiv> 0x11"

abbreviation (input) icmp_type_echoreply :: u8 where "icmp_type_echoreply \<equiv> 0x00"
abbreviation (input) icmp_type_dstunreachable :: u8 where "icmp_type_dstunreachable \<equiv> 0x03"
abbreviation (input) icmp_type_timeexceeded :: u8 where "icmp_type_timeexceeded \<equiv> 0x0B"

text \<open>The two broadcast addresses that \<open>sr_init\<close> stores in global variables.\<close>

definition ether_broadcast_addr :: buf where
  "ether_broadcast_addr = [0xFF, 0xFF, 0xFF, 0xFF, 0xFF, 0xFF]"

definition ip_broadcast_addr :: u32 where
  "ip_broadcast_addr = 0xFFFFFFFF"

section \<open>Field offsets\<close>

text \<open>\<open>struct sr_ethernet_hdr\<close>\<close>

abbreviation (input) sizeof_sr_ethernet_hdr :: nat where "sizeof_sr_ethernet_hdr \<equiv> 14"
abbreviation (input) ether_dhost :: nat where "ether_dhost \<equiv> 0"
abbreviation (input) ether_shost :: nat where "ether_shost \<equiv> 6"
abbreviation (input) ether_type :: nat where "ether_type \<equiv> 12"

text \<open>\<open>struct sr_arp_packet\<close>\<close>

abbreviation (input) sizeof_sr_arp_packet :: nat where "sizeof_sr_arp_packet \<equiv> 28"
abbreviation (input) ar_hrd :: nat where "ar_hrd \<equiv> 0"
abbreviation (input) ar_pro :: nat where "ar_pro \<equiv> 2"
abbreviation (input) ar_hln :: nat where "ar_hln \<equiv> 4"
abbreviation (input) ar_pln :: nat where "ar_pln \<equiv> 5"
abbreviation (input) ar_op :: nat where "ar_op \<equiv> 6"
abbreviation (input) ar_sha :: nat where "ar_sha \<equiv> 8"
abbreviation (input) ar_sip :: nat where "ar_sip \<equiv> 14"
abbreviation (input) ar_tha :: nat where "ar_tha \<equiv> 18"
abbreviation (input) ar_tip :: nat where "ar_tip \<equiv> 24"

text \<open>\<open>struct sr_ip_hdr\<close>\<close>

abbreviation (input) sizeof_sr_ip_hdr :: nat where "sizeof_sr_ip_hdr \<equiv> 20"
abbreviation (input) ip_tos :: nat where "ip_tos \<equiv> 1"
abbreviation (input) ip_len :: nat where "ip_len \<equiv> 2"
abbreviation (input) ip_id :: nat where "ip_id \<equiv> 4"
abbreviation (input) ip_off :: nat where "ip_off \<equiv> 6"
abbreviation (input) ip_ttl :: nat where "ip_ttl \<equiv> 8"
abbreviation (input) ip_p :: nat where "ip_p \<equiv> 9"
abbreviation (input) ip_sum :: nat where "ip_sum \<equiv> 10"
abbreviation (input) ip_src :: nat where "ip_src \<equiv> 12"
abbreviation (input) ip_dst :: nat where "ip_dst \<equiv> 16"

definition ip_hl :: "buf \<Rightarrow> nat option" where
  "ip_hl p = do { b \<leftarrow> rd8 0 p; Some (unat (b AND 15)) }"

text \<open>\<open>struct sr_tcp_hdr\<close>; the flags are the bits of byte 13.\<close>

abbreviation (input) sizeof_sr_tcp_hdr :: nat where "sizeof_sr_tcp_hdr \<equiv> 20"
abbreviation (input) tcp_src_port :: nat where "tcp_src_port \<equiv> 0"
abbreviation (input) tcp_dst_port :: nat where "tcp_dst_port \<equiv> 2"
abbreviation (input) tcp_seq_num :: nat where "tcp_seq_num \<equiv> 4"
abbreviation (input) tcp_checksum :: nat where "tcp_checksum \<equiv> 16"

record tcp_flags =
  FIN :: bool
  SYN :: bool
  ACK :: bool

definition flags_of :: "u8 \<Rightarrow> tcp_flags" where
  "flags_of b = \<lparr>FIN = bit b 0, SYN = bit b 1, ACK = bit b 4\<rparr>"

definition tcp_flags_at :: "nat \<Rightarrow> buf \<Rightarrow> tcp_flags option" where
  "tcp_flags_at tcp p = do { b \<leftarrow> rd8 (tcp + 13) p; Some (flags_of b) }"

text \<open>\<open>struct sr_tcp_pseudo_hdr\<close>, as the bytes the code fills in.\<close>

abbreviation (input) sizeof_sr_tcp_pseudo_hdr :: nat where "sizeof_sr_tcp_pseudo_hdr \<equiv> 12"

definition sr_tcp_pseudo_hdr :: "u32 \<Rightarrow> u32 \<Rightarrow> u8 \<Rightarrow> u16 \<Rightarrow> buf" where
  "sr_tcp_pseudo_hdr src dst protocol tcp_len =
     bytes32 src @ bytes32 dst @ [0, protocol] @ bytes16 tcp_len"

text \<open>\<open>struct sr_icmp_hdr\<close> and \<open>struct sr_icmp_packet\<close>\<close>

abbreviation (input) sizeof_sr_icmp_hdr :: nat where "sizeof_sr_icmp_hdr \<equiv> 8"
abbreviation (input) sizeof_sr_icmp_packet :: nat where "sizeof_sr_icmp_packet \<equiv> 36"
abbreviation (input) icmp_type :: nat where "icmp_type \<equiv> 0"
abbreviation (input) icmp_code :: nat where "icmp_code \<equiv> 1"
abbreviation (input) icmp_sum :: nat where "icmp_sum \<equiv> 2"
abbreviation (input) icmp_ident :: nat where "icmp_ident \<equiv> 4"
abbreviation (input) icmp_seq_num :: nat where "icmp_seq_num \<equiv> 6"

lemma length_sr_tcp_pseudo_hdr [simp]: "length (sr_tcp_pseudo_hdr s d p l) = 12"
  by (simp add: sr_tcp_pseudo_hdr_def)

lemma ip_hl_Some [mem]: "0 < length p \<Longrightarrow> ip_hl p = Some (unat (p ! 0 AND 15))"
  by (simp add: ip_hl_def mem)

lemma ip_hl_le: "ip_hl p = Some hl \<Longrightarrow> hl \<le> 15"
proof -
  assume "ip_hl p = Some hl"
  then obtain b where hl: "hl = unat (b AND 15 :: u8)"
    by (auto simp: ip_hl_def Option.bind_eq_Some_conv)
  have "b AND 15 \<le> 15" by (rule word_and_le1)
  then show ?thesis by (simp add: hl word_le_nat_alt)
qed

lemma tcp_flags_at_Some [mem]:
  "tcp + 13 < length p \<Longrightarrow> tcp_flags_at tcp p = Some (flags_of (p ! (tcp + 13)))"
  by (simp add: tcp_flags_at_def mem)

section \<open>Fields of the IP header that do not overlap\<close>

interpretation ip_sum_src: mem_fields "rd16 ip_sum" "wr16 ip_sum" ip_sum 2 "rd32 ip_src" "wr32 ip_src" ip_src 4
  by unfold_locales simp

interpretation ip_sum_dst: mem_fields "rd16 ip_sum" "wr16 ip_sum" ip_sum 2 "rd32 ip_dst" "wr32 ip_dst" ip_dst 4
  by unfold_locales simp

interpretation ip_src_dst: mem_fields "rd32 ip_src" "wr32 ip_src" ip_src 4 "rd32 ip_dst" "wr32 ip_dst" ip_dst 4
  by unfold_locales simp

end
