(* ===== verification/SR_If.thy ===== *)
theory SR_If
  imports SR_Protocol
begin

text \<open>
  \<open>sr_if.c\<close>: the router's interface list.  The list hangs off \<open>sr->if_list\<close>; the operations here
  take that list.  \<open>malloc\<close> leaves the fields the code does not assign with whatever the memory
  held, so \<open>sr_add_interface\<close> takes that content as an argument.
\<close>

record sr_if =
  if_name :: string
  if_addr :: buf
  if_ip :: u32
  if_speed :: u32

definition sr_get_interface :: "sr_if list \<Rightarrow> string \<Rightarrow> sr_if option" where
  "sr_get_interface if_list name =
     find (\<lambda>if_walker. strn_eq (if_name if_walker) name sr_IFACE_NAMELEN) if_list"

definition sr_add_interface :: "sr_if \<Rightarrow> sr_if list \<Rightarrow> string \<Rightarrow> sr_if list" where
  "sr_add_interface malloced if_list name =
     (let new = malloced\<lparr>if_name := strncpy name sr_IFACE_NAMELEN\<rparr>
      in if if_list = [] then [new] else if_list @ [new])"

definition sr_set_ether_addr :: "sr_if list \<Rightarrow> buf \<Rightarrow> sr_if list option" where
  "sr_set_ether_addr if_list addr =
     (if if_list = [] then None
      else do {
        mac \<leftarrow> rd_bytes 0 ETHER_ADDR_LEN addr;
        Some (butlast if_list @ [(last if_list)\<lparr>if_addr := mac\<rparr>])
      })"

definition sr_set_ether_ip :: "sr_if list \<Rightarrow> u32 \<Rightarrow> sr_if list option" where
  "sr_set_ether_ip if_list ip_nbo =
     (if if_list = [] then None
      else Some (butlast if_list @ [(last if_list)\<lparr>if_ip := ip_nbo\<rparr>]))"

section \<open>Lookup\<close>

lemma sr_get_interface_Some:
  "sr_get_interface if_list name = Some i \<Longrightarrow> i \<in> set if_list \<and> strn_eq (if_name i) name 32"
  by (auto simp: sr_get_interface_def find_Some_iff)

lemma sr_get_interface_append:
  "sr_get_interface (xs @ ys) name =
     (case sr_get_interface xs name of None \<Rightarrow> sr_get_interface ys name | Some i \<Rightarrow> Some i)"
  by (induction xs) (auto simp: sr_get_interface_def)

lemma sr_get_interface_strncpy [simp]:
  "sr_get_interface if_list (strncpy name 32) = sr_get_interface if_list name"
  by (simp add: sr_get_interface_def)

text \<open>
  The messages of the hardware description arrive as interface, address and IP in turn: the three
  operations configure one complete record at the end of the list, and nothing of what \<open>malloc\<close>
  returned but the unused speed is left in it.
\<close>

lemma configure_interface:
  assumes "length mac = 6" "sr_set_ether_addr (sr_add_interface g if_list name) mac = Some l1"
    and "sr_set_ether_ip l1 ip = Some l2"
  shows "l2 = if_list @
    [\<lparr>if_name = take 32 name, if_addr = mac, if_ip = ip, if_speed = if_speed g\<rparr>]"
  using assms
  by (auto simp: sr_set_ether_addr_def sr_add_interface_def sr_set_ether_ip_def mem Let_def
      strncpy_def butlast_append split: if_splits)

text \<open>A later interface of the same name never hides an earlier one.\<close>

lemma sr_add_interface_lookup:
  "sr_get_interface (sr_add_interface g if_list name) n =
     (case sr_get_interface if_list n of
        Some i \<Rightarrow> Some i
      | None \<Rightarrow> if strn_eq name n 32 then Some (g\<lparr>if_name := take 32 name\<rparr>) else None)"
proof -
  have "sr_add_interface g if_list name = if_list @ [g\<lparr>if_name := take 32 name\<rparr>]"
    by (simp add: sr_add_interface_def Let_def strncpy_def)
  moreover have "sr_get_interface [g\<lparr>if_name := take 32 name\<rparr>] n =
      (if strn_eq name n 32 then Some (g\<lparr>if_name := take 32 name\<rparr>) else None)"
    by (simp add: sr_get_interface_def strn_eq_def)
  ultimately show ?thesis by (simp add: sr_get_interface_append split: option.split)
qed

end
