(* ===== verification/SR_Rt.thy ===== *)
theory SR_Rt
  imports SR_Protocol
begin

text \<open>
  \<open>sr_rt.c\<close>: the routing table, its longest-prefix lookup, and loading it from a file.  A null
  \<open>routing_table\<close> pointer is the empty list.
\<close>

record sr_rt =
  rt_dest :: u32
  rt_gw :: u32
  rt_mask :: u32
  rt_interface :: string

section \<open>Lookup\<close>

text \<open>
  The loop of \<open>sr_rt_lookup\<close>: \<open>lpm\<close> is the best entry so far and \<open>longest_mask\<close> its mask in host
  order.  Addresses and masks are in network order.
\<close>

definition rt_matches :: "sr_rt \<Rightarrow> u32 \<Rightarrow> bool" where
  "rt_matches r ip \<longleftrightarrow> ip AND rt_mask r = rt_dest r AND rt_mask r"

fun rt_lookup_loop :: "sr_rt list \<Rightarrow> u32 \<Rightarrow> sr_rt option \<Rightarrow> nat \<Rightarrow> sr_rt option" where
  "rt_lookup_loop [] ip lpm longest_mask = lpm"
| "rt_lookup_loop (cur # rest) ip lpm longest_mask =
     (if rt_matches cur ip \<and> longest_mask < unat (ntohl (rt_mask cur))
      then rt_lookup_loop rest ip (Some cur) (unat (ntohl (rt_mask cur)))
      else rt_lookup_loop rest ip lpm longest_mask)"

definition sr_rt_lookup :: "sr_rt list \<Rightarrow> u32 \<Rightarrow> sr_rt option option" where
  "sr_rt_lookup rt ip = (if rt = [] then None else Some (rt_lookup_loop rt ip None 0))"

section \<open>Building the table\<close>

definition sr_add_rt_entry :: "sr_rt list \<Rightarrow> u32 \<Rightarrow> u32 \<Rightarrow> u32 \<Rightarrow> string \<Rightarrow> sr_rt list" where
  "sr_add_rt_entry routing_table dest gw nmask if_name =
     (let new = \<lparr>rt_dest = dest, rt_gw = gw, rt_mask = nmask,
                 rt_interface = strncpy if_name sr_IFACE_NAMELEN\<rparr>
      in if routing_table = [] then [new] else routing_table @ [new])"

text \<open>
  \<open>sscanf(line, "%s %s %s %s", dest, gw, mask, iface)\<close>: the blank-separated words of the line go
  to the four 32-byte buffers in turn; a buffer whose word is missing keeps what it held, and a
  word of 32 characters or more overflows its buffer.  \<open>None\<close> in a buffer is its uninitialised
  content.
\<close>

definition isspace :: "char \<Rightarrow> bool" where
  "isspace c \<longleftrightarrow> c \<in> {CHR '' '', CHR 0x09, CHR 0x0A, CHR 0x0B, CHR 0x0C, CHR 0x0D}"

fun scan_words :: "string \<Rightarrow> string \<Rightarrow> string list" where
  "scan_words w [] = (if w = [] then [] else [w])"
| "scan_words w (c # cs) =
     (if isspace c then (if w = [] then scan_words [] cs else w # scan_words [] cs)
      else scan_words (w @ [c]) cs)"

fun scan_into :: "string list \<Rightarrow> string option list \<Rightarrow> string option list option" where
  "scan_into [] bufs = Some bufs"
| "scan_into (w # ws) [] = Some []"
| "scan_into (w # ws) (b # bufs) =
     (if length w < 32 then do { r \<leftarrow> scan_into ws bufs; Some (Some w # r) } else None)"

text \<open>
  The loop of \<open>sr_load_rt\<close> over the lines \<open>fgets\<close> returns.  \<open>inet_aton\<close> is the C library's.  The
  result is the return code and the table; reading an uninitialised buffer is undefined.
\<close>

fun load_rt_loop ::
  "(string \<Rightarrow> u32 option) \<Rightarrow> string list \<Rightarrow> string option list \<Rightarrow> bool \<Rightarrow> sr_rt list \<Rightarrow>
   (int \<times> sr_rt list) option" where
  "load_rt_loop inet_aton [] bufs cleared rt = Some (0, rt)"
| "load_rt_loop inet_aton (line # rest) bufs cleared rt =
     do {
       bufs \<leftarrow> scan_into (scan_words [] line) bufs;
       dest \<leftarrow> bufs ! 0;
       case inet_aton dest of None \<Rightarrow> Some (-1, rt) | Some dest_addr \<Rightarrow> do {
       gw \<leftarrow> bufs ! 1;
       case inet_aton gw of None \<Rightarrow> Some (-1, rt) | Some gw_addr \<Rightarrow> do {
       nmask \<leftarrow> bufs ! 2;
       case inet_aton nmask of None \<Rightarrow> Some (-1, rt) | Some mask_addr \<Rightarrow> do {
       let rt = (if cleared then rt else []);
       iface \<leftarrow> bufs ! 3;
       load_rt_loop inet_aton rest bufs True
         (sr_add_rt_entry rt dest_addr gw_addr mask_addr iface)
       }}}
     }"

declare load_rt_loop.simps(2) [simp del]

definition sr_load_rt ::
  "(string \<Rightarrow> u32 option) \<Rightarrow> string list option \<Rightarrow> sr_rt list \<Rightarrow> (int \<times> sr_rt list) option" where
  "sr_load_rt inet_aton file rt =
     (case file of
        None \<Rightarrow> Some (-1, rt)
      | Some lines \<Rightarrow> load_rt_loop inet_aton lines [None, None, None, None] False rt)"

section \<open>Longest-prefix match\<close>

definition mask_len :: "sr_rt \<Rightarrow> nat" where
  "mask_len r = unat (ntohl (rt_mask r))"

text \<open>
  The entry the loop ends with, given what it started with: the first matching entry whose mask
  exceeds the starting one and is the largest.
\<close>

lemma rt_lookup_loop_None:
  "rt_lookup_loop rt ip None m = None \<longleftrightarrow> (\<forall>r \<in> set rt. rt_matches r ip \<longrightarrow> mask_len r \<le> m)"
proof -
  have some: "\<exists>y. rt_lookup_loop rt ip (Some x) m = Some y" for rt x m
    by (induction rt arbitrary: x m) auto
  show ?thesis
    by (induction rt) (use some in \<open>auto simp: mask_len_def\<close>)
qed

lemma rt_lookup_loop_cases:
  "rt_lookup_loop rt ip lpm m =
     (if \<forall>r \<in> set rt. rt_matches r ip \<longrightarrow> mask_len r \<le> m then lpm
      else rt_lookup_loop rt ip None m)"
proof (induction rt arbitrary: lpm m)
  case (Cons r rt)
  show ?case
  proof (cases "rt_matches r ip \<and> m < mask_len r")
    case True
    then show ?thesis by (auto simp: mask_len_def)
  next
    case False
    then have "rt_lookup_loop (r # rt) ip l m = rt_lookup_loop rt ip l m" for l
      by (auto simp: mask_len_def)
    with Cons [of lpm m] False show ?thesis by auto
  qed
qed simp

definition first_longest :: "sr_rt list \<Rightarrow> u32 \<Rightarrow> nat \<Rightarrow> sr_rt \<Rightarrow> bool" where
  "first_longest rt ip m r \<longleftrightarrow>
     (\<exists>xs ys. rt = xs @ r # ys \<and> rt_matches r ip \<and> m < mask_len r \<and>
        (\<forall>x \<in> set xs. rt_matches x ip \<longrightarrow> mask_len x < mask_len r) \<and>
        (\<forall>y \<in> set ys. rt_matches y ip \<longrightarrow> mask_len y \<le> mask_len r))"

lemma first_longest_Cons_iff:
  "first_longest (r0 # rt) ip m r \<longleftrightarrow>
     (r = r0 \<and> rt_matches r ip \<and> m < mask_len r \<and>
        (\<forall>y \<in> set rt. rt_matches y ip \<longrightarrow> mask_len y \<le> mask_len r)) \<or>
     ((rt_matches r0 ip \<longrightarrow> mask_len r0 < mask_len r) \<and> first_longest rt ip m r)"
    (is "?l \<longleftrightarrow> ?here \<or> ?later")
proof
  assume ?l
  then obtain xs ys where d: "r0 # rt = xs @ r # ys" and p: "rt_matches r ip" "m < mask_len r"
    "\<forall>x \<in> set xs. rt_matches x ip \<longrightarrow> mask_len x < mask_len r"
    "\<forall>y \<in> set ys. rt_matches y ip \<longrightarrow> mask_len y \<le> mask_len r"
    unfolding first_longest_def by blast
  show "?here \<or> ?later"
    using d p by (cases xs) (auto simp: first_longest_def)
next
  assume "?here \<or> ?later"
  then show ?l
  proof
    assume ?here
    then show ?l unfolding first_longest_def
      by - (rule exI [of _ "[]"], rule exI [of _ rt], auto)
  next
    assume l: ?later
    then obtain xs ys where "rt = xs @ r # ys" "rt_matches r ip" "m < mask_len r"
      "\<forall>x \<in> set xs. rt_matches x ip \<longrightarrow> mask_len x < mask_len r"
      "\<forall>y \<in> set ys. rt_matches y ip \<longrightarrow> mask_len y \<le> mask_len r"
      unfolding first_longest_def by blast
    with l show ?l unfolding first_longest_def
      by - (rule exI [of _ "r0 # xs"], rule exI [of _ ys], simp)
  qed
qed

lemma first_longest_mono:
  "m \<le> m' \<Longrightarrow> first_longest rt ip m' r \<longleftrightarrow> first_longest rt ip m r \<and> m' < mask_len r"
  unfolding first_longest_def by fastforce

lemma first_longest_ex:
  "first_longest rt ip m r \<Longrightarrow> m < mask_len r \<and> r \<in> set rt \<and> rt_matches r ip"
  unfolding first_longest_def by auto

lemma first_longest_Cons:
  "first_longest (r0 # rt) ip m r \<longleftrightarrow>
     (if rt_matches r0 ip \<and> m < mask_len r0
      then (if \<forall>y \<in> set rt. rt_matches y ip \<longrightarrow> mask_len y \<le> mask_len r0 then r = r0
            else first_longest rt ip (mask_len r0) r)
      else first_longest rt ip m r)"
proof (cases "rt_matches r0 ip \<and> m < mask_len r0")
  case True
  then show ?thesis
    using first_longest_ex [of rt ip m r] first_longest_mono [of m "mask_len r0" rt ip r]
    unfolding first_longest_Cons_iff by (auto dest: leD)
next
  case False
  then show ?thesis
    using first_longest_ex [of rt ip m r] unfolding first_longest_Cons_iff by auto
qed

lemma rt_lookup_loop_Some:
  "rt_lookup_loop rt ip None m = Some r \<longleftrightarrow> first_longest rt ip m r"
proof (induction rt arbitrary: m)
  case Nil
  then show ?case by (simp add: first_longest_def)
next
  case (Cons r0 rt)
  have "rt_lookup_loop (r0 # rt) ip None m =
    (if rt_matches r0 ip \<and> m < mask_len r0
     then (if \<forall>y \<in> set rt. rt_matches y ip \<longrightarrow> mask_len y \<le> mask_len r0 then Some r0
           else rt_lookup_loop rt ip None (mask_len r0))
     else rt_lookup_loop rt ip None m)"
    by (simp add: rt_lookup_loop_cases [of rt ip "Some r0"] flip: mask_len_def)
  then show ?case using Cons by (auto simp: first_longest_Cons)
qed

lemma mask_len_zero: "mask_len r = 0 \<longleftrightarrow> rt_mask r = 0"
  using ntohl_inject [of "rt_mask r" 0]
  by (simp add: mask_len_def unsigned_eq_0_iff ntohl_def htonl_def le32_def byte_def)

text \<open>
  The complete description of \<open>sr_rt_lookup\<close>: on a non-empty table it returns an entry exactly when
  that entry matches, has a non-zero mask, and is the first of the longest ones; it returns no entry
  exactly when no entry with a non-zero mask matches.
\<close>

lemma sr_rt_lookup_Some:
  "sr_rt_lookup rt ip = Some (Some r) \<longleftrightarrow> first_longest rt ip 0 r"
  by (auto simp: sr_rt_lookup_def rt_lookup_loop_Some first_longest_def)

lemma sr_rt_lookup_NoRoute:
  "sr_rt_lookup rt ip = Some None \<longleftrightarrow>
     rt \<noteq> [] \<and> (\<forall>r \<in> set rt. rt_matches r ip \<longrightarrow> rt_mask r = 0)"
  by (auto simp: sr_rt_lookup_def rt_lookup_loop_None mask_len_zero)

lemma sr_rt_lookup_in_table:
  "sr_rt_lookup rt ip = Some (Some r) \<Longrightarrow> r \<in> set rt \<and> rt_matches r ip \<and> rt_mask r \<noteq> 0"
  using first_longest_ex [of rt ip 0 r] mask_len_zero [of r]
  by (simp add: sr_rt_lookup_Some)

lemma sr_rt_lookup_defined: "sr_rt_lookup rt ip = None \<longleftrightarrow> rt = []"
  by (simp add: sr_rt_lookup_def)

section \<open>Loading the table\<close>

text \<open>A line is good when it has at least four words, all short enough, of which the first three parse.\<close>

definition line_entry :: "(string \<Rightarrow> u32 option) \<Rightarrow> string \<Rightarrow> sr_rt option" where
  "line_entry inet_aton line =
     (case scan_words [] line of
        d # g # m # i # _ \<Rightarrow>
          (case (inet_aton d, inet_aton g, inet_aton m) of
             (Some da, Some ga, Some ma) \<Rightarrow>
               if length d < 32 \<and> length g < 32 \<and> length m < 32 \<and> length i < 32
               then Some \<lparr>rt_dest = da, rt_gw = ga, rt_mask = ma, rt_interface = i\<rparr> else None
           | _ \<Rightarrow> None)
      | _ \<Rightarrow> None)"

lemma scan_into_four:
  assumes "length bufs = 4" "length d < 32" "length g < 32" "length m < 32" "length i < 32"
  shows "scan_into (d # g # m # i # ws) bufs = Some [Some d, Some g, Some m, Some i]"
proof -
  obtain a b c e where "bufs = [a, b, c, e]"
    using assms(1) by (auto simp: length_Suc_conv eval_nat_numeral)
  moreover have "scan_into ws [] = Some []" by (cases ws) auto
  ultimately show ?thesis using assms by simp
qed

lemma sr_add_rt_entry_append:
  "length i < 32 \<Longrightarrow> sr_add_rt_entry rt d g m i =
     rt @ [\<lparr>rt_dest = d, rt_gw = g, rt_mask = m, rt_interface = i\<rparr>]"
  by (simp add: sr_add_rt_entry_def Let_def strncpy_def)

lemma load_rt_loop_good:
  assumes "line_entry inet_aton line = Some e" "length bufs = 4"
  shows "\<exists>bufs'. length bufs' = 4 \<and>
    load_rt_loop inet_aton (line # rest) bufs cleared rt =
      load_rt_loop inet_aton rest bufs' True ((if cleared then rt else []) @ [e])"
proof -
  obtain d g m i ws where w: "scan_words [] line = d # g # m # i # ws"
    using assms(1) by (auto simp: line_entry_def split: list.splits)
  have l: "length d < 32" "length g < 32" "length m < 32" "length i < 32"
    and e: "inet_aton d = Some (rt_dest e)" "inet_aton g = Some (rt_gw e)"
      "inet_aton m = Some (rt_mask e)" "i = rt_interface e"
    using assms(1) by (auto simp: line_entry_def w split: option.splits if_splits)
  have r: "\<lparr>rt_dest = rt_dest e, rt_gw = rt_gw e, rt_mask = rt_mask e,
      rt_interface = rt_interface e\<rparr> = e" by simp
  have "load_rt_loop inet_aton (line # rest) bufs cleared rt =
    load_rt_loop inet_aton rest [Some d, Some g, Some m, Some i] True
      ((if cleared then rt else []) @ [e])"
    using e l by (simp add: load_rt_loop.simps(2) w scan_into_four assms(2) sr_add_rt_entry_append Let_def r)
  then show ?thesis by (intro exI [of _ "[Some d, Some g, Some m, Some i]"]) simp
qed

lemma load_rt_loop_all:
  assumes "map (line_entry inet_aton) lines = map Some es" "length bufs = 4"
  shows "load_rt_loop inet_aton lines bufs cleared rt =
    Some (0, (if lines = [] \<or> cleared then rt else []) @ es)"
  using assms
proof (induction lines arbitrary: es bufs cleared rt)
  case (Cons line rest)
  then obtain e es' where es: "es = e # es'" "line_entry inet_aton line = Some e"
    "map (line_entry inet_aton) rest = map Some es'" by (cases es) auto
  obtain bufs' where b: "length bufs' = 4"
    "load_rt_loop inet_aton (line # rest) bufs cleared rt =
      load_rt_loop inet_aton rest bufs' True ((if cleared then rt else []) @ [e])"
    using load_rt_loop_good [OF es(2) Cons.prems(2)] by blast
  show ?case using Cons.IH [OF es(3) b(1), of True] by (simp add: b(2) es(1))
qed simp

lemma sr_load_rt_good:
  assumes "map (line_entry inet_aton) lines = map Some es" "lines \<noteq> []"
  shows "sr_load_rt inet_aton (Some lines) rt = Some (0, es)"
  using load_rt_loop_all [OF assms(1), of "[None, None, None, None]" False] assms(2)
  by (simp add: sr_load_rt_def)

text \<open>
  A bad address in a later line: the entries of the lines before it are already installed and the
  old table is gone when \<open>-1\<close> is returned.
\<close>

lemma load_rt_loop_append:
  assumes "map (line_entry inet_aton) good = map Some es" "length bufs = 4" "good \<noteq> []"
  shows "\<exists>bufs'. length bufs' = 4 \<and>
    load_rt_loop inet_aton (good @ rest) bufs cleared rt =
      load_rt_loop inet_aton rest bufs' True ((if cleared then rt else []) @ es)"
  using assms
proof (induction good arbitrary: es bufs cleared rt)
  case (Cons line good)
  then obtain e es' where es: "es = e # es'" "line_entry inet_aton line = Some e"
    "map (line_entry inet_aton) good = map Some es'" by (cases es) auto
  obtain bufs' where b: "length bufs' = 4"
    "load_rt_loop inet_aton (line # good @ rest) bufs cleared rt =
      load_rt_loop inet_aton (good @ rest) bufs' True ((if cleared then rt else []) @ [e])"
    using load_rt_loop_good [OF es(2) Cons.prems(2)] by blast
  show ?case
  proof (cases "good = []")
    case True
    with es b show ?thesis by auto
  next
    case False
    then show ?thesis
      using Cons.IH [OF es(3) b(1), of True "(if cleared then rt else []) @ [e]"]
      by (simp only: append_Cons b(2) es(1) append_assoc append_Nil if_True not_False_eq_True simp_thms)
  qed
qed simp

lemma sr_load_rt_bad:
  assumes "map (line_entry inet_aton) good = map Some es" "good \<noteq> []"
    and "scan_words [] bad = d # ws" "length d < 32" "\<forall>w \<in> set ws. length w < 32"
    and "inet_aton d = None"
  shows "sr_load_rt inet_aton (Some (good @ bad # rest)) rt = Some (-1, es)"
proof -
  obtain bufs where b: "length bufs = 4"
    "sr_load_rt inet_aton (Some (good @ bad # rest)) rt =
      load_rt_loop inet_aton (bad # rest) bufs True es"
    using load_rt_loop_append [OF assms(1) _ assms(2), of "[None, None, None, None]" "bad # rest" False rt]
    by (auto simp: sr_load_rt_def)
  have fits: "\<forall>w \<in> set ws. length w < 32 \<Longrightarrow> \<exists>r. scan_into ws bs = Some r" for bs
    by (induction ws bs rule: scan_into.induct) auto
  obtain b0 bs where "bufs = b0 # bs" using b(1) by (cases bufs) auto
  with b fits [OF assms(5), of bs] assms(3,4,6) show ?thesis by (auto simp: load_rt_loop.simps(2))
qed

end
