(* ===== verification/SR_ArpCache.thy ===== *)
theory SR_ArpCache
  imports SR_Protocol
begin

text \<open>
  \<open>sr_arpcache.c\<close>, the operations on the cache itself: lookup, queueing a packet on a request,
  insertion, destroying a request, expiry.  (The retransmission code, which also sends packets, is in
  theory \<open>SR_ArpQueue\<close>.)  The array \<open>entries\<close> is a list, the linked list \<open>requests\<close> a list
  in link order.  The code compares request pointers, so each request carries the address \<open>calloc\<close>
  returned for it; addresses come from the counter \<open>arp_brk\<close> and are never reused.
\<close>

abbreviation (input) SR_ARPCACHE_SZ :: nat where "SR_ARPCACHE_SZ \<equiv> 100"
abbreviation (input) SR_ARPCACHE_TO :: int where "SR_ARPCACHE_TO \<equiv> 15"
abbreviation (input) SR_ARPREQ_TO :: int where "SR_ARPREQ_TO \<equiv> 1"
abbreviation (input) SR_ARPREQ_MAX :: u32 where "SR_ARPREQ_MAX \<equiv> 5"

record sr_packet =
  pkt_buf :: buf
  pkt_len :: u32
  pkt_iface :: string
  pkt_sender :: string

record sr_arpentry =
  ent_mac :: buf
  ent_ip :: u32
  ent_added :: int
  ent_valid :: bool

record sr_arpreq =
  req_addr :: nat
  req_ip :: u32
  req_sent :: int
  req_times_sent :: u32
  req_packets :: "sr_packet list"

record sr_arpcache =
  entries :: "sr_arpentry list"
  requests :: "sr_arpreq list"
  arp_brk :: nat

section \<open>Operations\<close>

definition zero_arpentry :: sr_arpentry where
  "zero_arpentry = \<lparr>ent_mac = [0, 0, 0, 0, 0, 0], ent_ip = 0, ent_added = 0, ent_valid = False\<rparr>"

definition sr_arpcache_init :: "sr_arpcache \<Rightarrow> sr_arpcache" where
  "sr_arpcache_init cache =
     cache\<lparr>entries := replicate SR_ARPCACHE_SZ zero_arpentry, requests := []\<rparr>"

text \<open>The loop of \<open>sr_arpcache_lookup\<close> does not stop at a match: the last one wins.\<close>

fun arp_scan :: "sr_arpentry list \<Rightarrow> u32 \<Rightarrow> sr_arpentry option \<Rightarrow> sr_arpentry option" where
  "arp_scan [] ip entry = entry"
| "arp_scan (e # es) ip entry =
     (if ent_valid e \<and> ent_ip e = ip then arp_scan es ip (Some e) else arp_scan es ip entry)"

definition sr_arpcache_lookup :: "sr_arpcache \<Rightarrow> u32 \<Rightarrow> sr_arpentry option" where
  "sr_arpcache_lookup cache ip = arp_scan (entries cache) ip None"

text \<open>
  \<open>sr_arpcache_queuereq\<close> finds the request for the address or prepends a new one, then prepends the
  packet to the request's packets; it returns the request's address.
\<close>

definition sr_arpcache_queuereq ::
  "sr_arpcache \<Rightarrow> u32 \<Rightarrow> buf \<Rightarrow> u32 \<Rightarrow> string \<Rightarrow> string \<Rightarrow> (nat \<times> sr_arpcache) option" where
  "sr_arpcache_queuereq cache ip packet packet_len iface sender =
     (let (addr, cache) =
        (case find (\<lambda>req. req_ip req = ip) (requests cache) of
           Some req \<Rightarrow> (req_addr req, cache)
         | None \<Rightarrow>
             (arp_brk cache,
              cache\<lparr>requests :=
                       \<lparr>req_addr = arp_brk cache, req_ip = ip, req_sent = 0, req_times_sent = 0,
                        req_packets = []\<rparr> # requests cache,
                     arp_brk := Suc (arp_brk cache)\<rparr>))
      in if packet_len \<noteq> 0 then do {
           b \<leftarrow> rd_bytes 0 (unat packet_len) packet;
           let new_pkt = \<lparr>pkt_buf = b, pkt_len = packet_len,
                          pkt_iface = strncpy iface sr_IFACE_NAMELEN,
                          pkt_sender = strncpy sender sr_IFACE_NAMELEN\<rparr>;
           Some (addr, cache\<lparr>requests :=
             update_first (\<lambda>req. req_addr req = addr)
               (\<lambda>req. req\<lparr>req_packets := new_pkt # req_packets req\<rparr>) (requests cache)\<rparr>)
         } else Some (addr, cache))"

text \<open>
  \<open>sr_arpcache_insert\<close> unlinks the request for the address, if there is one, and returns it; the
  new entry goes into the first slot that is not valid, or nowhere when all are.
\<close>

definition sr_arpcache_insert ::
  "int \<Rightarrow> sr_arpcache \<Rightarrow> buf \<Rightarrow> u32 \<Rightarrow> (sr_arpreq option \<times> sr_arpcache) option" where
  "sr_arpcache_insert now cache mac ip =
     (let req = find (\<lambda>req. req_ip req = ip) (requests cache);
          cache = cache\<lparr>requests := remove_first (\<lambda>req. req_ip req = ip) (requests cache)\<rparr>
      in if list_all ent_valid (entries cache) then Some (req, cache)
         else do {
           m \<leftarrow> rd_bytes 0 6 mac;
           Some (req, cache\<lparr>entries :=
             update_first (\<lambda>e. \<not> ent_valid e)
               (\<lambda>e. e\<lparr>ent_mac := m, ent_ip := ip, ent_added := now, ent_valid := True\<rparr>)
               (entries cache)\<rparr>)
         })"

text \<open>\<open>sr_arpreq_destroy\<close>, given the address of the request it frees.\<close>

definition sr_arpreq_destroy :: "sr_arpcache \<Rightarrow> nat \<Rightarrow> sr_arpcache" where
  "sr_arpreq_destroy cache entry =
     cache\<lparr>requests := remove_first (\<lambda>req. req_addr req = entry) (requests cache)\<rparr>"

text \<open>The expiry loop of \<open>sr_arpcache_timeout\<close>.\<close>

definition arp_expire :: "int \<Rightarrow> sr_arpcache \<Rightarrow> sr_arpcache" where
  "arp_expire curtime cache =
     cache\<lparr>entries := map (\<lambda>e. if ent_valid e \<and> SR_ARPCACHE_TO < curtime - ent_added e
                              then e\<lparr>ent_valid := False\<rparr> else e) (entries cache)\<rparr>"

section \<open>Invariant\<close>

text \<open>
  The array keeps its size and every hardware address has six bytes; a request is identified by its
  IP address and by its own address, and every queued packet buffer has its recorded length (which is
  such that a frame around it still has a length below \<open>2 ^ 31\<close>).
\<close>

definition pkt_ok :: "sr_packet \<Rightarrow> bool" where
  "pkt_ok p \<longleftrightarrow> length (pkt_buf p) = unat (pkt_len p) \<and> pkt_len p \<noteq> 0 \<and> unat (pkt_len p) + 14 < 2 ^ 31"

definition req_ok :: "nat \<Rightarrow> sr_arpreq \<Rightarrow> bool" where
  "req_ok brk r \<longleftrightarrow> req_addr r < brk \<and> req_packets r \<noteq> [] \<and> list_all pkt_ok (req_packets r)"

definition arp_inv :: "sr_arpcache \<Rightarrow> bool" where
  "arp_inv cache \<longleftrightarrow>
     length (entries cache) = SR_ARPCACHE_SZ \<and>
     list_all (\<lambda>e. length (ent_mac e) = 6) (entries cache) \<and>
     distinct (map req_ip (requests cache)) \<and>
     distinct (map req_addr (requests cache)) \<and>
     list_all (req_ok (arp_brk cache)) (requests cache)"

lemma arp_inv_init: "arp_inv (sr_arpcache_init cache)"
  by (simp add: arp_inv_def sr_arpcache_init_def zero_arpentry_def list_all_iff)

lemma arp_inv_expire: "arp_inv cache \<Longrightarrow> arp_inv (arp_expire now cache)"
  by (auto simp: arp_inv_def arp_expire_def list_all_iff)

lemma list_all_remove_first: "list_all P xs \<Longrightarrow> list_all P (remove_first Q xs)"
  using set_remove_first_subset [of Q xs] by (auto simp: list_all_iff)

lemma list_all_update_first:
  "list_all P xs \<Longrightarrow> (\<And>x. x \<in> set xs \<Longrightarrow> Q x \<Longrightarrow> P x \<Longrightarrow> P (f x)) \<Longrightarrow> list_all P (update_first Q f xs)"
  using set_update_first_subset [of Q f xs] by (fastforce simp: list_all_iff)

lemma arp_inv_destroy: "arp_inv cache \<Longrightarrow> arp_inv (sr_arpreq_destroy cache a)"
  by (auto simp: arp_inv_def sr_arpreq_destroy_def distinct_map_remove_first
      intro: list_all_remove_first)

lemma arp_inv_insert:
  "arp_inv cache \<Longrightarrow> sr_arpcache_insert now cache mac ip = Some (req, cache') \<Longrightarrow> arp_inv cache'"
  by (auto simp: arp_inv_def sr_arpcache_insert_def rd_bytes_def Let_def
      distinct_map_remove_first split: if_splits
      intro!: list_all_remove_first list_all_update_first)

lemma arp_inv_insert_req:
  assumes "arp_inv cache" "sr_arpcache_insert now cache mac ip = Some (Some req, cache')"
  shows "req \<in> set (requests cache)" "req_ip req = ip" "list_all pkt_ok (req_packets req)"
    "requests cache' = filter (\<lambda>r. req_ip r \<noteq> ip) (requests cache)"
proof -
  have f: "find (\<lambda>r. req_ip r = ip) (requests cache) = Some req"
    and r: "requests cache' = remove_first (\<lambda>r. req_ip r = ip) (requests cache)"
    using assms(2) by (auto simp: sr_arpcache_insert_def Let_def Option.bind_eq_Some_conv split: if_splits)
  show "req \<in> set (requests cache)" "req_ip req = ip" using f by (auto simp: find_Some_iff)
  then show "list_all pkt_ok (req_packets req)" using assms(1) by (auto simp: arp_inv_def req_ok_def list_all_iff)
  show "requests cache' = filter (\<lambda>r. req_ip r \<noteq> ip) (requests cache)"
    using assms(1) by (simp add: r arp_inv_def remove_first_eq_filter)
qed

definition new_req :: "sr_arpcache \<Rightarrow> u32 \<Rightarrow> sr_arpreq" where
  "new_req cache ip = \<lparr>req_addr = arp_brk cache, req_ip = ip, req_sent = 0, req_times_sent = 0,
     req_packets = []\<rparr>"

definition queued_packet :: "buf \<Rightarrow> u32 \<Rightarrow> string \<Rightarrow> string \<Rightarrow> sr_packet" where
  "queued_packet packet packet_len iface sender =
     \<lparr>pkt_buf = take (unat packet_len) packet, pkt_len = packet_len,
      pkt_iface = take 32 iface, pkt_sender = take 32 sender\<rparr>"

text \<open>
  Queueing a packet, when it is well-formed: the request for the address is at the front of the list
  if it is new and where it was otherwise, and the packet is the first of its packets.
\<close>

lemma queuereq_cases:
  assumes inv: "arp_inv cache" and len: "packet_len \<noteq> 0" "unat packet_len \<le> length packet"
    and p: "p = queued_packet packet packet_len iface sender"
  shows "sr_arpcache_queuereq cache ip packet packet_len iface sender =
    (if \<exists>r \<in> set (requests cache). req_ip r = ip
     then Some (req_addr (the (find (\<lambda>r. req_ip r = ip) (requests cache))),
            cache\<lparr>requests := update_first (\<lambda>r. req_ip r = ip)
              (\<lambda>r. r\<lparr>req_packets := p # req_packets r\<rparr>) (requests cache)\<rparr>)
     else Some (arp_brk cache,
            cache\<lparr>requests := (new_req cache ip)\<lparr>req_packets := [p]\<rparr> # requests cache,
                  arp_brk := Suc (arp_brk cache)\<rparr>))"
proof (cases "find (\<lambda>r. req_ip r = ip) (requests cache)")
  case None
  then have "\<not> (\<exists>r \<in> set (requests cache). req_ip r = ip)" by (auto simp: find_None_iff)
  then show ?thesis
    using None len by (simp add: sr_arpcache_queuereq_def Let_def mem p queued_packet_def new_req_def strncpy_def)
next
  case (Some r)
  then have r: "r \<in> set (requests cache)" "req_ip r = ip" by (auto simp: find_Some_iff)
  have same: "update_first (\<lambda>x. req_addr x = req_addr r) f (requests cache) =
      update_first (\<lambda>x. req_ip x = ip) f (requests cache)" for f
  proof (rule update_first_cong)
    fix x assume x: "x \<in> set (requests cache)"
    show "req_addr x = req_addr r \<longleftrightarrow> req_ip x = ip"
      using inv r x by (auto simp: arp_inv_def dest: inj_onD [OF distinct_map [THEN iffD1, THEN conjunct2]])
  qed
  show ?thesis
    using r Some len by (auto simp: sr_arpcache_queuereq_def Let_def mem p queued_packet_def strncpy_def same)
qed

lemma arp_inv_queuereq:
  assumes "arp_inv cache" "packet_len \<noteq> 0 \<and> unat packet_len + 14 < 2 ^ 31"
    and "sr_arpcache_queuereq cache ip packet packet_len iface sender = Some (a, cache')"
  shows "arp_inv cache'"
proof -
  have len: "unat packet_len \<le> length packet"
    using assms(2,3) by (auto simp: sr_arpcache_queuereq_def Let_def rd_bytes_def split: option.splits if_splits)
  have nz: "packet_len \<noteq> 0" using assms(2) by simp
  let ?p = "queued_packet packet packet_len iface sender"
  have p: "pkt_ok ?p" using assms(2) len by (simp add: pkt_ok_def queued_packet_def)
  note inv = assms(1) [unfolded arp_inv_def]
  show ?thesis
  proof (cases "\<exists>r \<in> set (requests cache). req_ip r = ip")
    case True
    then have c: "cache' = cache\<lparr>requests := update_first (\<lambda>r. req_ip r = ip)
        (\<lambda>r. r\<lparr>req_packets := ?p # req_packets r\<rparr>) (requests cache)\<rparr>"
      using assms(3) unfolding queuereq_cases [OF assms(1) nz len refl] by simp
    show ?thesis
      using inv p unfolding c arp_inv_def
      by (auto simp: map_update_first req_ok_def intro!: list_all_update_first)
  next
    case False
    then have c: "cache' = cache\<lparr>requests := (new_req cache ip)\<lparr>req_packets := [?p]\<rparr> # requests cache,
        arp_brk := Suc (arp_brk cache)\<rparr>"
      using assms(3) unfolding queuereq_cases [OF assms(1) nz len refl] by auto
    have "list_all (req_ok (Suc (arp_brk cache))) (requests cache)"
      using inv by (auto simp: req_ok_def list_all_iff intro: less_SucI)
    with inv p False show ?thesis
      unfolding c arp_inv_def by (auto simp: new_req_def req_ok_def list_all_iff)
  qed
qed

section \<open>Lookup\<close>

definition ent_for :: "u32 \<Rightarrow> sr_arpentry \<Rightarrow> bool" where
  "ent_for ip e \<longleftrightarrow> ent_valid e \<and> ent_ip e = ip"

lemma arp_scan_find: "arp_scan es ip acc = (case find (ent_for ip) (rev es) of None \<Rightarrow> acc | Some e \<Rightarrow> Some e)"
proof (induction es arbitrary: acc)
  case (Cons e es)
  then show ?case by (auto simp: ent_for_def find_append split: option.splits)
qed simp

lemma sr_arpcache_lookup_find:
  "sr_arpcache_lookup cache ip = find (ent_for ip) (rev (entries cache))"
  by (simp add: sr_arpcache_lookup_def arp_scan_find split: option.split)

lemma sr_arpcache_lookup_mac:
  "arp_inv cache \<Longrightarrow> sr_arpcache_lookup cache ip = Some e \<Longrightarrow>
     length (ent_mac e) = 6 \<and> ent_valid e \<and> ent_ip e = ip"
  by (auto simp: sr_arpcache_lookup_find ent_for_def arp_inv_def list_all_iff dest!: find_SomeD)

text \<open>
  An insertion splits the array at the first slot that is not valid: what lies after it still wins a
  later lookup of the same address.
\<close>

definition arp_new :: "int \<Rightarrow> buf \<Rightarrow> u32 \<Rightarrow> sr_arpentry" where
  "arp_new now mac ip = \<lparr>ent_mac = mac, ent_ip = ip, ent_added = now, ent_valid = True\<rparr>"

lemma update_first_at:
  "list_all (\<lambda>x. \<not> P x) pre \<Longrightarrow> P s \<Longrightarrow> update_first P f (pre @ s # post) = pre @ f s # post"
  by (induction pre) auto

lemma insert_entries:
  assumes "length mac = 6" "entries cache = pre @ s # post" "list_all ent_valid pre" "\<not> ent_valid s"
  shows "\<exists>req cache'. sr_arpcache_insert now cache mac ip = Some (req, cache') \<and>
    entries cache' = pre @ arp_new now mac ip # post"
  using assms
  by (auto simp: sr_arpcache_insert_def Let_def mem update_first_at arp_new_def list_all_iff)

lemma lookup_after_insert:
  assumes "length mac = 6" "entries cache = pre @ s # post" "list_all ent_valid pre" "\<not> ent_valid s"
    and "sr_arpcache_insert now cache mac ip = Some (req, cache')"
  shows "sr_arpcache_lookup cache' ip' =
    (if ip' = ip
     then (case find (ent_for ip) (rev post) of Some old \<Rightarrow> Some old | None \<Rightarrow> Some (arp_new now mac ip))
     else sr_arpcache_lookup cache ip')"
proof -
  have "entries cache' = pre @ arp_new now mac ip # post"
    using insert_entries [OF assms(1-4), of now ip] assms(5) by auto
  then show ?thesis
    using assms(2,4)
    by (auto simp: sr_arpcache_lookup_find find_append ent_for_def arp_new_def split: option.split)
qed

lemma insert_when_full:
  assumes "list_all ent_valid (entries cache)"
  shows "sr_arpcache_insert now cache mac ip =
    Some (find (\<lambda>req. req_ip req = ip) (requests cache),
          cache\<lparr>requests := remove_first (\<lambda>req. req_ip req = ip) (requests cache)\<rparr>)"
  using assms by (simp add: sr_arpcache_insert_def Let_def)

section \<open>The resolver interface\<close>

text \<open>
  What the router relies on when it resolves a next hop: an address that was unknown resolves to the
  hardware address just inserted if there was room, other addresses are not disturbed, and an entry
  goes away by expiry only.
\<close>

locale arp_resolver =
  fixes resolve :: "'c \<Rightarrow> u32 \<Rightarrow> buf option"
    and learn :: "'c \<Rightarrow> buf \<Rightarrow> u32 \<Rightarrow> 'c"
    and room :: "'c \<Rightarrow> bool"
  assumes learn_new: "length mac = 6 \<Longrightarrow> room c \<Longrightarrow> resolve c ip = None \<Longrightarrow>
      resolve (learn c mac ip) ip = Some mac"
    and learn_other: "length mac = 6 \<Longrightarrow> ip' \<noteq> ip \<Longrightarrow> resolve (learn c mac ip) ip' = resolve c ip'"
    and learn_known: "length mac = 6 \<Longrightarrow> resolve c ip = Some m \<Longrightarrow>
      resolve (learn c mac ip) ip = Some m \<or> resolve (learn c mac ip) ip = Some mac"
begin

lemma learn_keeps_known:
  "length mac = 6 \<Longrightarrow> resolve c ip' \<noteq> None \<Longrightarrow> resolve (learn c mac ip) ip' \<noteq> None"
  using learn_other [of mac ip' ip c] learn_known [of mac c ip] by (cases "ip' = ip") auto

lemma learn_resolves:
  "length mac = 6 \<Longrightarrow> room c \<Longrightarrow> resolve (learn c mac ip) ip \<noteq> None"
  using learn_new [of mac c ip] learn_known [of mac c ip] by (cases "resolve c ip") auto

text \<open>Learning a list of pairs: whatever was known or is in the list stays resolvable while there is room.\<close>

fun learn_all :: "'c \<Rightarrow> (buf \<times> u32) list \<Rightarrow> 'c" where
  "learn_all c [] = c"
| "learn_all c ((mac, ip) # ps) = learn_all (learn c mac ip) ps"

lemma learn_all_keeps:
  "list_all (\<lambda>p. length (fst p) = 6) ps \<Longrightarrow> resolve c ip \<noteq> None \<Longrightarrow> resolve (learn_all c ps) ip \<noteq> None"
  by (induction c ps rule: learn_all.induct) (simp_all add: learn_keeps_known del: not_None_eq)

end

lemma insert_defined:
  "length mac = 6 \<Longrightarrow> \<exists>req cache'. sr_arpcache_insert now cache mac ip = Some (req, cache')"
  by (simp add: sr_arpcache_insert_def Let_def mem)

lemma insert_requests:
  assumes "sr_arpcache_insert now cache mac ip = Some (req, cache')"
  shows "req = find (\<lambda>r. req_ip r = ip) (requests cache)"
    "requests cache' = remove_first (\<lambda>r. req_ip r = ip) (requests cache)"
    "list_all ent_valid (entries cache) \<Longrightarrow> entries cache' = entries cache"
  using assms
  by (auto simp: sr_arpcache_insert_def Let_def Option.bind_eq_Some_conv split: if_splits)

lemma insert_lookup_cases:
  assumes "length mac = 6" "sr_arpcache_insert now cache mac ip = Some (req, cache')"
  obtains (full) "list_all ent_valid (entries cache)"
      "\<And>ip'. sr_arpcache_lookup cache' ip' = sr_arpcache_lookup cache ip'"
  | (slot) pre s post where "entries cache = pre @ s # post" "list_all ent_valid pre" "\<not> ent_valid s"
      "\<And>ip'. sr_arpcache_lookup cache' ip' =
        (if ip' = ip
         then (case find (ent_for ip) (rev post) of Some old \<Rightarrow> Some old | None \<Rightarrow> Some (arp_new now mac ip))
         else sr_arpcache_lookup cache ip')"
proof (cases "list_all ent_valid (entries cache)")
  case True
  then have "entries cache' = entries cache"
    using assms(2) by (auto simp: insert_when_full)
  with True full show ?thesis by (simp add: sr_arpcache_lookup_def)
next
  case False
  then obtain pre s post where "entries cache = pre @ s # post" "\<not> ent_valid s" "\<forall>x \<in> set pre. ent_valid x"
    using split_list_first_prop [of "entries cache" "\<lambda>e. \<not> ent_valid e"] by (auto simp: list_all_iff)
  then show ?thesis
    using lookup_after_insert [OF assms(1) _ _ _ assms(2)] by (intro slot) (auto simp: list_all_iff)
qed

interpretation arp: arp_resolver
  "\<lambda>c ip. map_option ent_mac (sr_arpcache_lookup c ip)"
  "\<lambda>c mac ip. snd (the (sr_arpcache_insert now c mac ip))"
  "\<lambda>c. \<not> list_all ent_valid (entries c)" for now
proof
  fix mac :: buf and c ip ip' m
  assume mac: "length mac = 6"
  then obtain req c' where i: "sr_arpcache_insert now c mac ip = Some (req, c')"
    using insert_defined by blast
  let ?r = "\<lambda>c ip. map_option ent_mac (sr_arpcache_lookup c ip)"
    and ?l = "\<lambda>c mac ip. snd (the (sr_arpcache_insert now c mac ip))"
  show "ip' \<noteq> ip \<Longrightarrow> ?r (?l c mac ip) ip' = ?r c ip'"
    by (rule insert_lookup_cases [OF mac i]) (simp_all add: i)
  show "?r (?l c mac ip) ip = Some mac" if "\<not> list_all ent_valid (entries c)" "?r c ip = None"
  proof (rule insert_lookup_cases [OF mac i])
    fix pre s post
    assume s: "entries c = pre @ s # post" and l: "\<And>ip'. sr_arpcache_lookup c' ip' =
        (if ip' = ip
         then (case find (ent_for ip) (rev post) of Some old \<Rightarrow> Some old | None \<Rightarrow> Some (arp_new now mac ip))
         else sr_arpcache_lookup c ip')"
    have "find (ent_for ip) (rev post) = None"
      using that(2) s by (auto simp: sr_arpcache_lookup_find find_append split: option.splits)
    then show ?thesis by (simp add: i l arp_new_def)
  qed (use that in auto)
  show "?r (?l c mac ip) ip = Some m \<or> ?r (?l c mac ip) ip = Some mac" if "?r c ip = Some m"
  proof (rule insert_lookup_cases [OF mac i])
    fix pre s post
    assume s: "entries c = pre @ s # post" and l: "\<And>ip'. sr_arpcache_lookup c' ip' =
        (if ip' = ip
         then (case find (ent_for ip) (rev post) of Some old \<Rightarrow> Some old | None \<Rightarrow> Some (arp_new now mac ip))
         else sr_arpcache_lookup c ip')"
    have "find (ent_for ip) (rev post) = Some old \<Longrightarrow> sr_arpcache_lookup c ip = Some old" for old
      by (simp add: s sr_arpcache_lookup_find find_append)
    with that show ?thesis
      by (cases "find (ent_for ip) (rev post)") (auto simp: i l arp_new_def)
  qed (use that in \<open>auto simp: i\<close>)
qed

lemma insert_lookup:
  assumes "length mac = 6" "sr_arpcache_insert now cache mac ip = Some (req, cache')"
  shows "ip' \<noteq> ip \<Longrightarrow>
      map_option ent_mac (sr_arpcache_lookup cache' ip') = map_option ent_mac (sr_arpcache_lookup cache ip')"
    "\<not> list_all ent_valid (entries cache) \<Longrightarrow> sr_arpcache_lookup cache ip = None \<Longrightarrow>
      map_option ent_mac (sr_arpcache_lookup cache' ip) = Some mac"
  using arp.learn_other [OF assms(1), of ip' ip now cache] arp.learn_new [OF assms(1), of cache ip now] assms(2)
  by simp_all

section \<open>Expiry\<close>

lemma lookup_after_expire:
  "sr_arpcache_lookup (arp_expire now cache) ip = Some e \<Longrightarrow> now - ent_added e \<le> 15"
  by (auto simp: sr_arpcache_lookup_find arp_expire_def find_Some_iff ent_for_def rev_map split: if_splits)

lemma expire_keeps_young:
  assumes "sr_arpcache_lookup cache ip = Some e" "now - ent_added e \<le> 15"
  shows "sr_arpcache_lookup (arp_expire now cache) ip = Some e"
proof -
  let ?f = "\<lambda>e. if ent_valid e \<and> 15 < now - ent_added e then e\<lparr>ent_valid := False\<rparr> else e"
  have "find (ent_for ip) es = Some e \<Longrightarrow> find (ent_for ip) (map ?f es) = Some e" for es
  proof (induction es)
    case (Cons x xs)
    then show ?case using assms(2) by (auto simp: ent_for_def split: if_splits)
  qed simp
  with assms(1) show ?thesis
    by (simp add: sr_arpcache_lookup_find arp_expire_def rev_map)
qed

end
