(* ===== verification/SR_NatIds.thy ===== *)
theory SR_NatIds
  imports SR_Protocol
begin

text \<open>
  The pool of external ports and ICMP identifiers of \<open>sr_nat.c\<close>: a bitmap of 65536 bits in 2048
  \<open>int\<close>s, of which \<open>find_next_id\<close> hands out the first clear bit from 1024 on and \<open>ClearBit\<close>
  takes one back.
\<close>

abbreviation (input) DEFAULT_ID :: nat where "DEFAULT_ID \<equiv> 1024"
abbreviation (input) TOTAL_PORTS :: nat where "TOTAL_PORTS \<equiv> 65536"

section \<open>Operations\<close>

text \<open>
  The inner loop of \<open>find_next_id\<close> over the bits of one \<open>int\<close> of the bitmap (\<open>num >> 1\<close> on an
  \<open>int\<close> is an arithmetic shift), and the outer loop over its words.
\<close>

function find_bit :: "u32 \<Rightarrow> nat \<Rightarrow> nat option" where
  "find_bit num j =
     (if j < 32
      then if num AND 0x01 = 0 then Some j else find_bit (signed_drop_bit 1 num) (Suc j)
      else None)"
  by pat_completeness auto
termination by (relation "measure (\<lambda>(num, j). 32 - j)") auto

function find_word :: "u32 list \<Rightarrow> nat \<Rightarrow> (nat \<times> nat) option" where
  "find_word bm i =
     (if i < TOTAL_PORTS div 32
      then (case find_bit (bm ! i) 0 of Some j \<Rightarrow> Some (i, j) | None \<Rightarrow> find_word bm (Suc i))
      else None)"
  by pat_completeness auto
termination by (relation "measure (\<lambda>(bm, i). TOTAL_PORTS div 32 - i)") auto

declare find_bit.simps [simp del] find_word.simps [simp del]

definition claim_id :: "u32 list \<Rightarrow> (nat \<times> u32 list) option" where
  "claim_id bm =
     (case find_word bm (DEFAULT_ID div 32) of
        None \<Rightarrow> None
      | Some (i, j) \<Rightarrow>
          let res = i * 32 + j
          in Some (res, bm[i := bm ! i OR push_bit (res mod 32) 1]))"

definition ClearBit :: "u32 list \<Rightarrow> nat \<Rightarrow> u32 list" where
  "ClearBit bm k = bm[k div 32 := bm ! (k div 32) AND NOT (push_bit (k mod 32) 1)]"

section \<open>The bitmap as a set of identifiers\<close>

definition used :: "u32 list \<Rightarrow> nat \<Rightarrow> bool" where
  "used bm k = bit (bm ! (k div 32)) (k mod 32)"

lemma find_bit_spec:
  assumes "j \<le> 32" "\<And>i. i + j < 32 \<Longrightarrow> bit num i = bit w (i + j)"
  shows "(\<exists>k. find_bit num j = Some k \<and> j \<le> k \<and> k < 32 \<and> \<not> bit w k \<and> (\<forall>i \<in> {j..<k}. bit w i)) \<or>
    (find_bit num j = None \<and> (\<forall>i \<in> {j..<32}. bit w i))"
  using assms
proof (induction num j rule: find_bit.induct)
  case (1 num j)
  have low: "(num AND 1 = 0) = (\<not> bit num 0)"
    by (simp add: bit_0 and_one_eq even_iff_mod_2_eq_zero)
  consider "j = 32" | "j < 32" "\<not> bit num 0" | "j < 32" "bit num 0"
    using "1.prems"(1) by fastforce
  then show ?case
  proof cases
    case 1
    then show ?thesis by (subst (1 2) find_bit.simps) simp
  next
    case 2
    then have "find_bit num j = Some j" by (subst find_bit.simps) (simp add: low)
    then show ?thesis using 2 "1.prems"(2) [of 0] by simp
  next
    case 3
    have shifted: "bit (signed_drop_bit 1 num) i = bit w (i + Suc j)" if "i + Suc j < 32" for i
      using that "1.prems"(2) [of "Suc i"] by (simp add: bit_signed_drop_bit_iff)
    have step: "find_bit num j = find_bit (signed_drop_bit 1 num) (Suc j)"
      using 3 by (subst find_bit.simps) (simp add: low)
    have here: "bit w j" using 3 "1.prems"(2) [of 0] by simp
    have ins: "{j..<k} = insert j {Suc j..<k}" if "Suc j \<le> k" for k using that by auto
    have "num AND 1 \<noteq> 0" "Suc j \<le> 32" using 3 low by auto
    from "1.IH" [OF 3(1) this shifted] show ?thesis
    proof
      assume "\<exists>k. find_bit (signed_drop_bit 1 num) (Suc j) = Some k \<and> Suc j \<le> k \<and> k < 32 \<and>
        \<not> bit w k \<and> (\<forall>i \<in> {Suc j..<k}. bit w i)"
      then obtain k where "find_bit num j = Some k" "Suc j \<le> k" "k < 32" "\<not> bit w k"
        "\<forall>i \<in> {Suc j..<k}. bit w i" unfolding step by blast
      then show ?thesis using here ins [of k] by auto
    next
      assume "find_bit (signed_drop_bit 1 num) (Suc j) = None \<and> (\<forall>i \<in> {Suc j..<32}. bit w i)"
      then show ?thesis unfolding step using here ins [of 32] 3(1) by auto
    qed
  qed
qed

lemma find_bit_Some:
  "find_bit w 0 = Some k \<Longrightarrow> k < 32 \<and> \<not> bit w k \<and> (\<forall>i < k. bit w i)"
  using find_bit_spec [of 0 w w] by auto

lemma find_bit_None: "find_bit w 0 = None \<Longrightarrow> i < 32 \<Longrightarrow> bit w i"
  using find_bit_spec [of 0 w w] by auto

lemma find_word_Some:
  "find_word bm i = Some (i', j) \<Longrightarrow>
     i \<le> i' \<and> i' < 2048 \<and> find_bit (bm ! i') 0 = Some j \<and> (\<forall>n \<in> {i..<i'}. find_bit (bm ! n) 0 = None)"
proof (induction bm i rule: find_word.induct)
  case (1 bm i)
  have i: "i < 2048"
    using "1.prems" by (subst (asm) find_word.simps) (simp split: if_splits)
  show ?case
  proof (cases "find_bit (bm ! i) 0")
    case (Some k)
    then have "find_word bm i = Some (i, k)" using i by (subst find_word.simps) simp
    with Some i "1.prems" show ?thesis by simp
  next
    case None
    then have "find_word bm i = find_word bm (Suc i)" using i by (subst find_word.simps) simp
    with "1.prems" "1.IH" None i
    have ih: "Suc i \<le> i'" "i' < 2048" "find_bit (bm ! i') 0 = Some j"
      "\<forall>n \<in> {Suc i..<i'}. find_bit (bm ! n) 0 = None" by simp_all
    have "{i..<i'} = insert i {Suc i..<i'}" using ih(1) by auto
    with ih None show ?thesis by simp
  qed
qed

lemma find_word_None:
  "find_word bm i = None \<Longrightarrow> i \<le> n \<Longrightarrow> n < 2048 \<Longrightarrow> find_bit (bm ! n) 0 = None"
proof (induction bm i rule: find_word.induct)
  case (1 bm i)
  then have i: "i < 2048" by simp
  with "1.prems" have none: "find_bit (bm ! i) 0 = None"
    by (subst (asm) find_word.simps) (simp split: option.splits)
  have "find_word bm (Suc i) = None"
    using "1.prems"(1) i none by (subst (asm) find_word.simps) simp
  with "1.IH" [OF _ none] "1.prems" i none show ?case by (cases "n = i") simp_all
qed

lemma word_index: "k < 65536 \<Longrightarrow> k div 32 < 2048" for k :: nat
  by (simp add: less_mult_imp_div_less)

lemma index_parts: "l < 32 \<Longrightarrow> (n * 32 + l) div 32 = n \<and> (n * 32 + l) mod 32 = l" for n l :: nat
  by simp

lemma same_index: "k div 32 = r div 32 \<Longrightarrow> k mod 32 = r mod 32 \<longleftrightarrow> k = r" for k r :: nat
  by (metis div_mult_mod_eq)

lemma bit_single: "bit (2 ^ n :: u32) k \<longleftrightarrow> k = n" if "n < 32"
  using that by (auto simp: bit_exp_iff)

lemma used_set_bit:
  assumes "length bm = 2048" "r < 65536"
  shows "used (bm[r div 32 := bm ! (r div 32) OR push_bit (r mod 32) 1]) k \<longleftrightarrow> k = r \<or> used bm k"
  using assms word_index [OF assms(2)] same_index [of k r]
  by (cases "k div 32 = r div 32") (auto simp: used_def bit_or_iff bit_single)

lemma ClearBit_used:
  assumes "length bm = 2048" "r < 65536"
  shows "used (ClearBit bm r) k \<longleftrightarrow> k \<noteq> r \<and> used bm k"
  using assms word_index [OF assms(2)] same_index [of k r]
  by (cases "k div 32 = r div 32")
    (auto simp: used_def ClearBit_def bit_and_iff bit_not_iff bit_single)

lemma claim_id_Some:
  assumes "length bm = 2048" "claim_id bm = Some (r, bm')"
  shows "1024 \<le> r" "r < 65536" "\<not> used bm r" "\<And>k. 1024 \<le> k \<Longrightarrow> k < r \<Longrightarrow> used bm k"
    "length bm' = 2048" "used bm' k \<longleftrightarrow> k = r \<or> used bm k"
proof -
  obtain i j where w: "find_word bm 32 = Some (i, j)" and r: "r = i * 32 + j"
    and bm': "bm' = bm[i := bm ! i OR push_bit (r mod 32) 1]"
    using assms(2) by (auto simp: claim_id_def Let_def split: option.splits)
  from find_word_Some [OF w] have i: "32 \<le> i" "i < 2048" and b: "find_bit (bm ! i) 0 = Some j"
    and before: "\<forall>n \<in> {32..<i}. find_bit (bm ! n) 0 = None" by simp_all
  from find_bit_Some [OF b] have j: "j < 32" "\<not> bit (bm ! i) j" "\<forall>l < j. bit (bm ! i) l" by simp_all
  have parts: "r div 32 = i" "r mod 32 = j" using j(1) by (simp_all add: r)
  show lo: "1024 \<le> r" and hi: "r < 65536" using i j(1) by (simp_all add: r)
  show "\<not> used bm r" using j by (simp add: used_def parts)
  show "used bm k" if k: "1024 \<le> k" "k < r" for k
  proof (cases "k div 32 = i")
    case True
    have "k mod 32 < j" using k(2) True r by (metis add_less_cancel_left div_mult_mod_eq mult.commute)
    then show ?thesis using j(3) True by (simp add: used_def)
  next
    case False
    have "k div 32 \<le> r div 32" "1024 div 32 \<le> k div 32" using k by (auto intro: div_le_mono)
    then have "k div 32 \<in> {32..<i}" using False parts by simp
    then show ?thesis using before find_bit_None [of "bm ! (k div 32)" "k mod 32"] by (simp add: used_def)
  qed
  show "length bm' = 2048" using assms(1) by (simp add: bm')
  show "used bm' k \<longleftrightarrow> k = r \<or> used bm k"
    using used_set_bit [OF assms(1) hi, of k] unfolding bm' parts .
qed

lemma claim_id_None:
  "claim_id bm = None \<longleftrightarrow> (\<forall>k \<in> {1024..<65536}. used bm k)" if "length bm = 2048"
proof
  assume "claim_id bm = None"
  then have none: "find_word bm 32 = None" by (auto simp: claim_id_def Let_def split: option.splits)
  show "\<forall>k \<in> {1024..<65536}. used bm k"
  proof
    fix k :: nat assume k: "k \<in> {1024..<65536}"
    have "1024 div 32 \<le> k div 32" using k by (intro div_le_mono) simp
    then have "find_bit (bm ! (k div 32)) 0 = None"
      using k word_index [of k] by (intro find_word_None [OF none]) simp_all
    then show "used bm k" using find_bit_None [of "bm ! (k div 32)" "k mod 32"] by (simp add: used_def)
  qed
next
  assume all: "\<forall>k \<in> {1024..<65536}. used bm k"
  show "claim_id bm = None"
  proof (cases "claim_id bm")
    case (Some rb)
    then obtain r bm' where "claim_id bm = Some (r, bm')" by (cases rb) auto
    from claim_id_Some(1-3) [OF that this] all show ?thesis by simp
  qed
qed

section \<open>The contract of an identifier pool\<close>

text \<open>
  What the NAT table relies on: an allocated identifier was free and becomes used, a released one
  becomes free, nothing else changes, and allocation fails only when every identifier is in use.
\<close>

locale id_pool =
  fixes inv :: "'s \<Rightarrow> bool" and in_use :: "'s \<Rightarrow> nat \<Rightarrow> bool"
    and alloc :: "'s \<Rightarrow> (nat \<times> 's) option" and free :: "'s \<Rightarrow> nat \<Rightarrow> 's" and ids :: "nat set"
  assumes finite_ids: "finite ids"
    and alloc_inv: "inv s \<Longrightarrow> alloc s = Some (r, s') \<Longrightarrow> inv s'"
    and alloc_fresh: "inv s \<Longrightarrow> alloc s = Some (r, s') \<Longrightarrow> r \<in> ids \<and> \<not> in_use s r"
    and alloc_in_use: "inv s \<Longrightarrow> alloc s = Some (r, s') \<Longrightarrow> in_use s' k \<longleftrightarrow> k = r \<or> in_use s k"
    and alloc_None: "inv s \<Longrightarrow> alloc s = None \<longleftrightarrow> (\<forall>k \<in> ids. in_use s k)"
    and free_inv: "inv s \<Longrightarrow> inv (free s r)"
    and free_in_use: "inv s \<Longrightarrow> r \<in> ids \<Longrightarrow> in_use (free s r) k \<longleftrightarrow> k \<noteq> r \<and> in_use s k"
begin

text \<open>The identifiers in use are exactly those of a list of holders, each held once.\<close>

definition tracks :: "'s \<Rightarrow> nat list \<Rightarrow> bool" where
  "tracks s holders \<longleftrightarrow>
     inv s \<and> distinct holders \<and> set holders \<subseteq> ids \<and> (\<forall>k \<in> ids. in_use s k \<longleftrightarrow> k \<in> set holders)"

lemma tracks_alloc:
  "tracks s holders \<Longrightarrow> alloc s = Some (r, s') \<Longrightarrow> tracks s' (r # holders)"
  using alloc_inv alloc_fresh alloc_in_use by (fastforce simp: tracks_def)

lemma tracks_free:
  "tracks s (xs @ r # ys) \<Longrightarrow> tracks (free s r) (xs @ ys)"
  using free_inv free_in_use by (auto simp: tracks_def)

lemma tracks_total:
  assumes "tracks s holders" "length holders < card ids"
  shows "\<exists>r s'. alloc s = Some (r, s')"
proof (rule ccontr)
  assume "\<not> ?thesis"
  then have "alloc s = None" by (cases "alloc s") auto
  then have "ids \<subseteq> set holders"
    using assms(1) alloc_None by (auto simp: tracks_def)
  then have "card ids \<le> length holders"
    using card_mono [of "set holders" ids] card_length [of holders] by simp
  with assms(2) show False by simp
qed

lemma tracks_exhausted: "tracks s holders \<Longrightarrow> alloc s = None \<longleftrightarrow> set holders = ids"
  using alloc_None by (auto simp: tracks_def)

lemma tracks_perm: "tracks s xs \<Longrightarrow> distinct ys \<Longrightarrow> set ys = set xs \<Longrightarrow> tracks s ys"
  by (simp add: tracks_def)

end

interpretation pool: id_pool "\<lambda>bm. length bm = 2048" used claim_id ClearBit "{1024..<65536}"
proof
  show "length bm = 2048 \<Longrightarrow> length (ClearBit bm r) = 2048" for bm r by (simp add: ClearBit_def)
  show "length bm = 2048 \<Longrightarrow> r \<in> {1024..<65536} \<Longrightarrow> used (ClearBit bm r) k \<longleftrightarrow> k \<noteq> r \<and> used bm k"
    for bm r k by (simp add: ClearBit_used)
  show "length bm = 2048 \<Longrightarrow> claim_id bm = None \<longleftrightarrow> (\<forall>k \<in> {1024..<65536}. used bm k)" for bm
    by (rule claim_id_None)
  fix bm r bm' assume c: "length bm = 2048" "claim_id bm = Some (r, bm')"
  show "length bm' = 2048" "r \<in> {1024..<65536} \<and> \<not> used bm r"
    and "used bm' k \<longleftrightarrow> k = r \<or> used bm k" for k
    using claim_id_Some [OF c] by simp_all
qed simp

lemma tracks_empty: "pool.tracks (replicate 2048 0) []"
  by (auto simp: pool.tracks_def used_def word_index)

end
