(* ===== verification/SR_Nat.thy ===== *)
theory SR_Nat
  imports SR_NatIds
begin

text \<open>
  \<open>sr_nat.c\<close>, the operations on the NAT table (the bitmap of external identifiers is theory
  \<open>SR_NatIds\<close>): the mappings with
  their TCP connections, the list of unsolicited inbound packets, the connection state machine and
  expiry.  Linked lists are lists in link order.

  Lookups return a \<open>memcpy\<close> of a mapping whose \<open>conns\<close> pointer still leads to the connection nodes
  of the table, and the code later updates a connection through such a copy.  A connection therefore
  carries the address \<open>calloc\<close> returned for it (from the counter \<open>nat_brk\<close>, never reused); an access
  through a copy finds the live node by its address and has no behaviour when that node was freed.
  \<open>unsol_pkt\<close> is \<open>None\<close> when the head pointer does not point to a live node (it was never
  initialised, or the node was freed).
\<close>

section \<open>Data\<close>

abbreviation (input) DEFAULT_ICMP_QUERY_TO :: u32 where "DEFAULT_ICMP_QUERY_TO \<equiv> 60"
abbreviation (input) DEFAULT_TCP_ESTABLISHED_TO :: u32 where "DEFAULT_TCP_ESTABLISHED_TO \<equiv> 7440"
abbreviation (input) DEFAULT_TCP_TRANSITORY_TO :: u32 where "DEFAULT_TCP_TRANSITORY_TO \<equiv> 300"
abbreviation (input) DEFAULT_TCP_SYN_TO :: int where "DEFAULT_TCP_SYN_TO \<equiv> 6"

datatype sr_nat_mapping_type = nat_mapping_icmp | nat_mapping_tcp

datatype sr_tcp_state_type =
  CLOSED | LISTEN | SYN_SENT | SYN_RCVD | ESTAB | FIN_WAIT_1 | FIN_WAIT_2 | CLOSING | TIME_WAIT
| CLOST_WAIT | LAST_ACK

record sr_nat_unsol_pkt =
  un_ip_packet :: buf
  un_last_updated :: int

record sr_nat_connection =
  conn_addr :: nat
  conn_state :: sr_tcp_state_type
  peer_ip :: u32
  peer_port :: u16
  conn_last_updated :: int

record sr_nat_mapping =
  map_type :: sr_nat_mapping_type
  ip_int :: u32
  ip_ext :: u32
  aux_int :: u16
  aux_ext :: u16
  map_last_updated :: int
  conns :: "sr_nat_connection list"

record sr_nat =
  mappings :: "sr_nat_mapping list"
  icmp_query_to :: u32
  tcp_estab_idle_to :: u32
  tcp_transitory_to :: u32
  bitmap :: "u32 list"
  unsol_pkt :: "sr_nat_unsol_pkt list option"
  nat_brk :: nat

text \<open>\<open>sr_nat_init\<close>: the fields it assigns; \<open>unsol_pkt\<close> is not one of them.\<close>

definition sr_nat_init :: "u32 \<Rightarrow> u32 \<Rightarrow> u32 \<Rightarrow> sr_nat \<Rightarrow> sr_nat" where
  "sr_nat_init icmp_to estab_to transitory_to nt =
     nt\<lparr>mappings := [], icmp_query_to := icmp_to, tcp_estab_idle_to := estab_to,
         tcp_transitory_to := transitory_to, bitmap := replicate (TOTAL_PORTS div 32) 0\<rparr>"

section \<open>Mappings\<close>

definition find_next_id :: "sr_nat \<Rightarrow> int \<times> sr_nat" where
  "find_next_id nt =
     (case claim_id (bitmap nt) of
        None \<Rightarrow> (-1, nt)
      | Some (res, bm) \<Rightarrow> (int res, nt\<lparr>bitmap := bm\<rparr>))"

text \<open>The type argument of the two lookups is not used by their loops.\<close>

definition sr_nat_lookup_external :: "sr_nat \<Rightarrow> u16 \<Rightarrow> sr_nat_mapping_type \<Rightarrow> sr_nat_mapping option" where
  "sr_nat_lookup_external nt ext type = find (\<lambda>cur. aux_ext cur = ext) (mappings nt)"

definition sr_nat_lookup_internal ::
  "sr_nat \<Rightarrow> u32 \<Rightarrow> u16 \<Rightarrow> sr_nat_mapping_type \<Rightarrow> sr_nat_mapping option" where
  "sr_nat_lookup_internal nt ip aux type =
     find (\<lambda>cur. ip_int cur = ip \<and> aux_int cur = aux) (mappings nt)"

definition sr_nat_insert_mapping ::
  "int \<Rightarrow> sr_nat \<Rightarrow> u32 \<Rightarrow> u16 \<Rightarrow> sr_nat_mapping_type \<Rightarrow> sr_nat_mapping \<times> sr_nat" where
  "sr_nat_insert_mapping now nt ip aux type =
     (let (id, nt) = find_next_id nt;
          new_entry = \<lparr>map_type = type, ip_int = ip, ip_ext = 0, aux_int = aux,
                       aux_ext = word_of_int id, map_last_updated = now, conns = []\<rparr>
      in (new_entry, nt\<lparr>mappings := new_entry # mappings nt\<rparr>))"

section \<open>Unsolicited packets\<close>

text \<open>
  Whether two packets are the same SYN: addresses, ports and sequence number.  Both TCP headers are
  found with the header length of the first packet.
\<close>

definition eq16 :: "nat \<Rightarrow> buf \<Rightarrow> buf \<Rightarrow> bool option" where
  "eq16 off p q = do { x \<leftarrow> rd16 off p; y \<leftarrow> rd16 off q; Some (x = y) }"

definition eq32 :: "nat \<Rightarrow> buf \<Rightarrow> buf \<Rightarrow> bool option" where
  "eq32 off p q = do { x \<leftarrow> rd32 off p; y \<leftarrow> rd32 off q; Some (x = y) }"

definition and_also :: "bool option \<Rightarrow> bool option \<Rightarrow> bool option" where
  "and_also a b = do { x \<leftarrow> a; if x then b else Some False }"

definition same_syn :: "buf \<Rightarrow> buf \<Rightarrow> bool option" where
  "same_syn ip_packet temp_pkt =
     do {
       hl \<leftarrow> ip_hl ip_packet;
       let tcp = hl * 4;
       and_also (eq32 ip_src ip_packet temp_pkt)
        (and_also (eq32 ip_dst ip_packet temp_pkt)
         (and_also (eq16 (tcp + tcp_src_port) ip_packet temp_pkt)
          (and_also (eq16 (tcp + tcp_dst_port) ip_packet temp_pkt)
           (eq32 (tcp + tcp_seq_num) ip_packet temp_pkt))))
     }"

fun unsol_unlink :: "buf \<Rightarrow> sr_nat_unsol_pkt list \<Rightarrow> sr_nat_unsol_pkt list option" where
  "unsol_unlink ip_packet [] = Some []"
| "unsol_unlink ip_packet (cur # rest) =
     do {
       m \<leftarrow> same_syn ip_packet (un_ip_packet cur);
       r \<leftarrow> unsol_unlink ip_packet rest;
       Some (if m then r else cur # r)
     }"

text \<open>
  \<open>sr_nat_remove_unsolicited_packet\<close> unlinks and frees the matching nodes but never assigns
  \<open>nat->unsol_pkt\<close>, which keeps pointing to the old head.
\<close>

definition sr_nat_remove_unsolicited_packet :: "sr_nat \<Rightarrow> buf \<Rightarrow> sr_nat option" where
  "sr_nat_remove_unsolicited_packet nt ip_packet =
     do {
       hl \<leftarrow> ip_hl ip_packet;
       us \<leftarrow> unsol_pkt nt;
       case us of
         [] \<Rightarrow> Some nt
       | cur # rest \<Rightarrow> do {
           m \<leftarrow> same_syn ip_packet (un_ip_packet cur);
           r \<leftarrow> unsol_unlink ip_packet rest;
           Some (nt\<lparr>unsol_pkt := (if m then None else Some (cur # r))\<rparr>)
         }
     }"

fun unsol_member :: "buf \<Rightarrow> sr_nat_unsol_pkt list \<Rightarrow> bool option" where
  "unsol_member ip_packet [] = Some False"
| "unsol_member ip_packet (cur # rest) =
     do {
       m \<leftarrow> same_syn ip_packet (un_ip_packet cur);
       if m then Some True else unsol_member ip_packet rest
     }"

definition sr_nat_insert_unsolicited_packet :: "int \<Rightarrow> sr_nat \<Rightarrow> buf \<Rightarrow> u32 \<Rightarrow> sr_nat option" where
  "sr_nat_insert_unsolicited_packet now nt ip_packet ip_packet_len =
     do {
       hl \<leftarrow> ip_hl ip_packet;
       us \<leftarrow> unsol_pkt nt;
       found \<leftarrow> unsol_member ip_packet us;
       if found then Some nt
       else do {
         copy \<leftarrow> rd_bytes 0 (unat ip_packet_len) ip_packet;
         Some (nt\<lparr>unsol_pkt := Some (us @ [\<lparr>un_ip_packet = copy, un_last_updated = now\<rparr>])\<rparr>)
       }
     }"

section \<open>Connections\<close>

text \<open>\<open>_determine_state\<close>, its tests in the order of the code.\<close>

definition determine_state :: "sr_tcp_state_type \<Rightarrow> tcp_flags \<Rightarrow> sr_tcp_state_type" where
  "determine_state state buf =
     (if SYN buf \<and> \<not> ACK buf then SYN_SENT
      else if state = SYN_SENT \<and> SYN buf \<and> ACK buf then ESTAB
      else if state = SYN_SENT \<and> SYN buf then SYN_RCVD
      else if state = SYN_RCVD \<and> ACK buf then ESTAB
      else if state = ESTAB \<and> FIN buf then FIN_WAIT_1
      else if state = FIN_WAIT_1 \<and> FIN buf then CLOSING
      else if state = CLOSING \<and> ACK buf then CLOSED
      else if state = FIN_WAIT_1 \<and> FIN buf \<and> ACK buf then CLOSED
      else if state = FIN_WAIT_1 \<and> ACK buf then FIN_WAIT_2
      else if state = FIN_WAIT_2 \<and> FIN buf then CLOSED
      else state)"

text \<open>
  \<open>sr_nat_insert_connection\<close> prepends a connection to the peer of an outbound packet to the mapping
  with the given external port, then removes the packet from the unsolicited list.
\<close>

definition sr_nat_insert_connection ::
  "int \<Rightarrow> sr_nat \<Rightarrow> u16 \<Rightarrow> buf \<Rightarrow> sr_tcp_state_type \<Rightarrow> (sr_nat_connection option \<times> sr_nat) option" where
  "sr_nat_insert_connection now nt ext_port ip_packet state =
     (case find (\<lambda>cur. aux_ext cur = ext_port) (mappings nt) of
        None \<Rightarrow> Some (None, nt)
      | Some cur \<Rightarrow> do {
          hl \<leftarrow> ip_hl ip_packet;
          dst \<leftarrow> rd32 ip_dst ip_packet;
          port \<leftarrow> rd16 (hl * 4 + tcp_dst_port) ip_packet;
          let new_entry = \<lparr>conn_addr = nat_brk nt, conn_state = state, peer_ip = dst,
                           peer_port = port, conn_last_updated = now\<rparr>;
          let nt = nt\<lparr>mappings := update_first (\<lambda>cur. aux_ext cur = ext_port)
                           (\<lambda>cur. cur\<lparr>conns := new_entry # conns cur\<rparr>) (mappings nt),
                        nat_brk := Suc (nat_brk nt)\<rparr>;
          nt \<leftarrow> sr_nat_remove_unsolicited_packet nt ip_packet;
          Some (Some new_entry, nt)
        })"

text \<open>The live connection node at an address, and assigning fields of it.\<close>

definition all_conns :: "sr_nat \<Rightarrow> sr_nat_connection list" where
  "all_conns nt = concat (map conns (mappings nt))"

definition conn_at :: "sr_nat \<Rightarrow> nat \<Rightarrow> sr_nat_connection option" where
  "conn_at nt a = find (\<lambda>c. conn_addr c = a) (all_conns nt)"

definition conn_assign ::
  "nat \<Rightarrow> (sr_nat_connection \<Rightarrow> sr_nat_connection) \<Rightarrow> sr_nat \<Rightarrow> sr_nat" where
  "conn_assign a f nt =
     nt\<lparr>mappings := map (\<lambda>m. m\<lparr>conns := map (\<lambda>c. if conn_addr c = a then f c else c) (conns m)\<rparr>)
                       (mappings nt)\<rparr>"

text \<open>
  The test of the loop in \<open>sr_nat_update_connection\<close>: the connection's peer is the source of an
  inbound packet (\<open>direction\<close> 1) or the destination of an outbound one (\<open>direction\<close> 0).
\<close>

definition conn_matches :: "int \<Rightarrow> buf \<Rightarrow> nat \<Rightarrow> sr_nat_connection \<Rightarrow> bool option" where
  "conn_matches direction ip_packet tcp cur =
     (if direction = 1 then
        and_also (do { ip \<leftarrow> rd32 ip_src ip_packet; Some (peer_ip cur = ip) })
          (do { port \<leftarrow> rd16 (tcp + tcp_src_port) ip_packet; Some (peer_port cur = port) })
      else if direction = 0 then
        and_also (do { ip \<leftarrow> rd32 ip_dst ip_packet; Some (peer_ip cur = ip) })
          (do { port \<leftarrow> rd16 (tcp + tcp_dst_port) ip_packet; Some (peer_port cur = port) })
      else Some False)"

fun find_conn ::
  "sr_nat \<Rightarrow> int \<Rightarrow> buf \<Rightarrow> nat \<Rightarrow> sr_nat_connection list \<Rightarrow> sr_nat_connection option option" where
  "find_conn nt direction ip_packet tcp [] = Some None"
| "find_conn nt direction ip_packet tcp (c # cs) =
     do {
       cur \<leftarrow> conn_at nt (conn_addr c);
       m \<leftarrow> conn_matches direction ip_packet tcp cur;
       if m then Some (Some cur) else find_conn nt direction ip_packet tcp cs
     }"

definition sr_nat_update_connection ::
  "int \<Rightarrow> sr_nat \<Rightarrow> sr_nat_mapping \<Rightarrow> buf \<Rightarrow> u32 \<Rightarrow> int \<Rightarrow>
   (sr_nat_connection option \<times> sr_nat) option" where
  "sr_nat_update_connection now nt mapping ip_packet ip_packet_len direction =
     do {
       hl \<leftarrow> ip_hl ip_packet;
       let tcp = hl * 4;
       found \<leftarrow> find_conn nt direction ip_packet tcp (conns mapping);
       case found of
         Some cur \<Rightarrow> do {
           flags \<leftarrow> tcp_flags_at tcp ip_packet;
           let cur' = cur\<lparr>conn_state := determine_state (conn_state cur) flags,
                          conn_last_updated := now\<rparr>;
           Some (Some cur', conn_assign (conn_addr cur) (\<lambda>_. cur') nt)
         }
       | None \<Rightarrow> do {
           nt \<leftarrow> sr_nat_insert_unsolicited_packet now nt ip_packet ip_packet_len;
           Some (None, nt)
         }
     }"

section \<open>Expiry\<close>

text \<open>The loops of \<open>sr_nat_timeout\<close> over the connections of a mapping and over the mappings.\<close>

fun expire_conns :: "int \<Rightarrow> sr_nat \<Rightarrow> sr_nat_connection list \<Rightarrow> sr_nat_connection list" where
  "expire_conns curtime nt [] = []"
| "expire_conns curtime nt (cur # rest) =
     (if conn_state cur = ESTAB \<and> uint (tcp_estab_idle_to nt) < curtime - conn_last_updated cur
      then expire_conns curtime nt rest
      else if conn_state cur = CLOSED then expire_conns curtime nt rest
      else if uint (tcp_transitory_to nt) < curtime - conn_last_updated cur
      then expire_conns curtime nt rest
      else cur # expire_conns curtime nt rest)"

fun expire_mappings ::
  "int \<Rightarrow> sr_nat \<Rightarrow> u32 list \<Rightarrow> sr_nat_mapping list \<Rightarrow> sr_nat_mapping list \<times> u32 list" where
  "expire_mappings curtime nt bm [] = ([], bm)"
| "expire_mappings curtime nt bm (cur # rest) =
     (case map_type cur of
        nat_mapping_icmp \<Rightarrow>
          if uint (icmp_query_to nt) < curtime - map_last_updated cur
          then expire_mappings curtime nt (ClearBit bm (unat (aux_ext cur))) rest
          else let (ms, bm') = expire_mappings curtime nt bm rest in (cur # ms, bm')
      | nat_mapping_tcp \<Rightarrow>
          let cs = expire_conns curtime nt (conns cur)
          in if cs = []
             then expire_mappings curtime nt (ClearBit bm (unat (aux_ext cur))) rest
             else let (ms, bm') = expire_mappings curtime nt bm rest
                  in (cur\<lparr>conns := cs\<rparr> # ms, bm'))"

definition nat_expire :: "int \<Rightarrow> sr_nat \<Rightarrow> sr_nat" where
  "nat_expire curtime nt =
     (let (ms, bm) = expire_mappings curtime nt (bitmap nt) (mappings nt)
      in nt\<lparr>mappings := ms, bitmap := bm\<rparr>)"

section \<open>Invariant\<close>

text \<open>
  The identifiers marked in the bitmap are exactly the external ports and identifiers of the
  mappings, each used once; an internal address and port has one mapping; connection nodes are
  distinct; and an ICMP mapping has no connections.
\<close>

definition ext_id :: "sr_nat_mapping \<Rightarrow> nat" where
  "ext_id m = unat (aux_ext m)"

definition int_key :: "sr_nat_mapping \<Rightarrow> u32 \<times> u16" where
  "int_key m = (ip_int m, aux_int m)"

definition conns_inv :: "sr_nat \<Rightarrow> bool" where
  "conns_inv nt \<longleftrightarrow>
     distinct (map conn_addr (all_conns nt)) \<and>
     (\<forall>c \<in> set (all_conns nt). conn_addr c < nat_brk nt) \<and>
     (\<forall>m \<in> set (mappings nt). map_type m = nat_mapping_icmp \<longrightarrow> conns m = [])"

definition nat_inv :: "sr_nat \<Rightarrow> bool" where
  "nat_inv nt \<longleftrightarrow>
     pool.tracks (bitmap nt) (map ext_id (mappings nt)) \<and>
     distinct (map int_key (mappings nt)) \<and> conns_inv nt"

lemma nat_inv_init: "nat_inv (sr_nat_init a b c nt)"
  by (simp add: nat_inv_def conns_inv_def all_conns_def sr_nat_init_def tracks_empty)

lemma nat_inv_unsol [simp]: "nat_inv (nt\<lparr>unsol_pkt := u\<rparr>) = nat_inv nt"
  by (simp add: nat_inv_def conns_inv_def all_conns_def)

subsection \<open>Lookup\<close>

lemma find_distinct_iff:
  "distinct (map g xs) \<Longrightarrow> find (\<lambda>x. g x = k) xs = Some x \<longleftrightarrow> x \<in> set xs \<and> g x = k"
  by (induction xs) (auto simp: image_iff)

lemma distinct_aux_ext:
  assumes "pool.tracks bm (map ext_id ms)"
  shows "distinct (map aux_ext ms)"
proof -
  have "distinct (map (unat \<circ> aux_ext) ms)"
    using assms by (simp add: pool.tracks_def ext_id_def [abs_def] comp_def)
  then show ?thesis by (metis distinct_map map_map)
qed

lemma lookup_external_iff:
  assumes "nat_inv nt"
  shows "sr_nat_lookup_external nt e ty = Some m \<longleftrightarrow> m \<in> set (mappings nt) \<and> aux_ext m = e"
  unfolding sr_nat_lookup_external_def
  using assms by (intro find_distinct_iff distinct_aux_ext [of "bitmap nt"]) (simp add: nat_inv_def)

lemma lookup_internal_key:
  "sr_nat_lookup_internal nt ip aux ty = find (\<lambda>m. int_key m = (ip, aux)) (mappings nt)"
  by (simp add: sr_nat_lookup_internal_def int_key_def)

lemma lookup_internal_iff:
  "nat_inv nt \<Longrightarrow>
     sr_nat_lookup_internal nt ip aux ty = Some m \<longleftrightarrow> m \<in> set (mappings nt) \<and> int_key m = (ip, aux)"
  unfolding lookup_internal_key by (intro find_distinct_iff) (simp add: nat_inv_def)

lemma lookup_internal_None:
  "sr_nat_lookup_internal nt ip aux ty = None \<longleftrightarrow> (ip, aux) \<notin> int_key ` set (mappings nt)"
  unfolding lookup_internal_key find_None_iff by (auto simp: image_iff)

subsection \<open>Inserting a mapping\<close>

definition nat_room :: "sr_nat \<Rightarrow> bool" where
  "nat_room nt \<longleftrightarrow> length (mappings nt) < 64512"

text \<open>
  A table that holds no more mappings than there are identifiers.  A mapping made when they are all
  taken exceeds this bound, so in a run that respects it an insertion always finds an identifier.
\<close>

definition nat_fits :: "sr_nat \<Rightarrow> bool" where
  "nat_fits nt \<longleftrightarrow> length (mappings nt) \<le> 64512"

lemma nat_room_fits: "nat_room nt \<Longrightarrow> nat_fits nt"
  by (simp add: nat_room_def nat_fits_def)

lemma nat_fits_mappings: "length (mappings nt') = length (mappings nt) \<Longrightarrow> nat_fits nt' = nat_fits nt"
  by (simp add: nat_fits_def)

lemma insert_mapping_length:
  "sr_nat_insert_mapping now nt ip aux ty = (m, nt') \<Longrightarrow> length (mappings nt') = Suc (length (mappings nt))"
  by (auto simp: sr_nat_insert_mapping_def find_next_id_def Let_def split: option.splits prod.splits)

lemma insert_mapping_fits:
  "sr_nat_insert_mapping now nt ip aux ty = (m, nt') \<Longrightarrow> nat_fits nt' \<Longrightarrow> nat_room nt"
  by (drule insert_mapping_length) (simp add: nat_fits_def nat_room_def)

lemma insert_mapping_cases:
  assumes "nat_inv nt" "nat_room nt"
  obtains r bm where "claim_id (bitmap nt) = Some (r, bm)" "1024 \<le> r" "r < 65536"
    "r \<notin> ext_id ` set (mappings nt)"
    "sr_nat_insert_mapping now nt ip aux ty =
       (let m = \<lparr>map_type = ty, ip_int = ip, ip_ext = 0, aux_int = aux, aux_ext = of_nat r,
                 map_last_updated = now, conns = []\<rparr>
        in (m, nt\<lparr>bitmap := bm, mappings := m # mappings nt\<rparr>))"
proof -
  have t: "pool.tracks (bitmap nt) (map ext_id (mappings nt))" using assms(1) by (simp add: nat_inv_def)
  then obtain r bm where c: "claim_id (bitmap nt) = Some (r, bm)"
    using pool.tracks_total [OF t] assms(2) by (auto simp: nat_room_def)
  have "pool.tracks bm (r # map ext_id (mappings nt))" by (rule pool.tracks_alloc [OF t c])
  then have "1024 \<le> r" "r < 65536" "r \<notin> ext_id ` set (mappings nt)"
    by (auto simp: pool.tracks_def)
  with c show thesis
    by (intro that) (simp_all add: sr_nat_insert_mapping_def find_next_id_def Let_def)
qed

lemma insert_mapping_inv:
  assumes inv: "nat_inv nt" and room: "nat_room nt"
    and new: "sr_nat_lookup_internal nt ip aux ty = None"
    and ins: "sr_nat_insert_mapping now nt ip aux ty = (m, nt')"
  shows "nat_inv nt'" "set (mappings nt') = insert m (set (mappings nt))" "int_key m = (ip, aux)"
    "1024 \<le> ext_id m" "map_type m = ty" "conns m = []" "ext_id m \<notin> ext_id ` set (mappings nt)"
    "mappings nt' = m # mappings nt"
proof -
  obtain r bm where c: "claim_id (bitmap nt) = Some (r, bm)" "1024 \<le> r" "r < 65536"
      "r \<notin> ext_id ` set (mappings nt)"
    and m: "m = \<lparr>map_type = ty, ip_int = ip, ip_ext = 0, aux_int = aux, aux_ext = of_nat r,
                 map_last_updated = now, conns = []\<rparr>"
    and nt': "nt' = nt\<lparr>bitmap := bm, mappings := m # mappings nt\<rparr>"
    by (rule insert_mapping_cases [OF inv room, of now ip aux ty]) (use ins in \<open>simp add: Let_def\<close>)
  have r: "ext_id m = r" using c(3) by (simp add: m ext_id_def unat_of_nat)
  show "set (mappings nt') = insert m (set (mappings nt))" "mappings nt' = m # mappings nt"
    by (simp_all add: nt')
  show "int_key m = (ip, aux)" "map_type m = ty" "conns m = []" by (simp_all add: m int_key_def)
  show "1024 \<le> ext_id m" "ext_id m \<notin> ext_id ` set (mappings nt)" using c by (simp_all add: r)
  have "pool.tracks bm (map ext_id (mappings nt'))"
    using pool.tracks_alloc [OF _ c(1), of "map ext_id (mappings nt)"] inv
    by (simp add: nt' r nat_inv_def)
  moreover have "distinct (map int_key (mappings nt'))"
    using inv new \<open>int_key m = (ip, aux)\<close> by (simp add: nt' nat_inv_def lookup_internal_None)
  moreover have "conns_inv nt'"
    using inv by (auto simp: nat_inv_def conns_inv_def all_conns_def nt' m)
  ultimately show "nat_inv nt'" by (simp add: nat_inv_def nt')
qed

text \<open>
  When every identifier is taken \<open>find_next_id\<close> returns -1; stored in a 16-bit field that is the
  external identifier 65535, which another mapping holds already.
\<close>

lemma insert_mapping_exhausted:
  assumes inv: "nat_inv nt" and full: "\<not> nat_room nt"
  shows "\<exists>m0 m. m0 \<in> set (mappings nt) \<and> aux_ext m0 = 65535 \<and>
    sr_nat_insert_mapping now nt ip aux ty = (m, nt\<lparr>mappings := m # mappings nt\<rparr>) \<and>
    aux_ext m = 65535 \<and> int_key m = (ip, aux) \<and> conns m = []"
proof -
  let ?h = "map ext_id (mappings nt)"
  have t: "pool.tracks (bitmap nt) ?h" using inv by (simp add: nat_inv_def)
  then have d: "distinct ?h" "set ?h \<subseteq> {1024..<65536}" by (simp_all add: pool.tracks_def)
  then have "card (set ?h) = length ?h" by (intro distinct_card)
  then have "card {1024..<65536::nat} \<le> card (set ?h)" using full by (simp add: nat_room_def)
  then have all: "set ?h = {1024..<65536}" using d(2) by (intro card_seteq) simp_all
  then have "claim_id (bitmap nt) = None" using pool.tracks_exhausted [OF t] by simp
  moreover obtain m0 where "m0 \<in> set (mappings nt)" "ext_id m0 = 65535"
  proof -
    have "65535 \<in> set ?h" unfolding all by simp
    then show thesis using that by auto
  qed
  moreover from this(2) have "aux_ext m0 = 65535"
    by (simp add: ext_id_def word_unat_eq_iff)
  ultimately show ?thesis
    by (auto simp: sr_nat_insert_mapping_def find_next_id_def int_key_def Let_def
        intro!: bexI [of _ m0])
qed

subsection \<open>The contract of a translation table\<close>

text \<open>
  What the packet handlers rely on: the two lookups read the same set of entries by its two keys, and
  an inserted entry joins it under the key it was asked for.  \<open>translate\<close> is the handlers' idiom of
  looking up an internal address and inserting a mapping when there is none.
\<close>

locale nat_table =
  fixes inv :: "'s \<Rightarrow> bool" and room :: "'s \<Rightarrow> bool" and entries :: "'s \<Rightarrow> 'm set"
    and ext :: "'m \<Rightarrow> 'e" and key :: "'m \<Rightarrow> 'k"
    and lookup_ext :: "'s \<Rightarrow> 'e \<Rightarrow> 'm option" and lookup_int :: "'s \<Rightarrow> 'k \<Rightarrow> 'm option"
    and insert :: "'s \<Rightarrow> 'k \<Rightarrow> 'm \<times> 's"
  assumes ext_iff: "inv s \<Longrightarrow> lookup_ext s e = Some m \<longleftrightarrow> m \<in> entries s \<and> ext m = e"
    and int_iff: "inv s \<Longrightarrow> lookup_int s k = Some m \<longleftrightarrow> m \<in> entries s \<and> key m = k"
    and insert_ok: "inv s \<Longrightarrow> room s \<Longrightarrow> lookup_int s k = None \<Longrightarrow> insert s k = (m, s') \<Longrightarrow>
      inv s' \<and> entries s' = Set.insert m (entries s) \<and> key m = k"
begin

definition translate :: "'s \<Rightarrow> 'k \<Rightarrow> 'm \<times> 's" where
  "translate s k = (case lookup_int s k of Some m \<Rightarrow> (m, s) | None \<Rightarrow> insert s k)"

lemma translate_cases:
  assumes "inv s" "room s" "translate s k = (m, s')"
  shows "inv s'" "entries s' = Set.insert m (entries s)" "key m = k"
  using assms insert_ok by (fastforce simp: translate_def int_iff split: option.splits)+

text \<open>A reply to the external key comes back to the internal key, at once and after more translations.\<close>

lemma translate_back:
  assumes "inv s" "room s" "translate s k = (m, s')"
  shows "lookup_ext s' (ext m) = Some m" "lookup_int s' k = Some m"
  using translate_cases [OF assms] by (simp_all add: ext_iff int_iff)

lemma translate_kept:
  assumes "inv s" "room s" "translate s k = (m, s')" "lookup_ext s e = Some m'"
  shows "lookup_ext s' e = Some m'"
  using translate_cases [OF assms(1-3)] assms(1,4) by (simp add: ext_iff)

lemma translate_again:
  assumes "inv s" "room s" "translate s k = (m, s')"
  shows "translate s' k = (m, s')"
  using translate_back [OF assms] by (simp add: translate_def)

lemma ext_injective:
  assumes "inv s" "m \<in> entries s" "m' \<in> entries s" "ext m = ext m'"
  shows "m = m'"
  using assms ext_iff by (metis option.inject)

lemma translate_distinct:
  assumes "inv s" "room s" "translate s k = (m, s')" "room s'" "translate s' k' = (m', s'')" "k \<noteq> k'"
  shows "ext m \<noteq> ext m'"
proof
  assume e: "ext m = ext m'"
  note t = translate_cases [OF assms(1-3)]
  note t' = translate_cases [OF t(1) assms(4,5)]
  have "m = m'" using t(2) t'(1,2) e by (intro ext_injective [OF t'(1)]) auto
  then show False using t(3) t'(3) assms(6) by simp
qed

end

interpretation table: nat_table nat_inv nat_room "\<lambda>nt. set (mappings nt)" aux_ext int_key
  "\<lambda>nt e. sr_nat_lookup_external nt e ty" "\<lambda>nt k. sr_nat_lookup_internal nt (fst k) (snd k) ty"
  "\<lambda>nt k. sr_nat_insert_mapping now nt (fst k) (snd k) ty" for now ty
proof
  fix nt e m k nt'
  assume inv: "nat_inv nt"
  show "sr_nat_lookup_external nt e ty = Some m \<longleftrightarrow> m \<in> set (mappings nt) \<and> aux_ext m = e"
    by (rule lookup_external_iff [OF inv])
  show "sr_nat_lookup_internal nt (fst k) (snd k) ty = Some m \<longleftrightarrow>
      m \<in> set (mappings nt) \<and> int_key m = k"
    using lookup_internal_iff [OF inv, of "fst k" "snd k"] by simp
  assume "nat_room nt" "sr_nat_lookup_internal nt (fst k) (snd k) ty = None"
    "sr_nat_insert_mapping now nt (fst k) (snd k) ty = (m, nt')"
  from insert_mapping_inv [OF inv this]
  show "nat_inv nt' \<and> set (mappings nt') = insert m (set (mappings nt)) \<and> int_key m = k" by simp
qed

text \<open>The idiom on the model's own operations.\<close>

definition nat_translate ::
  "int \<Rightarrow> sr_nat_mapping_type \<Rightarrow> sr_nat \<Rightarrow> u32 \<Rightarrow> u16 \<Rightarrow> sr_nat_mapping \<times> sr_nat" where
  "nat_translate now ty nt ip aux =
     (case sr_nat_lookup_internal nt ip aux ty of
        Some m \<Rightarrow> (m, nt) | None \<Rightarrow> sr_nat_insert_mapping now nt ip aux ty)"

lemma nat_translate_table: "nat_translate now ty nt ip aux = table.translate ty now nt (ip, aux)"
  by (simp add: nat_translate_def table.translate_def split: option.split)

lemma nat_translate_inv:
  "nat_inv nt \<Longrightarrow> nat_room nt \<Longrightarrow> nat_translate now ty nt ip aux = (m, nt') \<Longrightarrow>
     nat_inv nt' \<and> ip_int m = ip \<and> aux_int m = aux"
  using table.translate_cases(1,3) [of nt ty now "(ip, aux)" m nt']
  by (simp add: nat_translate_table int_key_def)

lemma nat_translate_back:
  "nat_inv nt \<Longrightarrow> nat_room nt \<Longrightarrow> nat_translate now ty nt ip aux = (m, nt') \<Longrightarrow>
     sr_nat_lookup_external nt' (aux_ext m) ty' = Some m"
  using table.translate_back(1) [of nt ty now "(ip, aux)" m nt']
  by (simp add: nat_translate_table sr_nat_lookup_external_def)

section \<open>Connections and the invariant\<close>

lemma nat_translate_two:
  assumes "nat_inv nt" "nat_room nt" "nat_translate now ty nt ip aux = (m, nt')"
    and "nat_room nt'" "nat_translate now ty nt' ip' aux' = (m', nt'')" "(ip, aux) \<noteq> (ip', aux')"
  shows "aux_ext m \<noteq> aux_ext m'" "sr_nat_lookup_external nt'' (aux_ext m) ty' = Some m"
    "sr_nat_lookup_external nt'' (aux_ext m') ty' = Some m'"
    "nat_translate now ty nt'' ip' aux' = (m', nt'')"
proof -
  note t = assms(3,5) [unfolded nat_translate_table]
  have inv: "nat_inv nt'" using nat_translate_inv [OF assms(1-3)] by simp
  show "aux_ext m \<noteq> aux_ext m'"
    by (rule table.translate_distinct [OF assms(1,2) t(1) assms(4) t(2) assms(6)])
  have "sr_nat_lookup_external nt' (aux_ext m) ty = Some m" by (rule nat_translate_back [OF assms(1-3)])
  then show "sr_nat_lookup_external nt'' (aux_ext m) ty' = Some m"
    using table.translate_kept [OF inv assms(4) t(2)] by (simp add: sr_nat_lookup_external_def)
  show "sr_nat_lookup_external nt'' (aux_ext m') ty' = Some m'"
    by (rule nat_translate_back [OF inv assms(4,5)])
  show "nat_translate now ty nt'' ip' aux' = (m', nt'')"
    unfolding nat_translate_table by (rule table.translate_again [OF inv assms(4) t(2)])
qed

lemma conn_assign_mappings:
  assumes "\<And>c. conn_addr c = a \<Longrightarrow> conn_addr (f c) = a"
  shows "map ext_id (mappings (conn_assign a f nt)) = map ext_id (mappings nt)"
    "map int_key (mappings (conn_assign a f nt)) = map int_key (mappings nt)"
    "map conn_addr (all_conns (conn_assign a f nt)) = map conn_addr (all_conns nt)"
  using assms by (auto simp: conn_assign_def ext_id_def int_key_def all_conns_def map_concat comp_def
      intro!: arg_cong [where f = concat])

lemma conn_assign_inv:
  assumes "nat_inv nt" "\<And>c. conn_addr c = a \<Longrightarrow> conn_addr (f c) = a"
  shows "nat_inv (conn_assign a f nt)"
proof -
  have same: "map ext_id (mappings (conn_assign a f nt)) = map ext_id (mappings nt)"
    "map int_key (mappings (conn_assign a f nt)) = map int_key (mappings nt)"
    "map conn_addr (all_conns (conn_assign a f nt)) = map conn_addr (all_conns nt)"
    by (rule conn_assign_mappings; rule assms(2); assumption)+
  have "conn_addr c < nat_brk nt" if "c \<in> set (all_conns (conn_assign a f nt))" for c
  proof -
    have "conn_addr c \<in> set (map conn_addr (all_conns nt))" using that same(3) [symmetric] by simp
    then show ?thesis using assms(1) by (auto simp: nat_inv_def conns_inv_def)
  qed
  moreover have "conns m = []" if "m \<in> set (mappings (conn_assign a f nt))" "map_type m = nat_mapping_icmp" for m
    using that assms(1) by (auto simp: nat_inv_def conns_inv_def conn_assign_def)
  moreover have "bitmap (conn_assign a f nt) = bitmap nt" "nat_brk (conn_assign a f nt) = nat_brk nt"
    by (simp_all add: conn_assign_def)
  ultimately show ?thesis
    using assms(1) unfolding nat_inv_def conns_inv_def same by simp
qed

lemma unsol_unchanged [simp]: "\<exists>u. nt = nt\<lparr>unsol_pkt := u\<rparr>"
  by (rule exI [of _ "unsol_pkt nt"]) simp

lemma insert_unsolicited_eq:
  "sr_nat_insert_unsolicited_packet now nt p len = Some nt' \<Longrightarrow> \<exists>u. nt' = nt\<lparr>unsol_pkt := u\<rparr>"
  by (auto simp: sr_nat_insert_unsolicited_packet_def Option.bind_eq_Some_conv split: if_splits)

lemma remove_unsolicited_eq:
  assumes "sr_nat_remove_unsolicited_packet nt p = Some nt'"
  shows "\<exists>u. nt' = nt\<lparr>unsol_pkt := u\<rparr>"
proof -
  obtain us where "unsol_pkt nt = Some us"
    using assms by (auto simp: sr_nat_remove_unsolicited_packet_def Option.bind_eq_Some_conv)
  with assms show ?thesis
    by (cases us) (auto simp: sr_nat_remove_unsolicited_packet_def Option.bind_eq_Some_conv)
qed

lemma conn_at_addr: "conn_at nt a = Some c \<Longrightarrow> conn_addr c = a \<and> c \<in> set (all_conns nt)"
  by (auto simp: conn_at_def dest: find_SomeD)

lemma find_conn_Some:
  "find_conn nt dir p tcp cs = Some (Some c) \<Longrightarrow>
     c \<in> set (all_conns nt) \<and> conn_at nt (conn_addr c) = Some c \<and> conn_matches dir p tcp c = Some True"
proof (induction cs)
  case (Cons a cs)
  then obtain cur m where c: "conn_at nt (conn_addr a) = Some cur" "conn_matches dir p tcp cur = Some m"
    by (auto simp: Option.bind_eq_Some_conv)
  show ?case
  proof (cases m)
    case True
    with c Cons.prems have "c = cur" by simp
    with c True conn_at_addr [OF c(1)] show ?thesis by simp
  qed (use Cons c in simp)
qed simp

lemma update_connection_inv:
  assumes "nat_inv nt" "sr_nat_update_connection now nt m p len dir = Some (c, nt')"
  shows "nat_inv nt'"
  using assms
  by (auto simp: sr_nat_update_connection_def Option.bind_eq_Some_conv Let_def
      split: option.splits intro!: conn_assign_inv dest!: insert_unsolicited_eq)

definition with_conn :: "u16 \<Rightarrow> sr_nat_connection \<Rightarrow> sr_nat_mapping list \<Rightarrow> sr_nat_mapping list" where
  "with_conn port e ms =
     update_first (\<lambda>cur. aux_ext cur = port) (\<lambda>cur. cur\<lparr>conns := e # conns cur\<rparr>) ms"

lemma insert_connection_cases:
  assumes "sr_nat_lookup_external nt port ty = Some m"
    and "sr_nat_insert_connection now nt port p st = Some (c, nt')"
  obtains e u where "c = Some e" "conn_addr e = nat_brk nt" "conn_state e = st" "conn_last_updated e = now"
    "rd32 ip_dst p = Some (peer_ip e)"
    "\<exists>hl. ip_hl p = Some hl \<and> rd16 (hl * 4 + tcp_dst_port) p = Some (peer_port e)"
    "nt' = nt\<lparr>mappings := with_conn port e (mappings nt), nat_brk := Suc (nat_brk nt), unsol_pkt := u\<rparr>"
proof -
  from assms obtain hl dst dport nt1 where rd: "ip_hl p = Some hl" "rd32 ip_dst p = Some dst"
      "rd16 (hl * 4 + tcp_dst_port) p = Some dport"
    and r: "sr_nat_remove_unsolicited_packet nt1 p = Some nt'"
    and nt1: "nt1 = nt\<lparr>mappings := with_conn port \<lparr>conn_addr = nat_brk nt, conn_state = st, peer_ip = dst,
          peer_port = dport, conn_last_updated = now\<rparr> (mappings nt), nat_brk := Suc (nat_brk nt)\<rparr>"
    and c: "c = Some \<lparr>conn_addr = nat_brk nt, conn_state = st, peer_ip = dst,
          peer_port = dport, conn_last_updated = now\<rparr>"
    by (auto simp: sr_nat_insert_connection_def sr_nat_lookup_external_def Option.bind_eq_Some_conv
        Let_def with_conn_def)
  obtain u where "nt' = nt1\<lparr>unsol_pkt := u\<rparr>" using remove_unsolicited_eq [OF r] by auto
  then show thesis by (intro that [OF c]) (use rd in \<open>simp_all add: nt1\<close>)
qed

lemma insert_connection_inv:
  assumes inv: "nat_inv nt" and m: "sr_nat_lookup_external nt port ty = Some m" "map_type m = nat_mapping_tcp"
    and ins: "sr_nat_insert_connection now nt port p st = Some (c, nt')"
  shows "nat_inv nt'"
proof -
  obtain e u where e: "conn_addr e = nat_brk nt"
    and nt': "nt' = nt\<lparr>mappings := with_conn port e (mappings nt), nat_brk := Suc (nat_brk nt), unsol_pkt := u\<rparr>"
    by (rule insert_connection_cases [OF m(1) ins])
  have same: "map ext_id (with_conn port e (mappings nt)) = map ext_id (mappings nt)"
    "map int_key (with_conn port e (mappings nt)) = map int_key (mappings nt)"
    unfolding with_conn_def by (rule map_update_first; simp add: ext_id_def int_key_def)+
  obtain pre post where split: "mappings nt = pre @ m # post"
    and ms: "with_conn port e (mappings nt) = pre @ m\<lparr>conns := e # conns m\<rparr> # post"
    using update_first_split [OF m(1) [unfolded sr_nat_lookup_external_def]] unfolding with_conn_def by blast
  define A B where "A = concat (map conns pre)" and "B = concat (map conns post)"
  have old: "all_conns nt = A @ conns m @ B" and new: "all_conns nt' = A @ e # conns m @ B"
    by (simp_all add: all_conns_def nt' ms A_def B_def) (simp add: split)
  have ci: "distinct (map conn_addr (A @ conns m @ B))" "\<forall>c \<in> set (A @ conns m @ B). conn_addr c < nat_brk nt"
    and icmp: "\<forall>m \<in> set (mappings nt). map_type m = nat_mapping_icmp \<longrightarrow> conns m = []"
    using inv unfolding nat_inv_def conns_inv_def old by blast+
  from ci(2) have "conn_addr e \<notin> conn_addr ` set (A @ conns m @ B)" by (auto simp: e)
  with ci(1) have "distinct (map conn_addr (all_conns nt'))" by (auto simp: new)
  moreover have "\<forall>c \<in> set (all_conns nt'). conn_addr c < nat_brk nt'"
    using ci(2) unfolding new by (auto simp: nt' e less_Suc_eq)
  moreover have "\<forall>m \<in> set (mappings nt'). map_type m = nat_mapping_icmp \<longrightarrow> conns m = []"
    using icmp m(2) by (simp add: nt' ms) (auto simp: split)
  ultimately have "conns_inv nt'" by (simp add: conns_inv_def)
  then show ?thesis using inv same unfolding nat_inv_def nt' by simp
qed

subsection \<open>A new connection\<close>

text \<open>The list of unsolicited packets can be searched for a packet with this header length.\<close>

definition unsol_readable :: "nat \<Rightarrow> sr_nat \<Rightarrow> bool" where
  "unsol_readable hl nt \<longleftrightarrow>
     (\<exists>us. unsol_pkt nt = Some us \<and> list_all (\<lambda>u. hl * 4 + 8 \<le> length (un_ip_packet u)) us)"

lemma eq_total:
  "off + 2 \<le> length p \<Longrightarrow> off + 2 \<le> length q \<Longrightarrow> \<exists>b. eq16 off p q = Some b"
  "off + 4 \<le> length p \<Longrightarrow> off + 4 \<le> length q \<Longrightarrow> \<exists>b. eq32 off p q = Some b"
  by (simp_all add: eq16_def eq32_def rd16_def rd32_def)

lemma and_also_total:
  assumes "\<exists>x. a = Some x" "\<exists>y. b = Some y"
  shows "\<exists>z. and_also a b = Some z"
proof -
  obtain x y where "a = Some x" "b = Some y" using assms by blast
  then show ?thesis by (cases x) (auto simp: and_also_def)
qed

lemma same_syn_total:
  assumes "ip_hl p = Some hl" "5 \<le> hl" "hl * 4 + 8 \<le> length p" "hl * 4 + 8 \<le> length q"
  shows "\<exists>b. same_syn p q = Some b"
  using assms(1) unfolding same_syn_def
  by (simp add: Let_def) (intro and_also_total eq_total; use assms in simp)

lemma unsol_unlink_total:
  assumes "ip_hl p = Some hl" "5 \<le> hl" "hl * 4 + 8 \<le> length p"
    and "list_all (\<lambda>u. hl * 4 + 8 \<le> length (un_ip_packet u)) us"
  shows "\<exists>r. unsol_unlink p us = Some r"
  using assms(4)
proof (induction us)
  case (Cons u us)
  then obtain b where "same_syn p (un_ip_packet u) = Some b"
    using same_syn_total [OF assms(1-3)] by auto
  with Cons show ?case by auto
qed simp

lemma remove_unsolicited_total:
  assumes p: "ip_hl p = Some hl" "5 \<le> hl" "hl * 4 + 8 \<le> length p" and "unsol_readable hl nt"
  shows "\<exists>nt'. sr_nat_remove_unsolicited_packet nt p = Some nt'"
proof -
  obtain us where us: "unsol_pkt nt = Some us" "list_all (\<lambda>u. hl * 4 + 8 \<le> length (un_ip_packet u)) us"
    using assms(4) by (auto simp: unsol_readable_def)
  show ?thesis
  proof (cases us)
    case Nil
    then show ?thesis using us p by (simp add: sr_nat_remove_unsolicited_packet_def)
  next
    case (Cons u rest)
    obtain b where "same_syn p (un_ip_packet u) = Some b"
      using same_syn_total [OF p, of "un_ip_packet u"] us(2) Cons by auto
    moreover obtain r where "unsol_unlink p rest = Some r"
      using unsol_unlink_total [OF p, of rest] us(2) Cons by auto
    ultimately show ?thesis using us p Cons by (simp add: sr_nat_remove_unsolicited_packet_def)
  qed
qed

lemma insert_connection_total:
  assumes p: "ip_hl p = Some hl" "5 \<le> hl" "hl * 4 + 8 \<le> length p" and u: "unsol_readable hl nt"
    and m: "sr_nat_lookup_external nt port ty = Some m"
  shows "\<exists>c nt'. sr_nat_insert_connection now nt port p st = Some (Some c, nt')"
proof -
  have "unsol_readable hl (nt\<lparr>mappings := ms, nat_brk := b\<rparr>)" for ms b
    using u by (simp add: unsol_readable_def)
  from remove_unsolicited_total [OF p this] show ?thesis
    using m p unfolding sr_nat_lookup_external_def
    by (auto simp: sr_nat_insert_connection_def mem Let_def Option.bind_eq_Some_conv)
qed

lemma new_connection:
  assumes nt1: "mappings nt1 = m # ms" "conns m = []"
    and c: "sr_nat_insert_connection now nt1 (aux_ext m) p st = Some (Some c, nt')"
  shows "sr_nat_lookup_external nt' (aux_ext m) ty = Some (m\<lparr>conns := [c]\<rparr>)"
    "conn_at nt' (conn_addr c) = Some c" "conn_state c = st" "rd32 ip_dst p = Some (peer_ip c)"
    "\<exists>hl. ip_hl p = Some hl \<and> rd16 (hl * 4 + tcp_dst_port) p = Some (peer_port c)"
proof -
  have m: "sr_nat_lookup_external nt1 (aux_ext m) ty = Some m"
    by (simp add: sr_nat_lookup_external_def nt1)
  obtain u where e: "conn_state c = st" "rd32 ip_dst p = Some (peer_ip c)"
      "\<exists>hl. ip_hl p = Some hl \<and> rd16 (hl * 4 + tcp_dst_port) p = Some (peer_port c)"
    and nt': "nt' = nt1\<lparr>mappings := with_conn (aux_ext m) c (mappings nt1), nat_brk := Suc (nat_brk nt1), unsol_pkt := u\<rparr>"
    by (rule insert_connection_cases [OF m c]) blast
  show "conn_state c = st" "rd32 ip_dst p = Some (peer_ip c)"
    "\<exists>hl. ip_hl p = Some hl \<and> rd16 (hl * 4 + tcp_dst_port) p = Some (peer_port c)" by (rule e)+
  have ms: "mappings nt' = m\<lparr>conns := [c]\<rparr> # ms" by (simp add: nt' nt1 with_conn_def)
  then show "sr_nat_lookup_external nt' (aux_ext m) ty = Some (m\<lparr>conns := [c]\<rparr>)"
    by (simp add: sr_nat_lookup_external_def)
  show "conn_at nt' (conn_addr c) = Some c" by (simp add: conn_at_def all_conns_def ms)
qed

text \<open>A segment from the peer of a connection updates that connection.\<close>

lemma update_connection_first:
  assumes c: "conn_at nt (conn_addr c) = Some c" and hl: "ip_hl q = Some hl"
    and peer: "rd32 ip_src q = Some (peer_ip c)" "rd16 (hl * 4 + tcp_src_port) q = Some (peer_port c)"
    and f: "tcp_flags_at (hl * 4) q = Some f"
  shows "sr_nat_update_connection now nt (m\<lparr>conns := c # cs\<rparr>) q len 1 =
    (let c' = c\<lparr>conn_state := determine_state (conn_state c) f, conn_last_updated := now\<rparr>
     in Some (Some c', conn_assign (conn_addr c) (\<lambda>_. c') nt))"
  using assms by (simp add: sr_nat_update_connection_def conn_matches_def and_also_def Let_def)

lemma conn_assign_there:
  assumes "conn_at nt a = Some c" "conn_addr c' = a"
  shows "c' \<in> set (all_conns (conn_assign a (\<lambda>_. c') nt))"
proof -
  from conn_at_addr [OF assms(1)] obtain m where "m \<in> set (mappings nt)" "c \<in> set (conns m)" "conn_addr c = a"
    by (auto simp: all_conns_def)
  then show ?thesis by (force simp: all_conns_def conn_assign_def)
qed

section \<open>Expiry and the invariant\<close>

text \<open>Which connections and mappings survive an expiry pass.\<close>

definition conn_live :: "int \<Rightarrow> sr_nat \<Rightarrow> sr_nat_connection \<Rightarrow> bool" where
  "conn_live curtime nt c \<longleftrightarrow>
     conn_state c \<noteq> CLOSED \<and>
     curtime - conn_last_updated c \<le> uint (tcp_transitory_to nt) \<and>
     (conn_state c = ESTAB \<longrightarrow> curtime - conn_last_updated c \<le> uint (tcp_estab_idle_to nt))"

definition map_live :: "int \<Rightarrow> sr_nat \<Rightarrow> sr_nat_mapping \<Rightarrow> bool" where
  "map_live curtime nt m \<longleftrightarrow>
     (case map_type m of
        nat_mapping_icmp \<Rightarrow> curtime - map_last_updated m \<le> uint (icmp_query_to nt)
      | nat_mapping_tcp \<Rightarrow> \<exists>c \<in> set (conns m). conn_live curtime nt c)"

definition expired :: "int \<Rightarrow> sr_nat \<Rightarrow> sr_nat_mapping \<Rightarrow> sr_nat_mapping" where
  "expired curtime nt m =
     (case map_type m of
        nat_mapping_icmp \<Rightarrow> m
      | nat_mapping_tcp \<Rightarrow> m\<lparr>conns := filter (conn_live curtime nt) (conns m)\<rparr>)"

lemma expire_conns_filter: "expire_conns curtime nt cs = filter (conn_live curtime nt) cs"
  by (induction cs) (auto simp: conn_live_def)

lemma expired_simps [simp]: "ext_id (expired t nt m) = ext_id m" "int_key (expired t nt m) = int_key m"
  "map_type (expired t nt m) = map_type m" "set (conns (expired t nt m)) \<subseteq> set (conns m)"
  by (auto simp: expired_def ext_id_def int_key_def split: sr_nat_mapping_type.split)

lemma expire_mappings_list:
  "fst (expire_mappings t nt bm ms) = map (expired t nt) (filter (map_live t nt) ms)"
  by (induction ms arbitrary: bm)
    (auto simp: expire_conns_filter map_live_def expired_def filter_empty_conv Let_def split_beta
      split: sr_nat_mapping_type.split)

lemma expire_mappings_tracks:
  "pool.tracks bm (pre @ map ext_id ms) \<Longrightarrow>
     pool.tracks (snd (expire_mappings t nt bm ms)) (pre @ map ext_id (filter (map_live t nt) ms))"
proof (induction ms arbitrary: bm pre)
  case (Cons m ms)
  show ?case
  proof (cases "map_live t nt m")
    case True
    then have "snd (expire_mappings t nt bm (m # ms)) = snd (expire_mappings t nt bm ms)"
      by (auto simp: expire_conns_filter map_live_def filter_empty_conv Let_def split_beta
          split: sr_nat_mapping_type.splits)
    with True Cons.IH [of bm "pre @ [ext_id m]"] Cons.prems show ?thesis by simp
  next
    case False
    then have "expire_mappings t nt bm (m # ms) = expire_mappings t nt (ClearBit bm (ext_id m)) ms"
      by (auto simp: expire_conns_filter map_live_def filter_empty_conv Let_def ext_id_def
          split: sr_nat_mapping_type.splits)
    moreover have "pool.tracks (ClearBit bm (ext_id m)) (pre @ map ext_id ms)"
      using Cons.prems by (intro pool.tracks_free) simp
    ultimately show ?thesis using False Cons.IH by simp
  qed
qed simp

lemma nat_expire_mappings:
  "mappings (nat_expire t nt) = map (expired t nt) (filter (map_live t nt) (mappings nt))"
  using expire_mappings_list [of t nt "bitmap nt" "mappings nt"]
  by (simp add: nat_expire_def split_beta)

lemma distinct_concat_expired:
  assumes "distinct (map conn_addr (concat (map conns ms)))"
  shows "distinct (map conn_addr (concat (map (conns \<circ> expired t nt) (filter P ms))))"
  using assms
proof (induction ms)
  case (Cons m ms)
  have "conns (expired t nt m) = conns m \<or>
      conns (expired t nt m) = filter (conn_live t nt) (conns m)"
    by (simp add: expired_def split: sr_nat_mapping_type.split)
  then have "distinct (map conn_addr (conns (expired t nt m)))"
    using Cons.prems by (auto simp: distinct_map_filter)
  moreover have "conn_addr ` set (conns (expired t nt m)) \<inter>
      conn_addr ` set (concat (map (conns \<circ> expired t nt) (filter P ms))) = {}" (is "?A \<inter> ?B = {}")
  proof -
    have "?A \<subseteq> conn_addr ` set (conns m)" by (intro image_mono expired_simps)
    moreover have "?B \<subseteq> conn_addr ` set (concat (map conns ms))"
      by (intro image_mono) (auto dest: subsetD [OF expired_simps(4)])
    moreover have "conn_addr ` set (conns m) \<inter> conn_addr ` set (concat (map conns ms)) = {}"
      using Cons.prems by simp
    ultimately show ?thesis by blast
  qed
  moreover have "distinct (map conn_addr (concat (map conns ms)))" using Cons.prems by simp
  ultimately show ?case using Cons.IH by simp
qed simp

lemma expired_no_conns: "conns m = [] \<Longrightarrow> conns (expired t nt m) = []"
  using expired_simps(4) [of t nt m] by simp

lemma nat_expire_inv:
  assumes "nat_inv nt"
  shows "nat_inv (nat_expire t nt)"
proof -
  have brk: "nat_brk (nat_expire t nt) = nat_brk nt" by (simp add: nat_expire_def split_beta)
  have "bitmap (nat_expire t nt) = snd (expire_mappings t nt (bitmap nt) (mappings nt))"
    by (simp add: nat_expire_def split_beta)
  then have "pool.tracks (bitmap (nat_expire t nt)) (map ext_id (mappings (nat_expire t nt)))"
    using expire_mappings_tracks [of "bitmap nt" "[]" "mappings nt" t nt] assms
    by (simp add: nat_expire_mappings nat_inv_def comp_def)
  moreover have "distinct (map int_key (mappings (nat_expire t nt)))"
    using assms by (simp add: nat_expire_mappings nat_inv_def comp_def distinct_map_filter)
  moreover have "conns_inv (nat_expire t nt)"
    unfolding conns_inv_def
  proof (intro conjI ballI impI)
    show "distinct (map conn_addr (all_conns (nat_expire t nt)))"
      using assms distinct_concat_expired
      by (auto simp: nat_inv_def conns_inv_def all_conns_def nat_expire_mappings)
    have sub: "set (all_conns (nat_expire t nt)) \<subseteq> set (all_conns nt)"
      by (auto simp: all_conns_def nat_expire_mappings dest: subsetD [OF expired_simps(4)])
    fix c assume "c \<in> set (all_conns (nat_expire t nt))"
    with sub show "conn_addr c < nat_brk (nat_expire t nt)"
      using assms by (auto simp: brk nat_inv_def conns_inv_def)
  next
    fix m assume "m \<in> set (mappings (nat_expire t nt))" "map_type m = nat_mapping_icmp"
    then show "conns m = []"
      using assms by (auto simp: nat_expire_mappings nat_inv_def conns_inv_def intro!: expired_no_conns)
  qed
  ultimately show ?thesis by (simp add: nat_inv_def)
qed

lemma nat_expire_ids:
  assumes "nat_inv nt" "k \<in> {1024..<65536}"
  shows "used (bitmap (nat_expire t nt)) k \<longleftrightarrow> k \<in> ext_id ` set (filter (map_live t nt) (mappings nt))"
proof -
  have "pool.tracks (bitmap (nat_expire t nt)) (map ext_id (mappings (nat_expire t nt)))"
    using nat_expire_inv [OF assms(1)] by (simp add: nat_inv_def)
  then show ?thesis using assms(2) by (simp add: pool.tracks_def nat_expire_mappings image_image)
qed

end
