(* ===== verification/SR_Instance.thy ===== *)
theory SR_Instance
  imports SR_If SR_Rt SR_ArpCache SR_Nat
begin

text \<open>
  The state of one virtual router (\<open>struct sr_instance\<close> of \<open>sr_router.h\<close>), the packet log
  (\<open>sr_dumper.c\<close>, \<open>sr_log_packet\<close>) and the way a frame leaves the router (\<open>sr_send_packet\<close>).

  The environment of the process is part of the record: \<open>clock\<close> and \<open>clock_usec\<close> are what
  \<open>time\<close> and \<open>gettimeofday\<close> return during the operation, \<open>sock_write n\<close> is what \<open>write\<close> on the
  server socket returns when asked to write \<open>n\<close> bytes (\<open>-1\<close>, or how many it took), and \<open>wire\<close>
  holds what each successful \<open>write\<close> took, oldest first.  \<open>logfile\<close> is \<open>None\<close> when no log is kept,
  else the bytes written to it.
\<close>

record sr_instance =
  user :: string
  host :: string
  template :: string
  topo_id :: u16
  if_list :: "sr_if list"
  routing_table :: "sr_rt list"
  cache :: sr_arpcache
  nat_st :: sr_nat
  nat_enabled :: bool
  logfile :: "buf option"
  clock :: int
  clock_usec :: int
  sock_write :: "nat \<Rightarrow> int"
  wire :: "buf list"

section \<open>The packet log\<close>

abbreviation (input) PACKET_DUMP_SIZE :: int where "PACKET_DUMP_SIZE \<equiv> 1024"
abbreviation (input) LINKTYPE_ETHERNET :: u32 where "LINKTYPE_ETHERNET \<equiv> 1"

record pcap_pkthdr =
  ts_sec :: int
  ts_usec :: int
  caplen :: u32
  pcap_len :: u32

definition sf_write_header :: "buf \<Rightarrow> u32 \<Rightarrow> u32 \<Rightarrow> u32 \<Rightarrow> buf" where
  "sf_write_header fp linktype thiszone snaplen =
     fp @ bytes32 0xa1b2c3d4 @ bytes16 2 @ bytes16 4 @ bytes32 thiszone @ bytes32 0 @
     bytes32 snaplen @ bytes32 linktype"

definition sr_dump_open :: "bool \<Rightarrow> u32 \<Rightarrow> u32 \<Rightarrow> buf option" where
  "sr_dump_open can_open thiszone snaplen =
     (if can_open then Some (sf_write_header [] LINKTYPE_ETHERNET thiszone snaplen) else None)"

definition sr_dump :: "buf \<Rightarrow> pcap_pkthdr \<Rightarrow> buf \<Rightarrow> buf option" where
  "sr_dump fp h sp =
     do {
       data \<leftarrow> rd_bytes 0 (unat (caplen h)) sp;
       Some (fp @ bytes32 (word_of_int (ts_sec h)) @ bytes32 (word_of_int (ts_usec h)) @
             bytes32 (caplen h) @ bytes32 (pcap_len h) @ data)
     }"

definition sr_log_packet :: "sr_instance \<Rightarrow> buf \<Rightarrow> int \<Rightarrow> sr_instance option" where
  "sr_log_packet sr b len =
     (case logfile sr of
        None \<Rightarrow> Some sr
      | Some fp \<Rightarrow>
          let size = (if PACKET_DUMP_SIZE < len then PACKET_DUMP_SIZE else len);
              h = \<lparr>ts_sec = clock sr, ts_usec = clock_usec sr, caplen = word_of_int size,
                   pcap_len = word_of_int (if size < PACKET_DUMP_SIZE then size else PACKET_DUMP_SIZE)\<rparr>
          in do {
            fp \<leftarrow> sr_dump fp h b;
            Some (sr\<lparr>logfile := Some fp\<rparr>)
          })"

section \<open>Sending a frame\<close>

abbreviation (input) VNSPACKET :: u32 where "VNSPACKET \<equiv> 4"
abbreviation (input) sizeof_c_packet_header :: nat where "sizeof_c_packet_header \<equiv> 24"

text \<open>\<open>strncpy\<close> into a \<open>char[n]\<close>: the bytes, padded with NUL.\<close>

definition strncpy_bytes :: "string \<Rightarrow> nat \<Rightarrow> buf" where
  "strncpy_bytes s n = map of_char (take n s) @ replicate (n - length s) 0"

definition sr_ether_addrs_match_interface :: "sr_instance \<Rightarrow> buf \<Rightarrow> string \<Rightarrow> bool option" where
  "sr_ether_addrs_match_interface sr b name =
     (case sr_get_interface (if_list sr) name of
        None \<Rightarrow> Some False
      | Some iface \<Rightarrow> do {
          shost \<leftarrow> rd_bytes ether_shost ETHER_ADDR_LEN b;
          addr \<leftarrow> rd_bytes 0 ETHER_ADDR_LEN (if_addr iface);
          Some (shost = addr)
        })"

definition sr_send_packet ::
  "sr_instance \<Rightarrow> buf \<Rightarrow> u32 \<Rightarrow> string \<Rightarrow> (int \<times> sr_instance) option" where
  "sr_send_packet sr b len iface =
     (let total_len = len + of_nat sizeof_c_packet_header
      in if unat len < sizeof_sr_ethernet_hdr then Some (-1, sr)
      else do {
        data \<leftarrow> rd_bytes 0 (unat len) b;
        let sr_pkt = bytes32 (htonl total_len) @ bytes32 (htonl VNSPACKET) @
                     strncpy_bytes iface 16 @ data;
        sr \<leftarrow> sr_log_packet sr b (sint len);
        ok \<leftarrow> sr_ether_addrs_match_interface sr b iface;
        if \<not> ok then Some (-1, sr)
        else
          let ret = sock_write sr (unat total_len);
              sr = (if ret = -1 then sr
                    else sr\<lparr>wire := wire sr @ [take (nat ret) (take (unat total_len) sr_pkt)]\<rparr>)
          in Some (if ret < int (unat total_len) then -1 else 0, sr)
      })"

section \<open>What sending does\<close>

text \<open>
  An operation that changes nothing but the log and the socket, and one that moreover hands the
  socket exactly the given messages.
\<close>

definition only_output :: "sr_instance \<Rightarrow> sr_instance \<Rightarrow> bool" where
  "only_output sr sr' \<longleftrightarrow> (\<exists>l w. sr' = sr\<lparr>logfile := l, wire := w\<rparr>)"

definition emits :: "sr_instance \<Rightarrow> sr_instance \<Rightarrow> buf list \<Rightarrow> bool" where
  "emits sr sr' msgs \<longleftrightarrow> (\<exists>l. sr' = sr\<lparr>logfile := l, wire := wire sr @ msgs\<rparr>)"

lemma only_outputI: "only_output sr (sr\<lparr>logfile := l, wire := w\<rparr>)"
  unfolding only_output_def by blast

lemma only_output_refl [simp]: "only_output sr sr"
  unfolding only_output_def by (rule exI [of _ "logfile sr"], rule exI [of _ "wire sr"]) simp

lemma only_output_trans:
  assumes "only_output a b" "only_output b c"
  shows "only_output a c"
proof -
  from assms obtain l w where "c = a\<lparr>logfile := l, wire := w\<rparr>" by (auto simp: only_output_def)
  then show ?thesis by (simp add: only_outputI)
qed

lemma only_output_same:
  assumes "only_output sr sr'"
  shows "if_list sr' = if_list sr" "routing_table sr' = routing_table sr" "cache sr' = cache sr"
    "nat_st sr' = nat_st sr" "nat_enabled sr' = nat_enabled sr" "clock sr' = clock sr"
    "sock_write sr' = sock_write sr"
  using assms by (auto simp: only_output_def)

lemma emits_only_output: "emits sr sr' msgs \<Longrightarrow> only_output sr sr'"
  by (auto simp: emits_def only_output_def)

lemma emits_refl [simp]: "emits sr sr []"
  unfolding emits_def by (rule exI [of _ "logfile sr"]) simp

lemma emits_trans: "emits a b xs \<Longrightarrow> emits b c ys \<Longrightarrow> emits a c (xs @ ys)"
  by (auto simp: emits_def)

lemma emits_wire: "emits sr sr' msgs \<Longrightarrow> wire sr' = wire sr @ msgs"
  by (auto simp: emits_def)

text \<open>The message of \<open>vnscommand.h\<close> that carries a frame.\<close>

definition vns_message :: "string \<Rightarrow> buf \<Rightarrow> buf" where
  "vns_message iface frame =
     bytes32 (htonl (of_nat (length frame) + 24)) @ bytes32 (htonl 4) @ strncpy_bytes iface 16 @ frame"

lemma length_strncpy_bytes [simp]: "length (strncpy_bytes s n) = n"
  by (simp add: strncpy_bytes_def)

lemma length_vns_message: "length (vns_message iface frame) = length frame + 24"
  by (simp add: vns_message_def)

lemma sr_log_packet_output:
  "sr_log_packet sr b len = Some sr' \<Longrightarrow> emits sr sr' []"
  by (auto simp: sr_log_packet_def emits_def Let_def Option.bind_eq_Some_conv
      split: option.splits if_splits intro: exI [of _ "logfile sr"])

lemma sr_log_packet_defined:
  assumes "0 \<le> len" "nat len \<le> length b"
  shows "\<exists>sr'. sr_log_packet sr b len = Some sr'"
proof (cases "logfile sr")
  case None
  then show ?thesis by (simp add: sr_log_packet_def)
next
  case (Some fp)
  define size where "size = (if 1024 < len then 1024 else len)"
  have "0 \<le> size" "size \<le> 1024" "nat size \<le> nat len" using assms(1) by (auto simp: size_def)
  then have "unat (word_of_int size :: u32) = nat size"
    by (simp add: unsigned_of_int take_bit_int_eq_self)
  then have "unat (word_of_int size :: u32) \<le> length b" using \<open>nat size \<le> nat len\<close> assms(2) by simp
  then show ?thesis
    by (simp add: sr_log_packet_def Some sr_dump_def size_def [symmetric] mem)
qed

lemma sr_send_packet_output:
  assumes "sr_send_packet sr b len iface = Some (r, sr')"
  shows "only_output sr sr'"
proof (cases "unat len < 14")
  case True
  then show ?thesis using assms by (simp add: sr_send_packet_def Let_def)
next
  case False
  with assms obtain sr1 where l: "sr_log_packet sr b (sint len) = Some sr1"
    and c: "sr' = sr1 \<or> (\<exists>w. sr' = sr1\<lparr>wire := w\<rparr>)"
    by (auto simp: sr_send_packet_def Let_def Option.bind_eq_Some_conv split: if_splits)
  have "only_output sr sr1" using l by (intro emits_only_output) (rule sr_log_packet_output)
  moreover have "only_output sr1 sr'"
    using c
  proof (elim disjE exE)
    fix w assume "sr' = sr1\<lparr>wire := w\<rparr>"
    then have "sr' = sr1\<lparr>logfile := logfile sr1, wire := w\<rparr>" by simp
    then show ?thesis unfolding only_output_def by blast
  qed simp
  ultimately show ?thesis by (rule only_output_trans)
qed

text \<open>
  A frame of at least 14 bytes whose source address is the interface's goes out as one message when
  the socket takes it; anything else is refused and nothing is sent.
\<close>

definition sock_ok :: "sr_instance \<Rightarrow> bool" where
  "sock_ok sr \<longleftrightarrow> sock_write sr = int"

definition frame_ok :: "sr_if list \<Rightarrow> buf \<Rightarrow> string \<Rightarrow> bool" where
  "frame_ok ifs frame iface \<longleftrightarrow>
     14 \<le> length frame \<and>
     (\<exists>i. sr_get_interface ifs iface = Some i \<and> length (if_addr i) = 6 \<and>
          take 6 (drop 6 frame) = if_addr i)"

lemma sint_small:
  assumes "unat (len :: u32) < 2 ^ 31"
  shows "sint len = int (unat len)"
proof -
  have u: "uint len = int (unat len)" by simp
  have "int (unat len) < 2 ^ 31" using assms of_nat_less_iff [of "unat len" "2 ^ 31", where ?'a = int] by simp
  then have "uint len < 2 ^ 31" by (simp only: u)
  moreover have "- (2 ^ 31) \<le> uint len" by (rule order_trans [OF _ uint_ge_0]) simp
  ultimately have "signed_take_bit 31 (uint len) = uint len" by (intro signed_take_bit_int_eq_self)
  then have "sint len = uint len" by (simp add: sint_uint)
  then show ?thesis by (rule trans [OF _ u])
qed

lemma sr_send_packet_frame:
  assumes "length frame = unat len" "unat len < 2 ^ 31" "sock_ok sr" "frame_ok (if_list sr) frame iface"
  shows "\<exists>sr'. sr_send_packet sr frame len iface = Some (0, sr') \<and> emits sr sr' [vns_message iface frame]"
proof -
  have len: "14 \<le> unat len" using assms(1,4) by (simp add: frame_ok_def)
  obtain i where i: "sr_get_interface (if_list sr) iface = Some i" "length (if_addr i) = 6"
    "take 6 (drop 6 frame) = if_addr i"
    using assms(4) by (auto simp: frame_ok_def)
  have nw: "unat (len + 24) = unat len + 24" using assms(2) by (simp add: unat_word_ariths)
  obtain sr1 where l: "sr_log_packet sr frame (sint len) = Some sr1"
    using sr_log_packet_defined [of "sint len" frame sr] assms(1) by (auto simp: sint_small [OF assms(2)])
  from sr_log_packet_output [OF l] obtain lf where sr1: "sr1 = sr\<lparr>logfile := lf\<rparr>"
    by (auto simp: emits_def)
  have m: "sr_ether_addrs_match_interface sr1 frame iface = Some True"
    using i assms(1) len by (simp add: sr1 sr_ether_addrs_match_interface_def mem)
  define msg where "msg = vns_message iface frame"
  have "of_nat (length frame) = len" using assms(1) by simp
  then have msg: "bytes32 (htonl (len + 24)) @ bytes32 (htonl 4) @ strncpy_bytes iface 16 @ frame = msg"
    and lm: "length msg = unat len + 24"
    using assms(1) by (simp_all add: msg_def vns_message_def)
  have "uint (len + 24) \<noteq> -1" using uint_ge_0 [of "len + 24"] by linarith
  then have "sr_send_packet sr frame len iface = Some (0, sr1\<lparr>wire := wire sr1 @ [msg]\<rparr>)"
    using len m assms(3) l lm
    by (simp add: sr_send_packet_def Let_def nw mem assms(1) msg sock_ok_def sr1)
  moreover have "emits sr (sr1\<lparr>wire := wire sr1 @ [msg]\<rparr>) [msg]"
    unfolding emits_def by (rule exI [of _ lf]) (simp add: sr1)
  ultimately show ?thesis unfolding msg_def by blast
qed

lemma sr_send_packet_mismatch:
  assumes "length frame = unat len" "unat len < 2 ^ 31" "14 \<le> length frame"
    "sr_get_interface (if_list sr) iface = Some i" "length (if_addr i) = 6" "take 6 (drop 6 frame) \<noteq> if_addr i"
  shows "\<exists>sr'. sr_send_packet sr frame len iface = Some (-1, sr') \<and> emits sr sr' []"
proof -
  obtain sr1 where l: "sr_log_packet sr frame (sint len) = Some sr1"
    using sr_log_packet_defined [of "sint len" frame sr] assms(1) by (auto simp: sint_small [OF assms(2)])
  note out = sr_log_packet_output [OF l]
  have "sr_ether_addrs_match_interface sr1 frame iface = Some False"
    using assms(3-6) only_output_same(1) [OF emits_only_output [OF out]]
    by (simp add: sr_ether_addrs_match_interface_def mem)
  then show ?thesis using out l assms(1,3) by (simp add: sr_send_packet_def Let_def mem)
qed

lemma sr_send_packet_refused:
  assumes "length frame = unat len" "unat len < 2 ^ 31"
    "unat len < 14 \<or> sr_get_interface (if_list sr) iface = None"
  shows "\<exists>sr'. sr_send_packet sr frame len iface = Some (-1, sr') \<and> emits sr sr' []"
proof (cases "unat len < 14")
  case True
  then show ?thesis by (auto simp: sr_send_packet_def Let_def)
next
  case False
  obtain sr1 where l: "sr_log_packet sr frame (sint len) = Some sr1"
    using sr_log_packet_defined [of "sint len" frame sr] assms(1) by (auto simp: sint_small [OF assms(2)])
  note out = sr_log_packet_output [OF l]
  have "sr_ether_addrs_match_interface sr1 frame iface = Some False"
    using assms(3) False only_output_same(1) [OF emits_only_output [OF out]]
    by (simp add: sr_ether_addrs_match_interface_def)
  then show ?thesis using out l assms(1) False by (simp add: sr_send_packet_def Let_def mem)
qed

end
