(* ===== verification/SR_Utils.thy ===== *)
theory SR_Utils
  imports SR_Protocol
begin

text \<open>
  \<open>sr_utils.c\<close>: the Internet checksum \<open>cksum\<close> and the private-address test \<open>is_private_ip\<close>.
  The checksum is proved equal to arithmetic modulo 65535 on the 16-bit big-endian sum of its data.
\<close>

section \<open>The checksum loop\<close>

text \<open>
  \<open>cksum_loop data len acc\<close> is the \<open>for\<close> loop of \<open>cksum\<close> and the odd byte after it: \<open>data\<close> is
  the memory from the data pointer on, \<open>len\<close> the C \<open>int\<close>, \<open>acc\<close> the 32-bit accumulator.
\<close>

fun cksum_loop :: "buf \<Rightarrow> int \<Rightarrow> u32 \<Rightarrow> u32 option" where
  "cksum_loop data len acc =
     (if 2 \<le> len then
        (case data of
           a # b # rest \<Rightarrow>
             cksum_loop rest (len - 2) (acc + (push_bit 8 (ucast a) OR ucast b))
         | _ \<Rightarrow> None)
      else if 0 < len then
        (case data of a # _ \<Rightarrow> Some (acc + push_bit 8 (ucast a)) | [] \<Rightarrow> None)
      else Some acc)"

declare cksum_loop.simps [simp del]

text \<open>The \<open>while\<close> loop that adds the carries back.\<close>

lemma carry_split:
  fixes n :: nat
  shows "n = (n div 65536 + n mod 65536) + 65535 * (n div 65536)"
    and "65535 < n \<Longrightarrow> 0 < n div 65536"
proof -
  have "n = 65536 * (n div 65536) + n mod 65536" by simp
  then show "n = (n div 65536 + n mod 65536) + 65535 * (n div 65536)" by linarith
  assume "65535 < n"
  then show "0 < n div 65536" by (simp add: div_greater_zero_iff)
qed

lemma cksum_fold_decreases:
  assumes "(0xffff :: u32) < acc"
  shows "unat (drop_bit 16 acc + (acc AND 0xffff)) = unat acc div 65536 + unat acc mod 65536"
    and "unat (drop_bit 16 acc + (acc AND 0xffff)) < unat acc"
proof -
  have m: "unat (acc AND 0xffff) = unat acc mod 65536"
    using take_bit_eq_mask [of 16 acc, symmetric]
    by (simp add: mask_eq_decr_exp take_bit_eq_mod unat_mod)
  have d: "unat (drop_bit 16 acc) = unat acc div 65536"
    by (simp add: drop_bit_eq_div unat_div)
  have b: "unat acc < 4294967296" using unsigned_less [of acc] by simp
  have g: "65535 < unat acc" using assms by (simp add: word_less_nat_alt)
  show e: "unat (drop_bit 16 acc + (acc AND 0xffff)) = unat acc div 65536 + unat acc mod 65536"
    using b by (simp add: unat_word_ariths m d)
  show "unat (drop_bit 16 acc + (acc AND 0xffff)) < unat acc"
    unfolding e using carry_split [of "unat acc"] g by linarith
qed

function cksum_fold :: "u32 \<Rightarrow> u32" where
  "cksum_fold acc =
     (if 0xffff < acc then cksum_fold (drop_bit 16 acc + (acc AND 0xffff)) else acc)"
  by pat_completeness auto
termination
  by (relation "measure unat") (auto simp only: in_measure wf_measure cksum_fold_decreases(2))

declare cksum_fold.simps [simp del]

definition cksum :: "buf \<Rightarrow> int \<Rightarrow> u16 option" where
  "cksum data len =
     do {
       acc \<leftarrow> cksum_loop data len 0;
       let acc = htons (ucast (NOT (cksum_fold acc)));
       Some (if acc \<noteq> 0 then acc else 0xffff)
     }"

section \<open>Private addresses\<close>

definition is_private_ip :: "u32 \<Rightarrow> bool" where
  "is_private_ip ip \<longleftrightarrow>
     ip AND 0xff000000 = 0x0a000000 \<or>
     ip AND 0xffff0000 = 0xac100000 \<or>
     ip AND 0xffff0000 = 0xc0a80000"

section \<open>What the checksum computes\<close>

text \<open>The sum of the data read as 16-bit big-endian numbers, an odd last byte padded with zero.\<close>

fun be16_sum :: "buf \<Rightarrow> nat" where
  "be16_sum [] = 0"
| "be16_sum [a] = 256 * unat a"
| "be16_sum (a # b # rest) = 256 * unat a + unat b + be16_sum rest"

lemma be16_sum_bound: "be16_sum xs \<le> 65535 * ((length xs + 1) div 2)"
proof (induction xs rule: be16_sum.induct)
  case (2 a)
  then show ?case using unat_u8 [of a] by simp
next
  case (3 a b rest)
  then show ?case using unat_u8 [of a] unat_u8 [of b] by simp
qed simp

lemma be16_sum_append: "even (length xs) \<Longrightarrow> be16_sum (xs @ ys) = be16_sum xs + be16_sum ys"
  by (induction xs rule: be16_sum.induct) auto

lemma unat_be_pair: "unat (push_bit 8 (ucast a) OR ucast b :: u32) = 256 * unat a + unat b"
  for a b :: u8
proof -
  have "push_bit 8 (ucast a) AND ucast b = (0 :: u32)"
    by (rule bit_word_eqI) (auto simp: bit_simps bit_u8_ge)
  then have "push_bit 8 (ucast a) OR ucast b = (push_bit 8 (ucast a) + ucast b :: u32)"
    by (simp add: disjunctive_add_eq_or)
  then show ?thesis
    using unat_u8 [of a] unat_u8 [of b] by (simp add: push_bit_eq_mult unat_word_ariths)
qed

lemma cksum_loop_sum:
  assumes "0 \<le> len" "nat len \<le> length data"
    and "unat acc + be16_sum (take (nat len) data) < 2 ^ 32"
  shows "\<exists>s. cksum_loop data len acc = Some s \<and>
           unat s = unat acc + be16_sum (take (nat len) data)"
  using assms
proof (induction data len acc rule: cksum_loop.induct)
  case (1 data len acc)
  consider "2 \<le> len" | "len = 1" | "len = 0" using 1(2) by linarith
  then show ?case
  proof cases
    case 1
    with "1.prems"(2) obtain a b rest where d: "data = a # b # rest"
      by (cases data; cases "tl data") auto
    define acc' where "acc' = acc + (push_bit 8 (ucast a) OR ucast b)"
    have n: "nat len = Suc (Suc (nat (len - 2)))" using 1 by simp
    have s: "be16_sum (take (nat len) data) = 256 * unat a + unat b + be16_sum (take (nat (len - 2)) rest)"
      by (simp add: n d)
    have acc': "unat acc' = unat acc + (256 * unat a + unat b)"
      using "1.prems"(3) unfolding s acc'_def by (simp add: unat_word_ariths unat_be_pair)
    have "\<exists>s. cksum_loop rest (len - 2) acc' = Some s \<and>
        unat s = unat acc' + be16_sum (take (nat (len - 2)) rest)"
      unfolding acc'_def
      by (rule "1.IH" [OF 1 d refl])
        (use 1 "1.prems" acc' s d n in \<open>auto simp: acc'_def\<close>)
    then show ?thesis
      by (simp add: d cksum_loop.simps [of "a # b # rest" len acc] 1 acc' s [unfolded d] add.assoc flip: acc'_def)
  next
    case 2
    with "1.prems"(2) obtain a rest where d: "data = a # rest" by (cases data) auto
    have "unat (push_bit 8 (ucast a) :: u32) = 256 * unat a"
      using unat_be_pair [of a 0] by simp
    with "1.prems"(3) show ?thesis
      by (simp add: d cksum_loop.simps [of "a # rest" 1 acc] 2 unat_word_ariths)
  next
    case 3
    then show ?thesis by (simp add: cksum_loop.simps [of data 0 acc])
  qed
qed

lemma cksum_fold_spec:
  "unat (cksum_fold s) \<le> 65535 \<and> unat (cksum_fold s) mod 65535 = unat s mod 65535 \<and>
   (cksum_fold s = 0 \<longleftrightarrow> s = 0)"
proof (induction s rule: cksum_fold.induct)
  case (1 s)
  show ?case
  proof (cases "0xffff < s")
    case True
    define t where "t = drop_bit 16 s + (s AND 0xffff)"
    have u: "unat t = unat s div 65536 + unat s mod 65536"
      unfolding t_def by (rule cksum_fold_decreases [OF True])
    have "unat s = unat t + 65535 * (unat s div 65536)"
      unfolding u by (rule carry_split)
    then have "unat t mod 65535 = unat s mod 65535" by (metis mod_mult_self2)
    moreover have "t \<noteq> 0"
    proof -
      have "65535 < unat s" using True by (simp add: word_less_nat_alt)
      then have "0 < unat t" unfolding u using carry_split(2) [of "unat s"] by linarith
      then show ?thesis by auto
    qed
    moreover have "s \<noteq> 0" using True by auto
    ultimately show ?thesis
      using "1.IH" [OF True] True by (simp add: cksum_fold.simps [of s] flip: t_def)
  next
    case False
    then show ?thesis by (simp add: cksum_fold.simps [of s] word_less_nat_alt)
  qed
qed

lemma cksum_value:
  assumes "0 \<le> len" "nat len \<le> length data" "len \<le> 131072"
  shows "\<exists>c. cksum data len = Some c \<and>
           unat (ntohs c) = 65535 - be16_sum (take (nat len) data) mod 65535"
proof -
  let ?S = "be16_sum (take (nat len) data)"
  have "?S \<le> 65535 * ((nat len + 1) div 2)"
    using be16_sum_bound [of "take (nat len) data"] assms(2) by (simp add: min_absorb2)
  also have "\<dots> \<le> 65535 * 65536" using assms(1,3) by (intro mult_le_mono) auto
  finally have "?S < 2 ^ 32" by simp
  then obtain s where s: "cksum_loop data len 0 = Some s" "unat s = ?S"
    using cksum_loop_sum [OF assms(1,2), of 0] by auto
  define f where "f = cksum_fold s"
  note f = cksum_fold_spec [of s, folded f_def]
  have "ucast (NOT f) = NOT (ucast f :: u16)"
    by (rule bit_word_eqI) (auto simp: bit_simps)
  also have "\<dots> = - 1 - ucast f" by (simp add: not_eq_complement)
  finally have "unat (ucast (NOT f) :: u16) = 65535 - unat (ucast f :: u16)"
    by (simp add: unat_sub unsigned_minus_1_eq_mask mask_eq_exp_minus_1)
  moreover have "unat (ucast f :: u16) = unat f"
    using f by (simp add: unsigned_ucast_eq take_bit_nat_eq_self)
  ultimately have n: "unat (ucast (NOT f) :: u16) = 65535 - unat f" by simp
  have z: "htons w = 0 \<longleftrightarrow> unat w = 0" for w
    using htons_inject [of w 0] by (simp add: htons_zero unsigned_eq_0_iff)
  have c: "cksum data len =
      Some (if unat f = 65535 then 0xffff else htons (ucast (NOT f)))"
    using f by (auto simp: cksum_def s Let_def z n simp flip: f_def)
  have m: "?S mod 65535 = (if unat f = 65535 then 0 else unat f)"
    using f s by auto
  show ?thesis
    using f unfolding c m by (auto simp: n ntohs_ffff)
qed

lemma cksum_nonzero: "cksum data len = Some c \<Longrightarrow> c \<noteq> 0"
  by (auto simp: cksum_def Option.bind_eq_Some_conv Let_def split: if_splits)

text \<open>The loop leaves its buffer exactly when the length it is given does.\<close>

lemma cksum_loop_None: "cksum_loop data len acc = None \<longleftrightarrow> length data < nat len"
proof (induction data len acc rule: cksum_loop.induct)
  case (1 data len acc)
  show ?case
  proof (cases "2 \<le> len")
    case True
    then have n: "nat len = Suc (Suc (nat (len - 2)))" by simp
    from True "1.IH" show ?thesis
      by (subst cksum_loop.simps) (auto simp: n split: list.split)
  next
    case False
    then have "nat len = (if 0 < len then 1 else 0)" by (cases "len = 1") auto
    with False show ?thesis
      by (subst cksum_loop.simps) (auto split: list.split)
  qed
qed

lemma cksum_None: "cksum data len = None \<longleftrightarrow> length data < nat len"
  by (simp add: cksum_def Let_def cksum_loop_None Option.bind_eq_None_conv)

lemma cksum_Some: "nat len \<le> length data \<Longrightarrow> \<exists>c. cksum data len = Some c"
  using cksum_None [of data len] by (cases "cksum data len") auto

text \<open>Only the bytes inside the given length matter.\<close>

lemma cksum_loop_take: "cksum_loop (take (nat len) data) len acc = cksum_loop data len acc"
proof (induction data len acc rule: cksum_loop.induct)
  case (1 data len acc)
  show ?case
  proof (cases "2 \<le> len")
    case True
    then have n: "nat len = Suc (Suc (nat (len - 2)))" by simp
    from True "1.IH" show ?thesis
      by (subst (1 2) cksum_loop.simps) (auto simp: n split: list.split)
  next
    case False
    then have "nat len = (if 0 < len then 1 else 0)" by (cases "len = 1") auto
    with False show ?thesis
      by (subst (1 2) cksum_loop.simps) (auto split: list.split)
  qed
qed

lemma cksum_take: "cksum (take (nat len) data) len = cksum data len"
  by (simp add: cksum_def cksum_loop_take)

section \<open>Checksums stored in headers\<close>

text \<open>
  Storing \<open>c\<close> at an even offset of a header adds \<open>ntohs c\<close> to its big-endian sum, so a header
  whose checksum field was computed by \<open>cksum\<close> over the header with a zero field sums to a
  multiple of 65535: the receiver's test of RFC 1071.
\<close>

lemma be16_sum_split:
  assumes "even off" "off + 2 \<le> length b"
  shows "be16_sum b = be16_sum (take off b) + (256 * unat (b ! off) + unat (b ! (off + 1))) +
           be16_sum (drop (off + 2) b)"
proof -
  have "b = take off b @ [b ! off, b ! (off + 1)] @ drop (off + 2) b"
    using assms(2) by (simp add: Cons_nth_drop_Suc)
  then have "be16_sum b = be16_sum (take off b @ [b ! off, b ! (off + 1)] @ drop (off + 2) b)"
    by simp
  also have "\<dots> = be16_sum (take off b) + (256 * unat (b ! off) + unat (b ! (off + 1))) +
           be16_sum (drop (off + 2) b)"
    using assms by (simp add: be16_sum_append)
  finally show ?thesis .
qed

lemma unat_ntohs_bytes: "256 * unat (byte 0 c) + unat (byte (Suc 0) c) = unat (ntohs c)"
  by (simp add: ntohs_def htons_def unat_le16)

lemma be16_sum_wr16:
  assumes "even off" "wr16 off c b = Some b'" "rd16 off b = Some v"
  shows "be16_sum b' + unat (ntohs v) = be16_sum b + unat (ntohs c)"
proof -
  have len: "off + 2 \<le> length b" "length b' = length b"
    using assms(2) by (auto simp: wr16_def split: if_splits)
  have b': "b' ! off = byte 0 c" "b' ! Suc off = byte (Suc 0) c"
    using assms(2) by (auto simp: wr16_def split: if_splits)
  have b: "b ! off = byte 0 v" "b ! Suc off = byte (Suc 0) v"
    using assms(3) by (auto simp: rd16_def split: if_splits)
  show ?thesis
    using be16_sum_split [of off b] be16_sum_split [of off b'] assms(1) len
      f16.put_outside [OF assms(2)]
    by (simp add: b b' flip: unat_ntohs_bytes)
qed

lemma fill_to_65535:
  fixes n :: nat
  shows "n + (65535 - n mod 65535) = 65535 * (n div 65535 + 1)"
proof -
  obtain q r where q: "q = n div 65535" and r: "r = n mod 65535" by blast
  have "r < 65535" by (simp add: r)
  moreover have "n = 65535 * q + r" by (simp add: q r)
  ultimately have "n + (65535 - r) = 65535 * (q + 1)" by simp
  then show ?thesis by (simp only: q r)
qed

lemma cksum_stored:
  assumes "even off" "length b \<le> 131072"
    and z: "wr16 off 0 b = Some b0" and c: "cksum b0 (int (length b)) = Some c"
    and w: "wr16 off c b0 = Some b'"
  shows "be16_sum b' mod 65535 = 0"
proof -
  have len: "length b0 = length b" using f16.put_length [OF z] .
  obtain c' where "cksum b0 (int (length b)) = Some c'"
    "unat (ntohs c') = 65535 - be16_sum (take (nat (int (length b))) b0) mod 65535"
    using cksum_value [of "int (length b)" b0] assms(2) len by auto
  with c len have "unat (ntohs c) = 65535 - be16_sum b0 mod 65535" by simp
  moreover have "be16_sum b' + unat (ntohs 0) = be16_sum b0 + unat (ntohs c)"
    by (rule be16_sum_wr16 [OF assms(1) w]) (rule f16.put_get [OF z])
  ultimately have "be16_sum b' = be16_sum b0 + (65535 - be16_sum b0 mod 65535)"
    by (simp add: ntohs_def)
  also have "\<dots> = 65535 * (be16_sum b0 div 65535 + 1)"
    by (rule fill_to_65535)
  finally show ?thesis by simp
qed

text \<open>A byte string with a valid Internet checksum somewhere in it.\<close>

definition valid_sum :: "buf \<Rightarrow> bool" where
  "valid_sum b \<longleftrightarrow> be16_sum b mod 65535 = 0"

text \<open>The same inside a packet: a header of \<open>len\<close> bytes at \<open>base\<close> with its field at \<open>base + off\<close>.\<close>

lemma wr16_slice:
  assumes "off + 2 \<le> n" "base + n \<le> length p" "wr16 (base + off) c p = Some p'"
  shows "wr16 off c (take n (drop base p)) = Some (take n (drop base p'))"
proof -
  have "p' = p[base + off := byte 0 c, Suc (base + off) := byte (Suc 0) c]"
    using assms(3) by (auto simp: wr16_def split: if_splits)
  then have "take n (drop base p') = (take n (drop base p))[off := byte 0 c, Suc off := byte (Suc 0) c]"
    by (simp add: drop_update_swap take_update_swap)
  then show ?thesis using assms(1,2) by (simp add: wr16_def)
qed

lemma rd16_slice:
  assumes "off + 2 \<le> n" "base + n \<le> length p"
  shows "rd16 off (take n (drop base p)) = rd16 (base + off) p"
  using assms by (simp add: rd16_def)

lemma cksum_stored_at:
  assumes "even off" "off + 2 \<le> n" "n \<le> 131072" "base + n \<le> length p"
    and z: "rd16 (base + off) p = Some 0" and c: "cksum (drop base p) (int n) = Some c"
    and w: "wr16 (base + off) c p = Some p'"
  shows "valid_sum (take n (drop base p'))"
proof -
  let ?b = "take n (drop base p)"
  have len: "length ?b = n" using assms(4) by simp
  have "rd16 off ?b = Some 0" using z assms(2,4) by (simp add: rd16_slice)
  then have z': "wr16 off 0 ?b = Some ?b" by (rule f16.get_put)
  have c': "cksum ?b (int (length ?b)) = Some c"
    using c cksum_take [of "int n" "drop base p"] unfolding len by simp
  have w': "wr16 off c ?b = Some (take n (drop base p'))"
    using assms(2,4) w by (rule wr16_slice)
  have "length ?b \<le> 131072" unfolding len by (rule assms(3))
  from cksum_stored [OF assms(1) this z' c' w'] show ?thesis unfolding valid_sum_def .
qed

lemma cksum_stored_0:
  assumes "even off" "off + 2 \<le> n" "n \<le> 131072" "n \<le> length p"
    and "rd16 off p = Some 0" "cksum p (int n) = Some c" "wr16 off c p = Some p'"
  shows "valid_sum (take n p')"
  using cksum_stored_at [of off n 0 p c p'] assms by simp

text \<open>
  The receiver's test, which recomputes the checksum over the header with a zero field and compares:
  it accepts the valid headers, except those whose checksum field is zero (\<open>cksum\<close> returns
  \<open>0xffff\<close> in the place of zero).
\<close>

lemma complement_unique:
  fixes s v :: nat
  assumes "0 < v" "v \<le> 65535"
  shows "(s + v) mod 65535 = 0 \<longleftrightarrow> v = 65535 - s mod 65535"
proof -
  define m :: nat where "m = 65535"
  have m: "0 < m" "v \<le> m" using assms(2) by (simp_all add: m_def)
  have r: "s mod m < m" using m(1) by simp
  have "(s + v) mod m = (s mod m + v) mod m" by (rule mod_add_left_eq [symmetric])
  moreover have "(s mod m + v) mod m = 0 \<longleftrightarrow> s mod m + v = m"
  proof
    assume "(s mod m + v) mod m = 0"
    then obtain k where k: "s mod m + v = m * k" by auto
    have "m * k < m * 2" "0 < m * k" using r m assms(1) k by linarith+
    then have "k = 1" by simp
    with k show "s mod m + v = m" by simp
  qed simp
  ultimately have "(s + v) mod m = 0 \<longleftrightarrow> v = m - s mod m" using r by linarith
  then show ?thesis by (simp only: m_def)
qed

lemma cksum_check:
  assumes "even off" "off + 2 \<le> n" "n \<le> 131072" "n \<le> length p"
    and v: "rd16 off p = Some v" and z: "wr16 off 0 p = Some p0" and c: "cksum p0 (int n) = Some c"
  shows "c = v \<longleftrightarrow> v \<noteq> 0 \<and> valid_sum (take n p)"
proof (cases "v = 0")
  case True
  then show ?thesis using cksum_nonzero [OF c] by simp
next
  case False
  have len: "length p0 = length p" using f16.put_length [OF z] .
  have b0: "wr16 off 0 (take n p) = Some (take n p0)"
    using wr16_slice [of off n 0 p 0 p0] assms(2,4) z by simp
  have bv: "rd16 off (take n p) = Some v"
    using rd16_slice [of off n 0 p] assms(2,4) v by simp
  have s: "be16_sum (take n p0) + unat (ntohs v) = be16_sum (take n p)"
    using be16_sum_wr16 [OF assms(1) b0 bv] by (simp add: ntohs_def)
  obtain c' where c': "cksum p0 (int n) = Some c'"
    "unat (ntohs c') = 65535 - be16_sum (take n p0) mod 65535"
    using cksum_value [of "int n" p0] assms(3,4) len by auto
  have "ntohs v \<noteq> 0" using False by (metis htons_zero ntohs_htons(2))
  then have pos: "0 < unat (ntohs v)" by (simp add: unat_gt_0)
  have "unat (ntohs v) \<le> 65535" using unat_u16 [of "ntohs v"] by simp
  from complement_unique [OF pos this, of "be16_sum (take n p0)"]
  have "valid_sum (take n p) \<longleftrightarrow> unat (ntohs v) = unat (ntohs c)"
    using c c' s by (simp add: valid_sum_def)
  also have "\<dots> \<longleftrightarrow> c = v" by (metis ntohs_htons(2) word_unat_eq_iff)
  finally show ?thesis using False by simp
qed

section \<open>What \<open>is_private_ip\<close> accepts\<close>

lemma le32_masks:
  "le32 d c b a AND 0xff000000 = le32 0 0 0 a"
  "le32 d c b a AND 0xffff0000 = le32 0 0 b a"
proof -
  have m: "(0xff000000 :: u32) = push_bit 24 (mask 8)" "(0xffff0000 :: u32) = push_bit 16 (mask 16)"
    by (simp_all add: mask_eq_decr_exp)
  show "le32 d c b a AND 0xff000000 = le32 0 0 0 a" "le32 d c b a AND 0xffff0000 = le32 0 0 b a"
    unfolding m le32_def
    by (rule bit_word_eqI; auto simp: bit_simps bit_u8_ge)+
qed

lemma private_prefixes:
  "(0x0a000000 :: u32) = le32 0 0 0 10" "(0xac100000 :: u32) = le32 0 0 16 172"
  "(0xc0a80000 :: u32) = le32 0 0 168 192"
  by (simp_all add: le32_def)

lemma is_private_ip_octets:
  "is_private_ip (le32 d c b a) \<longleftrightarrow> a = 10 \<or> (a = 172 \<and> b = 16) \<or> (a = 192 \<and> b = 168)"
  unfolding is_private_ip_def le32_masks private_prefixes by auto

end
