(* ===== verification/SR_Packets.thy ===== *)
theory SR_Packets
  imports SR_Instance SR_Utils
begin

text \<open>
  The functions of \<open>sr_router.c\<close> that build packets: Ethernet frames, ARP packets, IP packets and
  ICMP messages.
\<close>

section \<open>Construction\<close>

definition sr_create_etherframe :: "u32 \<Rightarrow> buf \<Rightarrow> buf \<Rightarrow> buf \<Rightarrow> u16 \<Rightarrow> buf option" where
  "sr_create_etherframe load_len load dest_ether_addr source_ether_addr type =
     do {
       d \<leftarrow> rd_bytes 0 ETHER_ADDR_LEN dest_ether_addr;
       s \<leftarrow> rd_bytes 0 ETHER_ADDR_LEN source_ether_addr;
       l \<leftarrow> rd_bytes 0 (unat load_len) load;
       Some (d @ s @ bytes16 (htons type) @ l)
     }"

text \<open>The packet comes from \<open>calloc\<close>: a request leaves the target hardware address zero.\<close>

definition sr_create_arppacket :: "u16 \<Rightarrow> buf \<Rightarrow> u32 \<Rightarrow> buf \<Rightarrow> u32 \<Rightarrow> (u32 \<times> buf) option" where
  "sr_create_arppacket arp_type source_ether_addr source_ip_addr dest_ether_addr dest_ip_addr =
     do {
       sha \<leftarrow> rd_bytes 0 ETHER_ADDR_LEN source_ether_addr;
       tha \<leftarrow> (if arp_type = arp_op_reply then rd_bytes 0 ETHER_ADDR_LEN dest_ether_addr
              else Some (replicate ETHER_ADDR_LEN 0));
       Some (of_nat sizeof_sr_arp_packet,
             bytes16 (htons arp_hrd_ethernet) @ bytes16 (htons arp_pro_ip) @
             [of_nat ETHER_ADDR_LEN, IP_ADDR_LEN] @ bytes16 (htons arp_type) @
             sha @ bytes32 source_ip_addr @ tha @ bytes32 dest_ip_addr)
     }"

text \<open>
  The header's first byte holds \<open>ip_hl\<close> in its low and \<open>ip_v\<close> in its high nibble; the fields the
  code does not assign are zero from \<open>calloc\<close>.
\<close>

definition ip_header_for :: "u16 \<Rightarrow> u8 \<Rightarrow> u32 \<Rightarrow> u32 \<Rightarrow> buf" where
  "ip_header_for len protocol source_ip dest_ip =
     [push_bit 4 IPV4_VERSION OR DEFAULT_HDRLEN, 0] @ bytes16 (htons len) @ [0, 0, 0, 0] @
     [DEFAULT_TTL, protocol, 0, 0] @ bytes32 source_ip @ bytes32 dest_ip"

definition sr_create_ippacket :: "u32 \<Rightarrow> buf \<Rightarrow> u8 \<Rightarrow> u32 \<Rightarrow> u32 \<Rightarrow> buf option" where
  "sr_create_ippacket load_len load protocol source_ip dest_ip =
     (let packet = ip_header_for (ucast (of_nat sizeof_sr_ip_hdr + load_len)) protocol source_ip dest_ip
      in do {
        c \<leftarrow> cksum packet (int sizeof_sr_ip_hdr);
        packet \<leftarrow> wr16 ip_sum c packet;
        l \<leftarrow> rd_bytes 0 (unat load_len) load;
        Some (packet @ l)
      })"

definition sr_create_icmppacket :: "buf \<Rightarrow> u8 \<Rightarrow> u8 \<Rightarrow> (u32 \<times> buf) option" where
  "sr_create_icmppacket data type code =
     do {
       (len, icmp_packet) \<leftarrow>
         (if type \<noteq> icmp_type_echoreply then do {
            d \<leftarrow> rd_bytes 0 ICMP_DATA_SIZE data;
            Some (of_nat sizeof_sr_icmp_packet, [type, code, 0, 0] @ bytes16 0 @ bytes16 0 @ d)
          } else do {
            total \<leftarrow> rd16 ip_len data;
            let data_len = ucast (ntohs total) - of_nat sizeof_sr_ip_hdr - of_nat sizeof_sr_icmp_hdr;
            ident \<leftarrow> rd16 (sizeof_sr_ip_hdr + icmp_ident) data;
            seq \<leftarrow> rd16 (sizeof_sr_ip_hdr + icmp_seq_num) data;
            d \<leftarrow> rd_bytes (sizeof_sr_ip_hdr + sizeof_sr_icmp_hdr) (unat data_len) data;
            Some (of_nat sizeof_sr_icmp_hdr + data_len,
                  [type, code, 0, 0] @ bytes16 ident @ bytes16 seq @ d)
          });
       c \<leftarrow> cksum icmp_packet (sint len);
       icmp_packet \<leftarrow> wr16 icmp_sum c icmp_packet;
       Some (len, icmp_packet)
     }"

section \<open>What is built\<close>

lemma length_ip_header_for [simp]: "length (ip_header_for l p s d) = 20"
  by (simp add: ip_header_for_def)

lemma sr_create_etherframe_Some:
  assumes "length d = 6" "length s = 6" "length load = unat load_len"
  shows "sr_create_etherframe load_len load d s type = Some (d @ s @ bytes16 (htons type) @ load)"
  using assms by (simp add: sr_create_etherframe_def mem)

lemma sr_create_etherframe_None:
  "sr_create_etherframe load_len load d s type = None \<longleftrightarrow>
     length d < 6 \<or> length s < 6 \<or> length load < unat load_len"
  by (auto simp: sr_create_etherframe_def rd_bytes_def)

text \<open>Reading a frame back gives its parts.\<close>

lemma etherframe_fields:
  assumes "length d = 6" "length s = 6"
  shows "rd_bytes ether_dhost 6 (d @ s @ bytes16 (htons type) @ load) = Some d"
    "rd_bytes ether_shost 6 (d @ s @ bytes16 (htons type) @ load) = Some s"
    "rd16 ether_type (d @ s @ bytes16 (htons type) @ load) = Some (htons type)"
    "drop 14 (d @ s @ bytes16 (htons type) @ load) = load"
  using assms by (simp_all add: rd_bytes_def rd16_def nth_append bytes16_def)

lemma sr_create_arppacket_Some:
  assumes "length sha = 6" "length tha = 6"
  shows "sr_create_arppacket op sha sip tha tip =
    Some (28, bytes16 (htons 1) @ bytes16 (htons 0x800) @ [6, 4] @ bytes16 (htons op) @ sha @ bytes32 sip @
              (if op = arp_op_reply then tha else [0, 0, 0, 0, 0, 0]) @ bytes32 tip)"
  using assms by (simp add: sr_create_arppacket_def mem numeral_eq_Suc)

text \<open>
  An IP packet is a 20-byte header whose checksum is valid, followed by the load, with the addresses
  and protocol it was asked for.
\<close>

lemma sr_create_ippacket_Some:
  assumes "unat load_len \<le> length load"
  shows "\<exists>p. sr_create_ippacket load_len load protocol src dst = Some p \<and>
    length p = 20 + unat load_len \<and> drop 20 p = take (unat load_len) load \<and>
    valid_sum (take 20 p) \<and> ip_hl p = Some 5 \<and> rd16 ip_len p = Some (htons (ucast (20 + load_len))) \<and>
    rd8 ip_ttl p = Some 64 \<and> rd8 ip_p p = Some protocol \<and>
    rd32 ip_src p = Some src \<and> rd32 ip_dst p = Some dst"
proof -
  let ?h = "ip_header_for (ucast (20 + load_len)) protocol src dst"
  obtain c where c: "cksum ?h 20 = Some c" using cksum_Some [of 20 ?h] by auto
  obtain h where h: "wr16 10 c ?h = Some h" using f16.put_total [of 10 ?h c] by auto
  let ?p = "h @ take (unat load_len) load"
  have len: "length h = 20" using f16.put_length [OF h] by simp
  have hs: "h = ?h[10 := byte 0 c, 11 := byte (Suc 0) c]"
    using h by (simp add: wr16_def split: if_splits)
  have "rd16 10 ?h = Some 0"
    by (simp add: rd16_def ip_header_for_def bytes16_def bytes32_def le16_def)
  from cksum_stored_0 [OF _ _ _ _ this _ h, of 20] c have sum: "valid_sum h" by (simp add: len)
  have "sr_create_ippacket load_len load protocol src dst = Some ?p"
    using c h assms by (simp add: sr_create_ippacket_def Let_def mem)
  moreover have "ip_hl ?p = Some 5" "rd16 ip_len ?p = Some (htons (ucast (20 + load_len)))"
    "rd8 ip_ttl ?p = Some 64" "rd8 ip_p ?p = Some protocol"
    "rd32 ip_src ?p = Some src" "rd32 ip_dst ?p = Some dst"
    by (simp_all add: ip_hl_def rd8_def rd16_def rd32_def hs ip_header_for_def bytes16_def bytes32_def)
  ultimately show ?thesis using assms sum by (intro exI [of _ ?p]) (simp add: len)
qed

text \<open>An ICMP error carries the first 28 bytes of the packet it is about; reading them can fail.\<close>

lemma sr_create_icmppacket_error:
  assumes "type \<noteq> 0" "28 \<le> length data"
  shows "\<exists>m. sr_create_icmppacket data type code = Some (36, m) \<and> length m = 36 \<and> valid_sum m \<and>
    rd8 icmp_type m = Some type \<and> rd8 icmp_code m = Some code \<and> drop 4 m = [0, 0, 0, 0] @ take 28 data"
proof -
  let ?m = "[type, code, 0, 0] @ bytes16 0 @ bytes16 0 @ take 28 data"
  have len: "length ?m = 36" using assms(2) by simp
  obtain c where c: "cksum ?m 36 = Some c" using cksum_Some [of 36 ?m] len assms(2) by auto
  obtain m where m: "wr16 2 c ?m = Some m" using f16.put_total [of 2 ?m c] len by auto
  have lm: "length m = 36" using f16.put_length [OF m] len by simp
  have ms: "m = ?m[2 := byte 0 c, 3 := byte (Suc 0) c]"
    using m by (simp add: wr16_def split: if_splits)
  have "rd16 2 ?m = Some 0" by (simp add: rd16_def le16_def)
  from cksum_stored_0 [OF _ _ _ _ this _ m, of 36] c len have sum: "valid_sum m" by (simp add: lm)
  have "sr_create_icmppacket data type code = Some (36, m)"
    using assms c m by (simp add: sr_create_icmppacket_def mem)
  moreover have "rd8 icmp_type m = Some type" "rd8 icmp_code m = Some code"
    "drop 4 m = [0, 0, 0, 0] @ take 28 data"
    by (simp_all add: rd8_def ms bytes16_def byte_def)
  ultimately show ?thesis using lm sum by blast
qed

lemma sr_create_icmppacket_short:
  "type \<noteq> 0 \<Longrightarrow> length data < 28 \<Longrightarrow> sr_create_icmppacket data type code = None"
  by (simp add: sr_create_icmppacket_def rd_None)

text \<open>
  An echo reply repeats the identifier, sequence number and data of the request, whose length comes
  from the IP header; a total length below 28 makes the length wrap around.
\<close>

lemma drop_four:
  "k + 4 \<le> length xs \<Longrightarrow>
     drop k xs = xs ! k # xs ! Suc k # xs ! (k + 2) # xs ! (k + 3) # drop (k + 4) xs"
  by (simp add: Cons_nth_drop_Suc eval_nat_numeral)

lemma sr_create_icmppacket_echo:
  assumes v: "rd16 ip_len data = Some v" and n: "unat (ntohs v) = n + 28" "n + 28 \<le> length data"
  shows "\<exists>m. sr_create_icmppacket data 0 code = Some (of_nat n + 8, m) \<and>
    length m = n + 8 \<and> valid_sum m \<and>
    rd8 icmp_type m = Some 0 \<and> rd8 icmp_code m = Some code \<and> drop 4 m = take (n + 4) (drop 24 data)"
proof -
  have small: "n \<le> 65507" using n(1) unat_u16 [of "ntohs v"] by simp
  have "ucast (ntohs v) = (of_nat (n + 28) :: u32)"
    using small n(1) by (simp add: word_unat_eq_iff unat_word_ariths unat_of_nat)
  then have dl: "ucast (ntohs v) = (of_nat n + 28 :: u32)" by simp
  have un1: "unat (of_nat n :: u32) = n" using small by (simp add: unat_of_nat)
  have un2: "unat (of_nat (n + 8) :: u32) = n + 8" using small by (simp add: unat_of_nat del: of_nat_add)
  have "sint (of_nat (n + 8) :: u32) = int (n + 8)"
    using small sint_small [of "of_nat (n + 8)", unfolded un2] by simp
  then have un: "unat (of_nat n :: u32) = n" "sint (of_nat n + 8 :: u32) = int (n + 8)"
    and un': "sint (8 + of_nat n :: u32) = int (n + 8)"
    by (simp_all add: un1 add.commute)
  define i q where "i = le16 (data ! 24) (data ! 25)" and "q = le16 (data ! 26) (data ! 27)"
  have rd: "rd16 24 data = Some i" "rd16 26 data = Some q" "rd_bytes 28 n data = Some (take n (drop 28 data))"
    using n(2) by (simp_all add: mem i_def q_def)
  let ?m = "[0, code, 0, 0] @ bytes16 i @ bytes16 q @ take n (drop 28 data)"
  have len: "length ?m = n + 8" using n(2) by simp
  have body: "bytes16 i @ bytes16 q @ take n (drop 28 data) = take (n + 4) (drop 24 data)"
    using drop_four [of 24 data] n(2)
    by (simp add: i_def q_def bytes16_def take_Cons' numeral_eq_Suc)
  obtain c where c: "cksum ?m (int (n + 8)) = Some c" using cksum_Some [of "int (n + 8)" ?m] unfolding len nat_int by blast
  obtain m where m: "wr16 2 c ?m = Some m" using f16.put_total [of 2 ?m c] len by auto
  have lm: "length m = n + 8" using f16.put_length [OF m] len by simp
  have ms: "m = ?m[2 := byte 0 c, 3 := byte (Suc 0) c]"
    using m by (simp add: wr16_def split: if_splits)
  have "rd16 2 ?m = Some 0" by (simp add: rd16_def le16_def)
  from cksum_stored_0 [OF _ _ _ _ this c m] small have "valid_sum (take (n + 8) m)"
    unfolding len by simp
  then have sum: "valid_sum m" by (simp add: lm)
  have "sr_create_icmppacket data 0 code = Some (of_nat n + 8, m)"
    using v rd c m by (simp add: sr_create_icmppacket_def dl un un' Let_def add.commute)
  moreover have "rd8 icmp_type m = Some 0" "rd8 icmp_code m = Some code" "drop 4 m = take (n + 4) (drop 24 data)"
    using body by (simp_all add: rd8_def ms)
  ultimately show ?thesis using lm sum by blast
qed

lemma sr_create_icmppacket_underflow:
  assumes v: "rd16 ip_len data = Some v" and short: "unat (ntohs v) < 28" and "length data < 2 ^ 31"
  shows "sr_create_icmppacket data 0 code = None"
proof -
  have "unat (ucast (ntohs v) - 20 - 8 :: u32) = 2 ^ 32 - 28 + unat (ntohs v)"
  proof -
    have "ucast (ntohs v) - 20 - 8 = (ucast (ntohs v) - 28 :: u32)" by simp
    also have "unat \<dots> = 2 ^ 32 - 28 + unat (ntohs v)"
      using short by (simp add: unat_sub_if' unat_word_ariths word_le_nat_alt)
    finally show ?thesis .
  qed
  then have "rd_bytes 28 (unat (ucast (ntohs v) - 20 - 8 :: u32)) data = None"
    using assms(3) by (intro rd_None) simp
  then show ?thesis using v by (auto simp: sr_create_icmppacket_def Option.bind_eq_None_conv Let_def)
qed

lemma sr_create_icmppacket_len:
  assumes "sr_create_icmppacket data type code = Some (len, m)" "length data + 14 < 2 ^ 31"
  shows "len + 20 \<noteq> 0 \<and> unat (len + 20) + 14 < 2 ^ 31"
proof (cases "type = 0")
  case False
  then have "len = 36" using assms(1) by (auto simp: sr_create_icmppacket_def Option.bind_eq_Some_conv)
  then show ?thesis by simp
next
  case True
  then obtain v b where len: "len = ucast (ntohs v) - 20"
    and b: "rd_bytes 28 (unat (ucast (ntohs v) - 28 :: u32)) data = Some b"
    using assms(1) by (auto simp: sr_create_icmppacket_def Option.bind_eq_Some_conv Let_def)
  define d :: u32 where "d = ucast (ntohs v) - 28"
  have d: "unat d + 28 + 14 < 2 ^ 31"
    using b assms(2) unfolding d_def [symmetric] by (auto simp: rd_bytes_def split: if_splits)
  then have "unat (d + 28) = unat d + 28" by (simp add: unat_word_ariths)
  then have "d + 28 \<noteq> 0" "unat (d + 28) + 14 < 2 ^ 31"
    using d by (metis add_is_0 unsigned_0 zero_neq_numeral, simp)
  moreover have "len + 20 = d + 28" by (simp add: len d_def)
  ultimately show ?thesis by metis
qed

end
