(* ===== verification/SR_Forward.thy ===== *)
theory SR_Forward
  imports SR_Packets
begin

text \<open>
  The functions of \<open>sr_router.c\<close> that send: \<open>sr_send_arp\<close>, \<open>sr_send_icmp\<close> and
  \<open>sr_forward_ippacket\<close>.  The result of \<open>sr_send_packet\<close> is only printed by its callers.
\<close>

section \<open>Operations\<close>

definition sr_send_arp :: "sr_instance \<Rightarrow> string \<Rightarrow> u16 \<Rightarrow> buf \<Rightarrow> u32 \<Rightarrow> sr_instance option" where
  "sr_send_arp sr interface arp_type dest_ether_addr dest_ip_addr =
     do {
       interface_info \<leftarrow> sr_get_interface (if_list sr) interface;
       source_ether_addr \<leftarrow> rd_bytes 0 ETHER_ADDR_LEN (if_addr interface_info);
       let source_ip_addr = if_ip interface_info;
       (load_len, arp_packet) \<leftarrow>
         sr_create_arppacket arp_type source_ether_addr source_ip_addr dest_ether_addr dest_ip_addr;
       frame \<leftarrow> sr_create_etherframe load_len arp_packet dest_ether_addr source_ether_addr ethertype_arp;
       (_, sr) \<leftarrow> sr_send_packet sr frame (of_nat sizeof_sr_ethernet_hdr + load_len) interface;
       Some sr
     }"

definition sr_send_icmp :: "sr_instance \<Rightarrow> buf \<Rightarrow> string \<Rightarrow> u8 \<Rightarrow> u8 \<Rightarrow> sr_instance option" where
  "sr_send_icmp sr packet interface type code =
     (let interface_info = sr_get_interface (if_list sr) interface
      in do {
        (load_len, icmp_packet) \<leftarrow> sr_create_icmppacket packet type code;
        source_ip \<leftarrow> rd32 ip_src packet;
        dest_ip \<leftarrow> rd32 ip_dst packet;
        ip_packet \<leftarrow>
          (if type = icmp_type_echoreply
           then sr_create_ippacket load_len icmp_packet ip_protocol_icmp dest_ip source_ip
           else do {
             iface \<leftarrow> interface_info;
             sr_create_ippacket load_len icmp_packet ip_protocol_icmp (if_ip iface) source_ip
           });
        let load_len = load_len + of_nat sizeof_sr_ip_hdr;
        case sr_arpcache_lookup (cache sr) source_ip of
          Some arpentry \<Rightarrow> do {
            iface \<leftarrow> interface_info;
            frame \<leftarrow> sr_create_etherframe load_len ip_packet (ent_mac arpentry) (if_addr iface) ethertype_ip;
            (_, sr) \<leftarrow> sr_send_packet sr frame (of_nat sizeof_sr_ethernet_hdr + load_len) interface;
            Some sr
          }
        | None \<Rightarrow> do {
            (_, c) \<leftarrow> sr_arpcache_queuereq (cache sr) source_ip ip_packet load_len interface interface;
            Some (sr\<lparr>cache := c\<rparr>)
          }
      })"

definition sr_forward_ippacket :: "sr_instance \<Rightarrow> buf \<Rightarrow> u32 \<Rightarrow> string \<Rightarrow> sr_instance option" where
  "sr_forward_ippacket sr packet len interface =
     do {
       dest_ip \<leftarrow> rd32 ip_dst packet;
       lpm \<leftarrow> sr_rt_lookup (routing_table sr) dest_ip;
       case lpm of
         Some lpm \<Rightarrow> do {
           packet \<leftarrow> wr16 ip_sum 0 packet;
           ttl \<leftarrow> rd8 ip_ttl packet;
           packet \<leftarrow> wr8 ip_ttl (ttl - 1) packet;
           hl \<leftarrow> ip_hl packet;
           c \<leftarrow> cksum packet (int (hl * 4));
           packet \<leftarrow> wr16 ip_sum c packet;
           case sr_arpcache_lookup (cache sr) (rt_gw lpm) of
             Some arp_entry \<Rightarrow> do {
               interface_info \<leftarrow> sr_get_interface (if_list sr) (rt_interface lpm);
               frame \<leftarrow> sr_create_etherframe len packet (ent_mac arp_entry) (if_addr interface_info)
                         ethertype_ip;
               (_, sr) \<leftarrow> sr_send_packet sr frame (len + of_nat sizeof_sr_ethernet_hdr) (rt_interface lpm);
               Some sr
             }
           | None \<Rightarrow> do {
               (_, c) \<leftarrow> sr_arpcache_queuereq (cache sr) (rt_gw lpm) packet len (rt_interface lpm) interface;
               Some (sr\<lparr>cache := c\<rparr>)
             }
         }
       | None \<Rightarrow> sr_send_icmp sr packet interface icmp_type_dstunreachable 0
     }"

section \<open>Invariants of the instance\<close>

text \<open>
  What every operation of the router keeps: the cache is well-formed and the hardware addresses of
  the interfaces have six bytes; and what every operation but the timers and the NAT leaves alone.
\<close>

definition ifs_ok :: "sr_if list \<Rightarrow> bool" where
  "ifs_ok ifs \<longleftrightarrow> list_all (\<lambda>i. length (if_addr i) = 6) ifs"

definition only_cache :: "sr_instance \<Rightarrow> sr_instance \<Rightarrow> bool" where
  "only_cache sr sr' \<longleftrightarrow> (\<exists>c l w. sr' = sr\<lparr>cache := c, logfile := l, wire := w\<rparr>)"

lemma only_cacheI: "only_cache sr (sr\<lparr>cache := c, logfile := l, wire := w\<rparr>)"
  unfolding only_cache_def by blast

lemma only_cache_set: "only_cache sr (sr\<lparr>cache := c\<rparr>)"
  unfolding only_cache_def
  by (rule exI [of _ c], rule exI [of _ "logfile sr"], rule exI [of _ "wire sr"]) simp

lemma only_cache_output: "only_output sr sr' \<Longrightarrow> only_cache sr sr'"
  unfolding only_cache_def only_output_def by (elim exE, rule exI [of _ "cache sr"]) auto

lemma only_cache_trans:
  assumes "only_cache a b" "only_cache b c"
  shows "only_cache a c"
proof -
  from assms obtain k l w where "c = a\<lparr>cache := k, logfile := l, wire := w\<rparr>"
    by (auto simp: only_cache_def)
  then show ?thesis by (simp add: only_cacheI)
qed

lemma only_cache_refl [simp]: "only_cache sr sr"
  by (rule only_cache_output) simp

lemma only_cache_same:
  assumes "only_cache sr sr'"
  shows "if_list sr' = if_list sr" "routing_table sr' = routing_table sr"
    "nat_st sr' = nat_st sr" "nat_enabled sr' = nat_enabled sr" "clock sr' = clock sr"
    "sock_write sr' = sock_write sr"
  using assms by (auto simp: only_cache_def)

section \<open>Frames on the wire\<close>

text \<open>Wrapping a packet and sending it through an interface emits one message.\<close>

definition ether_frame :: "buf \<Rightarrow> buf \<Rightarrow> u16 \<Rightarrow> buf \<Rightarrow> buf" where
  "ether_frame dst src type load = dst @ src @ bytes16 (htons type) @ load"

lemma frame_sent:
  assumes "sr_get_interface (if_list sr) iface = Some i" "length (if_addr i) = 6" "length mac = 6"
    and "length load = unat len" "unat len + 14 < 2 ^ 31" "sock_ok sr"
  shows "sr_create_etherframe len load mac (if_addr i) type = Some (ether_frame mac (if_addr i) type load)"
    "\<exists>sr'. sr_send_packet sr (ether_frame mac (if_addr i) type load) (14 + len) iface = Some (0, sr') \<and>
       emits sr sr' [vns_message iface (ether_frame mac (if_addr i) type load)]"
proof -
  let ?f = "ether_frame mac (if_addr i) type load"
  show "sr_create_etherframe len load mac (if_addr i) type = Some ?f"
    using assms by (simp add: sr_create_etherframe_Some ether_frame_def)
  have u: "unat (14 + len) = 14 + unat len" using assms(5) by (simp add: unat_word_ariths)
  have "length ?f = unat (14 + len)" unfolding u using assms by (simp add: ether_frame_def)
  moreover have "unat (14 + len) < 2 ^ 31" unfolding u using assms(5) by simp
  moreover have "frame_ok (if_list sr) ?f iface"
    using assms(1-4) by (simp add: frame_ok_def ether_frame_def)
  ultimately show "\<exists>sr'. sr_send_packet sr ?f (14 + len) iface = Some (0, sr') \<and>
      emits sr sr' [vns_message iface ?f]"
    using assms(6) by (intro sr_send_packet_frame)
qed

definition arp_payload :: "u16 \<Rightarrow> buf \<Rightarrow> u32 \<Rightarrow> buf \<Rightarrow> u32 \<Rightarrow> buf" where
  "arp_payload op sha sip tha tip =
     bytes16 (htons 1) @ bytes16 (htons 0x800) @ [6, 4] @ bytes16 (htons op) @ sha @ bytes32 sip @
     (if op = arp_op_reply then tha else [0, 0, 0, 0, 0, 0]) @ bytes32 tip"

lemma sr_send_arp_emits:
  assumes i: "sr_get_interface (if_list sr) iface = Some i" "length (if_addr i) = 6"
    and "length dest = 6" "sock_ok sr"
  shows "\<exists>sr'. sr_send_arp sr iface op dest ip = Some sr' \<and>
    emits sr sr' [vns_message iface (ether_frame dest (if_addr i) ethertype_arp
      (arp_payload op (if_addr i) (if_ip i) dest ip))]"
proof -
  let ?p = "arp_payload op (if_addr i) (if_ip i) dest ip"
  have len: "length ?p = unat (28 :: u32)" using assms by (simp add: arp_payload_def)
  obtain sr' where "sr_send_packet sr (ether_frame dest (if_addr i) ethertype_arp ?p) (14 + 28) iface = Some (0, sr')"
    "emits sr sr' [vns_message iface (ether_frame dest (if_addr i) ethertype_arp ?p)]"
    using frame_sent(2) [OF i assms(3) len _ assms(4), of ethertype_arp] by auto
  moreover have "sr_create_arppacket op (if_addr i) (if_ip i) dest ip = Some (28, ?p)"
    using assms by (simp add: sr_create_arppacket_Some arp_payload_def)
  ultimately show ?thesis
    using i frame_sent(1) [OF i assms(3) len _ assms(4), of ethertype_arp]
    by (simp add: sr_send_arp_def mem)
qed

lemma sr_send_arp_output:
  "sr_send_arp sr iface op dest ip = Some sr' \<Longrightarrow> only_output sr sr'"
  by (auto simp: sr_send_arp_def Option.bind_eq_Some_conv dest: sr_send_packet_output)

section \<open>Handing an IP packet to the next hop\<close>

text \<open>
  The contract \<open>sr_send_icmp\<close> and \<open>sr_forward_ippacket\<close> share: a packet for a next hop goes out at
  once, framed with the hop's hardware address, when the ARP cache knows it, and is queued on the
  ARP request for the hop otherwise.
\<close>

definition ip_output ::
  "sr_instance \<Rightarrow> u32 \<Rightarrow> sr_if \<Rightarrow> buf \<Rightarrow> u32 \<Rightarrow> string \<Rightarrow> string \<Rightarrow> sr_instance \<Rightarrow> bool" where
  "ip_output sr hop i p len iface sender sr' \<longleftrightarrow>
     (case sr_arpcache_lookup (cache sr) hop of
        Some e \<Rightarrow> emits sr sr' [vns_message iface (ether_frame (ent_mac e) (if_addr i) ethertype_ip p)]
      | None \<Rightarrow> \<exists>a c. sr_arpcache_queuereq (cache sr) hop p len iface sender = Some (a, c) \<and>
                     sr' = sr\<lparr>cache := c\<rparr>)"

definition icmp_message :: "u32 \<Rightarrow> u32 \<Rightarrow> u8 \<Rightarrow> u8 \<Rightarrow> buf \<Rightarrow> buf \<Rightarrow> bool" where
  "icmp_message src dst type code rest p \<longleftrightarrow>
     valid_sum (take 20 p) \<and> valid_sum (drop 20 p) \<and> length p = 24 + length rest \<and>
     rd8 ip_p p = Some ip_protocol_icmp \<and> rd32 ip_src p = Some src \<and> rd32 ip_dst p = Some dst \<and>
     rd8 (20 + icmp_type) p = Some type \<and> rd8 (20 + icmp_code) p = Some code \<and> drop 24 p = rest"

lemma arp_mac_length:
  "arp_inv c \<Longrightarrow> sr_arpcache_lookup c ip = Some e \<Longrightarrow> length (ent_mac e) = 6"
  using sr_arpcache_lookup_mac by blast

lemma ip_output_done:
  assumes i: "sr_get_interface (if_list sr) iface = Some i" "length (if_addr i) = 6"
    and arp: "arp_inv (cache sr)" and sock: "sock_ok sr"
    and len: "length p = unat len" "0 < unat len" "unat len + 14 < 2 ^ 31"
  shows "\<exists>sr'. (case sr_arpcache_lookup (cache sr) hop of
      Some e \<Rightarrow> do {
        frame \<leftarrow> sr_create_etherframe len p (ent_mac e) (if_addr i) ethertype_ip;
        (_, sr) \<leftarrow> sr_send_packet sr frame (14 + len) iface;
        Some sr
      }
    | None \<Rightarrow> do {
        (_, c) \<leftarrow> sr_arpcache_queuereq (cache sr) hop p len iface sender;
        Some (sr\<lparr>cache := c\<rparr>)
      }) = Some sr' \<and> ip_output sr hop i p len iface sender sr'"
proof (cases "sr_arpcache_lookup (cache sr) hop")
  case None
  have "len \<noteq> 0" "unat len \<le> length p" using len by auto
  then have "\<exists>a c. sr_arpcache_queuereq (cache sr) hop p len iface sender = Some (a, c)"
    using queuereq_cases [OF arp, of len p] by simp
  then show ?thesis using None by (auto simp: ip_output_def)
next
  case (Some e)
  have mac: "length (ent_mac e) = 6" by (rule arp_mac_length [OF arp Some])
  obtain sr' where "sr_send_packet sr (ether_frame (ent_mac e) (if_addr i) ethertype_ip p) (14 + len) iface = Some (0, sr')"
    "emits sr sr' [vns_message iface (ether_frame (ent_mac e) (if_addr i) ethertype_ip p)]"
    using frame_sent(2) [OF i mac len(1,3) sock] by blast
  then show ?thesis
    using Some frame_sent(1) [OF i mac len(1,3) sock, of ethertype_ip] by (simp add: ip_output_def)
qed

lemma ip_output_only_cache: "ip_output sr hop i p len iface sender sr' \<Longrightarrow> only_cache sr sr'"
  by (auto simp: ip_output_def only_cache_set only_cache_output emits_only_output split: option.splits)

section \<open>ICMP messages\<close>

lemma icmp_message_built:
  assumes m: "length m = unat len" "4 \<le> unat len" "valid_sum m" "rd8 icmp_type m = Some type" "rd8 icmp_code m = Some code"
  shows "\<exists>p. sr_create_ippacket len m ip_protocol_icmp src dst = Some p \<and>
    icmp_message src dst type code (drop 4 m) p \<and> length p = 20 + unat len"
proof -
  obtain p where p: "sr_create_ippacket len m ip_protocol_icmp src dst = Some p"
    "length p = 20 + unat len" "drop 20 p = m" "valid_sum (take 20 p)"
    "rd8 ip_p p = Some ip_protocol_icmp" "rd32 ip_src p = Some src" "rd32 ip_dst p = Some dst"
    using sr_create_ippacket_Some [of len m ip_protocol_icmp src dst] m(1) by auto
  have off: "rd8 (20 + k) p = rd8 k m" for k
    using p(2,3) m(1) by (auto simp: rd8_def)
  have "drop 24 p = drop 4 m" using p(3) by (simp flip: p(3))
  then show ?thesis
    using p m off [of 0] off [of 1] by (auto simp: icmp_message_def)
qed

lemma sr_send_icmp_error:
  assumes i: "sr_get_interface (if_list sr) iface = Some i" "length (if_addr i) = 6"
    and arp: "arp_inv (cache sr)" and sock: "sock_ok sr"
    and type: "type \<noteq> 0" and len: "28 \<le> length packet" and src: "rd32 ip_src packet = Some src"
  shows "\<exists>p sr'. sr_send_icmp sr packet iface type code = Some sr' \<and>
    icmp_message (if_ip i) src type code ([0, 0, 0, 0] @ take 28 packet) p \<and>
    ip_output sr src i p 56 iface iface sr'"
proof -
  obtain m where m: "sr_create_icmppacket packet type code = Some (36, m)" "length m = unat (36 :: u32)"
    "valid_sum m" "rd8 icmp_type m = Some type" "rd8 icmp_code m = Some code" "drop 4 m = [0, 0, 0, 0] @ take 28 packet"
    using sr_create_icmppacket_error [OF type len, of code] by auto
  obtain p where p: "sr_create_ippacket 36 m ip_protocol_icmp (if_ip i) src = Some p"
    "icmp_message (if_ip i) src type code ([0, 0, 0, 0] @ take 28 packet) p" "length p = unat (56 :: u32)"
    using icmp_message_built [OF m(2) _ m(3-5), of "if_ip i" src] m(6) by auto
  obtain dst where dst: "rd32 ip_dst packet = Some dst" using len by (simp add: mem)
  obtain sr' where "ip_output sr src i p 56 iface iface sr'" "sr_send_icmp sr packet iface type code = Some sr'"
    using ip_output_done [OF i arp sock p(3), of src iface] i m(1) p(1) src dst type
    by (auto simp: sr_send_icmp_def Let_def cong: option.case_cong)
  then show ?thesis using p(2) by blast
qed

lemma sr_send_icmp_echo:
  assumes i: "sr_get_interface (if_list sr) iface = Some i" "length (if_addr i) = 6"
    and arp: "arp_inv (cache sr)" and sock: "sock_ok sr"
    and v: "rd16 ip_len packet = Some v" "unat (ntohs v) = n + 28" "n + 28 \<le> length packet"
    and addr: "rd32 ip_src packet = Some src" "rd32 ip_dst packet = Some dst"
  shows "\<exists>p sr'. sr_send_icmp sr packet iface 0 code = Some sr' \<and>
    icmp_message dst src 0 code (take (n + 4) (drop 24 packet)) p \<and>
    ip_output sr src i p (of_nat n + 28) iface iface sr'"
proof -
  have small: "n \<le> 65507" using v(2) unat_u16 [of "ntohs v"] by simp
  define k :: u32 where "k = of_nat n + 8"
  have k: "unat k = n + 8" "unat (k + 20) = n + 28" "k + 20 = of_nat n + 28"
    using small by (simp_all add: k_def unat_word_ariths unat_of_nat)
  obtain m where m: "sr_create_icmppacket packet 0 code = Some (k, m)" "length m = unat k"
    "valid_sum m" "rd8 icmp_type m = Some 0" "rd8 icmp_code m = Some code" "drop 4 m = take (n + 4) (drop 24 packet)"
    using sr_create_icmppacket_echo [OF v, of code, folded k_def] k(1) by auto
  obtain p where p: "sr_create_ippacket k m ip_protocol_icmp dst src = Some p"
    "icmp_message dst src 0 code (take (n + 4) (drop 24 packet)) p" "length p = 20 + unat k"
    using icmp_message_built [OF m(2) _ m(3-5), of dst src] m(6) k(1) by auto
  have lp: "length p = unat (k + 20)" unfolding p(3) k(1,2) by simp
  have "0 < unat (k + 20)" "unat (k + 20) + 14 < 2 ^ 31"
    unfolding k(2) using small by simp_all
  from ip_output_done [OF i arp sock lp this, of src iface] i m(1) p(1) addr
  obtain sr' where "ip_output sr src i p (k + 20) iface iface sr'"
    "sr_send_icmp sr packet iface 0 code = Some sr'"
    by (auto simp: sr_send_icmp_def Let_def cong: option.case_cong)
  then show ?thesis using p(2) unfolding k(3) by blast
qed

section \<open>Forwarding\<close>

text \<open>
  The header after one hop: TTL one less, everything else but the checksum unchanged, and the checksum
  valid and not stored as zero, so that the next router of this kind accepts it.
\<close>

definition next_hop_header :: "buf \<Rightarrow> buf \<Rightarrow> bool" where
  "next_hop_header p p' \<longleftrightarrow>
     length p' = length p \<and> p' ! ip_ttl = p ! ip_ttl - 1 \<and>
     (\<forall>k. k \<notin> {ip_ttl, ip_sum, 11} \<longrightarrow> p' ! k = p ! k) \<and>
     (\<forall>hl. ip_hl p = Some hl \<longrightarrow> valid_sum (take (hl * 4) p')) \<and> rd16 ip_sum p' \<noteq> Some 0"

lemma next_hop_header_built:
  assumes len: "20 \<le> length p" and hl: "ip_hl p = Some hl" "5 \<le> hl" "hl * 4 \<le> length p"
  shows "\<exists>p0 p1 c p'. wr16 ip_sum 0 p = Some p0 \<and> rd8 ip_ttl p0 = Some (p ! ip_ttl) \<and>
    wr8 ip_ttl (p ! ip_ttl - 1) p0 = Some p1 \<and> ip_hl p1 = Some hl \<and>
    cksum p1 (int (hl * 4)) = Some c \<and> wr16 ip_sum c p1 = Some p' \<and> next_hop_header p p'"
proof -
  define p0 where "p0 = p[10 := 0, 11 := 0]"
  define p1 where "p1 = p0[8 := p ! 8 - 1]"
  have z: "wr16 ip_sum 0 p = Some p0" using len by (simp add: wr16_def p0_def byte_def)
  have t: "rd8 ip_ttl p0 = Some (p ! 8)" using len by (simp add: rd8_def p0_def)
  have w: "wr8 ip_ttl (p ! 8 - 1) p0 = Some p1" using len by (simp add: wr8_def p0_def p1_def)
  have l1: "length p1 = length p" by (simp add: p1_def p0_def)
  have h: "ip_hl p1 = Some hl" using hl(1) len by (auto simp: ip_hl_def rd8_def p1_def p0_def)
  obtain c where c: "cksum p1 (int (hl * 4)) = Some c"
    using cksum_Some [of "int (hl * 4)" p1] hl(3) unfolding l1 nat_int by blast
  define p' where "p' = p1[10 := byte 0 c, 11 := byte (Suc 0) c]"
  have s: "wr16 ip_sum c p1 = Some p'" using len l1 by (simp add: wr16_def p'_def)
  have "rd16 10 p1 = Some 0" using len by (simp add: rd16_def p1_def p0_def le16_def)
  from cksum_stored_0 [OF _ _ _ _ this c s] hl ip_hl_le [OF hl(1)] l1
  have "valid_sum (take (hl * 4) p')" by simp
  moreover have "rd16 ip_sum p' \<noteq> Some 0"
    using cksum_nonzero [OF c] f16.put_get [OF s] by simp
  ultimately have "next_hop_header p p'"
    using len hl(1) unfolding next_hop_header_def p'_def p1_def p0_def
    by (auto simp: nth_list_update)
  then show ?thesis using z t w h c s by blast
qed

lemma sr_forward_ippacket_routed:
  assumes len: "20 \<le> length p" "length p = unat n" "unat n + 14 < 2 ^ 31"
    and hl: "ip_hl p = Some hl" "5 \<le> hl" "hl * 4 \<le> length p"
    and dst: "rd32 ip_dst p = Some dst" and route: "sr_rt_lookup (routing_table sr) dst = Some (Some r)"
    and i: "sr_get_interface (if_list sr) (rt_interface r) = Some i" "length (if_addr i) = 6"
    and arp: "arp_inv (cache sr)" and sock: "sock_ok sr"
  shows "\<exists>p' sr'. sr_forward_ippacket sr p n iface = Some sr' \<and> next_hop_header p p' \<and>
    ip_output sr (rt_gw r) i p' n (rt_interface r) iface sr'"
proof -
  obtain p0 p1 c p' where p: "wr16 ip_sum 0 p = Some p0" "rd8 ip_ttl p0 = Some (p ! ip_ttl)"
    "wr8 ip_ttl (p ! ip_ttl - 1) p0 = Some p1" "ip_hl p1 = Some hl"
    "cksum p1 (int (hl * 4)) = Some c" "wr16 ip_sum c p1 = Some p'" "next_hop_header p p'"
    using next_hop_header_built [OF len(1) hl] by blast
  have len': "length p' = unat n" "0 < unat n" using p(7) len by (auto simp: next_hop_header_def)
  from ip_output_done [OF i arp sock len' len(3), of "rt_gw r" iface]
  obtain sr' where "sr_forward_ippacket sr p n iface = Some sr'" "ip_output sr (rt_gw r) i p' n (rt_interface r) iface sr'"
    using p dst route i by (auto simp: sr_forward_ippacket_def add.commute [of n] cong: option.case_cong)
  then show ?thesis using p(7) by blast
qed

lemma sr_forward_ippacket_no_route:
  assumes "rd32 ip_dst p = Some dst" "sr_rt_lookup (routing_table sr) dst = Some None"
  shows "sr_forward_ippacket sr p n iface = sr_send_icmp sr p iface icmp_type_dstunreachable 0"
  using assms by (simp add: sr_forward_ippacket_def)

section \<open>What sending keeps\<close>

lemma sr_send_icmp_cases:
  assumes "sr_send_icmp sr packet iface type code = Some sr'"
  obtains (sent) r frame len n m where "sr_create_icmppacket packet type code = Some (n, m)"
      "sr_send_packet sr frame len iface = Some (r, sr')"
  | (queued) n m p src a c where "sr_create_icmppacket packet type code = Some (n, m)"
      "sr_arpcache_queuereq (cache sr) src p (n + 20) iface iface = Some (a, c)" "sr' = sr\<lparr>cache := c\<rparr>"
proof -
  obtain n m src p where m: "sr_create_icmppacket packet type code = Some (n, m)"
    and out: "(case sr_arpcache_lookup (cache sr) src of
        Some arpentry \<Rightarrow> do {
          i \<leftarrow> sr_get_interface (if_list sr) iface;
          frame \<leftarrow> sr_create_etherframe (n + 20) p (ent_mac arpentry) (if_addr i) ethertype_ip;
          (_, sr) \<leftarrow> sr_send_packet sr frame (of_nat 14 + (n + 20)) iface;
          Some sr
        }
      | None \<Rightarrow> do {
          (_, c) \<leftarrow> sr_arpcache_queuereq (cache sr) src p (n + 20) iface iface;
          Some (sr\<lparr>cache := c\<rparr>)
        }) = Some sr'"
    using assms by (auto simp: sr_send_icmp_def Let_def Option.bind_eq_Some_conv [of "sr_create_icmppacket packet type code"]
        Option.bind_eq_Some_conv [of "rd32 x packet" for x] bind_eq_Some_conv [of "if _ then _ else _"])
  show thesis
  proof (cases "sr_arpcache_lookup (cache sr) src")
    case None
    with out m queued show ?thesis by (auto simp: Option.bind_eq_Some_conv)
  next
    case (Some e)
    with out m sent show ?thesis by (auto simp: Option.bind_eq_Some_conv)
  qed
qed

lemma sr_send_icmp_keeps:
  assumes "sr_send_icmp sr packet iface type code = Some sr'"
  shows "only_cache sr sr'"
    "arp_inv (cache sr) \<Longrightarrow> length packet + 14 < 2 ^ 31 \<Longrightarrow> arp_inv (cache sr')"
proof -
  from assms show "only_cache sr sr'"
    by (cases rule: sr_send_icmp_cases) (auto intro: only_cache_output sr_send_packet_output only_cache_set)
  assume inv: "arp_inv (cache sr)" and len: "length packet + 14 < 2 ^ 31"
  from assms show "arp_inv (cache sr')"
  proof (cases rule: sr_send_icmp_cases)
    case (sent r frame n m)
    then show ?thesis using inv only_output_same(3) [OF sr_send_packet_output [OF sent(2)]] by simp
  next
    case (queued n m p src a c)
    have "arp_inv c"
      by (rule arp_inv_queuereq [OF inv _ queued(2)]) (rule sr_create_icmppacket_len [OF queued(1) len])
    then show ?thesis by (simp add: queued(3))
  qed
qed

lemma sr_forward_ippacket_keeps:
  assumes "sr_forward_ippacket sr packet n iface = Some sr'"
  shows "only_cache sr sr'"
    "arp_inv (cache sr) \<Longrightarrow> length packet + 14 < 2 ^ 31 \<Longrightarrow> n \<noteq> 0 \<and> unat n + 14 < 2 ^ 31 \<Longrightarrow>
       arp_inv (cache sr')"
proof -
  obtain dst lpm where r: "rd32 ip_dst packet = Some dst" "sr_rt_lookup (routing_table sr) dst = Some lpm"
    using assms by (auto simp: sr_forward_ippacket_def Option.bind_eq_Some_conv)
  consider "sr_send_icmp sr packet iface icmp_type_dstunreachable 0 = Some sr'"
    | r frame len out where "sr_send_packet sr frame len out = Some (r, sr')"
    | hop p a c out where "sr_arpcache_queuereq (cache sr) hop p n out iface = Some (a, c)" "sr' = sr\<lparr>cache := c\<rparr>"
  proof (cases lpm)
    case None
    with assms r that(1) show ?thesis by (simp add: sr_forward_ippacket_def)
  next
    case (Some l)
    with assms r show ?thesis
      by (cases "sr_arpcache_lookup (cache sr) (rt_gw l)")
        (auto simp: sr_forward_ippacket_def Option.bind_eq_Some_conv intro: that(2,3))
  qed
  note cases = this
  from cases show "only_cache sr sr'"
    by cases (auto intro: only_cache_output sr_send_packet_output only_cache_set sr_send_icmp_keeps)
  assume inv: "arp_inv (cache sr)" "length packet + 14 < 2 ^ 31" "n \<noteq> 0 \<and> unat n + 14 < 2 ^ 31"
  from cases show "arp_inv (cache sr')"
  proof cases
    case 1
    then show ?thesis using sr_send_icmp_keeps(2) inv by blast
  next
    case 2
    then show ?thesis using inv(1) only_output_same(3) [OF sr_send_packet_output [OF 2]] by simp
  next
    case 3
    then show ?thesis using arp_inv_queuereq [OF inv(1,3)] by auto
  qed
qed

end
