(* ===== verification/SR_NatConn.thy ===== *)
theory SR_NatConn
  imports SR_Nat
begin

text \<open>
  The TCP state machine that \<open>_determine_state\<close> runs for each connection of a NAT mapping: what it
  does in every state, which states a connection can reach, and that it only moves forward.
\<close>

section \<open>The enumerators in the order of the header\<close>

fun state_value :: "sr_tcp_state_type \<Rightarrow> nat" where
  "state_value CLOSED = 0"
| "state_value LISTEN = 1"
| "state_value SYN_SENT = 2"
| "state_value SYN_RCVD = 3"
| "state_value ESTAB = 4"
| "state_value FIN_WAIT_1 = 5"
| "state_value FIN_WAIT_2 = 6"
| "state_value CLOSING = 7"
| "state_value TIME_WAIT = 8"
| "state_value CLOST_WAIT = 9"
| "state_value LAST_ACK = 10"

lemma state_value_inject: "state_value s = state_value t \<longleftrightarrow> s = t"
  by (cases s; cases t) simp_all

instantiation sr_tcp_state_type :: linorder
begin

definition less_eq_sr_tcp_state_type :: "sr_tcp_state_type \<Rightarrow> sr_tcp_state_type \<Rightarrow> bool" where
  "less_eq_sr_tcp_state_type s t \<longleftrightarrow> state_value s \<le> state_value t"

definition less_sr_tcp_state_type :: "sr_tcp_state_type \<Rightarrow> sr_tcp_state_type \<Rightarrow> bool" where
  "less_sr_tcp_state_type s t \<longleftrightarrow> state_value s < state_value t"

instance
  by standard
    (auto simp: less_eq_sr_tcp_state_type_def less_sr_tcp_state_type_def simp flip: state_value_inject)

end

section \<open>Steps\<close>

text \<open>A step of a connection: a segment with these flags passes through the NAT.\<close>

inductive conn_step :: "sr_tcp_state_type \<Rightarrow> sr_tcp_state_type \<Rightarrow> bool" where
  segment: "conn_step s (determine_state s f)"

inductive conn_reach :: "sr_tcp_state_type \<Rightarrow> bool" where
  created: "conn_reach SYN_SENT"
| stepped: "conn_reach s \<Longrightarrow> conn_step s t \<Longrightarrow> conn_reach t"

inductive_cases conn_stepE: "conn_step s t"
inductive_simps conn_step_iff: "conn_step s t"

lemma determine_state_syn: "SYN f \<Longrightarrow> \<not> ACK f \<Longrightarrow> determine_state s f = SYN_SENT"
  by (simp add: determine_state_def)

lemma determine_state_table:
  assumes "ACK f \<or> \<not> SYN f"
  shows "determine_state SYN_SENT f = (if SYN f then ESTAB else SYN_SENT)"
    "determine_state SYN_RCVD f = (if ACK f then ESTAB else SYN_RCVD)"
    "determine_state ESTAB f = (if FIN f then FIN_WAIT_1 else ESTAB)"
    "determine_state FIN_WAIT_1 f = (if FIN f then CLOSING else if ACK f then FIN_WAIT_2 else FIN_WAIT_1)"
    "determine_state FIN_WAIT_2 f = (if FIN f then CLOSED else FIN_WAIT_2)"
    "determine_state CLOSING f = (if ACK f then CLOSED else CLOSING)"
    "s \<in> {CLOSED, LISTEN, TIME_WAIT, CLOST_WAIT, LAST_ACK} \<Longrightarrow> determine_state s f = s"
  using assms by (auto simp: determine_state_def)

text \<open>The states a connection created by the NAT can be in.\<close>

lemma conn_reach_states:
  "conn_reach s \<Longrightarrow> s \<in> {SYN_SENT, ESTAB, FIN_WAIT_1, FIN_WAIT_2, CLOSING, CLOSED}"
proof (induction rule: conn_reach.induct)
  case (stepped s t)
  from stepped(2) obtain f where t: "t = determine_state s f" by (rule conn_stepE)
  show ?case
  proof (cases "SYN f \<and> \<not> ACK f")
    case True
    then show ?thesis by (simp add: t determine_state_syn)
  next
    case False
    then have "ACK f \<or> \<not> SYN f" by blast
    note table = determine_state_table [OF this]
    from stepped.IH have "s = SYN_SENT \<or> s = ESTAB \<or> s = FIN_WAIT_1 \<or> s = FIN_WAIT_2 \<or> s = CLOSING \<or> s = CLOSED"
      by simp
    then show ?thesis by (elim disjE) (simp_all add: t table)
  qed
qed simp

lemma conn_reach_step: "conn_reach s \<Longrightarrow> determine_state s f = t \<Longrightarrow> conn_reach t"
  using conn_reach.stepped conn_step.segment by blast

lemma conn_reach_determine: "conn_reach s \<Longrightarrow> conn_reach (determine_state s f)"
  by (rule conn_reach_step) simp_all

lemma conn_reach_all:
  "s \<in> {SYN_SENT, ESTAB, FIN_WAIT_1, FIN_WAIT_2, CLOSING, CLOSED} \<Longrightarrow> conn_reach s"
proof -
  let ?sa = "\<lparr>FIN = False, SYN = True, ACK = True\<rparr>" and ?f = "\<lparr>FIN = True, SYN = False, ACK = False\<rparr>"
    and ?a = "\<lparr>FIN = False, SYN = False, ACK = True\<rparr>"
  have estab: "conn_reach ESTAB"
    by (rule conn_reach_step [OF created, of ?sa]) (simp add: determine_state_def)
  have fw1: "conn_reach FIN_WAIT_1"
    by (rule conn_reach_step [OF estab, of ?f]) (simp add: determine_state_def)
  have fw2: "conn_reach FIN_WAIT_2"
    by (rule conn_reach_step [OF fw1, of ?a]) (simp add: determine_state_def)
  have closing: "conn_reach CLOSING"
    by (rule conn_reach_step [OF fw1, of ?f]) (simp add: determine_state_def)
  have closed: "conn_reach CLOSED"
    by (rule conn_reach_step [OF fw2, of ?f]) (simp add: determine_state_def)
  assume "s \<in> {SYN_SENT, ESTAB, FIN_WAIT_1, FIN_WAIT_2, CLOSING, CLOSED}"
  then show ?thesis using created estab fw1 fw2 closing closed by auto
qed

text \<open>A segment that is not a bare SYN closes the connection or moves it forward.\<close>

lemma determine_state_forward:
  "ACK f \<or> \<not> SYN f \<Longrightarrow> determine_state s f = CLOSED \<or> s \<le> determine_state s f"
  by (cases s) (auto simp: determine_state_table less_eq_sr_tcp_state_type_def)

section \<open>The unsolicited packets\<close>

text \<open>The stored packets are copies of received ones, so their lengths are bounded too.\<close>

definition unsol_small :: "sr_nat \<Rightarrow> bool" where
  "unsol_small nt \<longleftrightarrow>
     (\<forall>us. unsol_pkt nt = Some us \<longrightarrow> (\<forall>u \<in> set us. length (un_ip_packet u) + 14 < 2 ^ 31))"

lemma unsol_small_insert:
  assumes "unsol_small nt" "length p + 14 < 2 ^ 31" "sr_nat_insert_unsolicited_packet now nt p len = Some nt'"
  shows "unsol_small nt'"
proof -
  obtain us found where u: "unsol_pkt nt = Some us" "unsol_member p us = Some found"
    using assms(3) by (auto simp: sr_nat_insert_unsolicited_packet_def Option.bind_eq_Some_conv)
  show ?thesis
    using assms u
    by (cases found) (auto simp: sr_nat_insert_unsolicited_packet_def Option.bind_eq_Some_conv
        unsol_small_def rd_bytes_def split: if_splits)
qed

lemma unsol_unlink_subset: "unsol_unlink p us = Some r \<Longrightarrow> set r \<subseteq> set us"
  by (induction us arbitrary: r) (auto simp: Option.bind_eq_Some_conv split: if_splits)

lemma unsol_small_remove:
  assumes "unsol_small nt" "sr_nat_remove_unsolicited_packet nt p = Some nt'"
  shows "unsol_small nt'"
proof -
  obtain us where u: "unsol_pkt nt = Some us"
    using assms(2) by (auto simp: sr_nat_remove_unsolicited_packet_def Option.bind_eq_Some_conv)
  have small: "\<forall>x \<in> set us. length (un_ip_packet x) + 14 < 2 ^ 31"
    using assms(1) u by (simp add: unsol_small_def)
  show ?thesis
  proof (cases us)
    case Nil
    then show ?thesis using assms u by (auto simp: sr_nat_remove_unsolicited_packet_def Option.bind_eq_Some_conv)
  next
    case (Cons x rest)
    with assms(2) u obtain b r where r: "unsol_unlink p rest = Some r"
        "nt' = nt\<lparr>unsol_pkt := (if b then None else Some (x # r))\<rparr>"
      by (auto simp: sr_nat_remove_unsolicited_packet_def Option.bind_eq_Some_conv)
    have "set (x # r) \<subseteq> set us" using unsol_unlink_subset [OF r(1)] Cons by auto
    then have "\<forall>y \<in> set (x # r). length (un_ip_packet y) + 14 < 2 ^ 31" using small by blast
    then show ?thesis using r(2) by (cases b) (simp_all add: unsol_small_def)
  qed
qed

lemma unsol_small_insert_mapping:
  "unsol_small nt \<Longrightarrow> sr_nat_insert_mapping now nt ip aux ty = (m, nt') \<Longrightarrow> unsol_small nt'"
  by (auto simp: unsol_small_def sr_nat_insert_mapping_def find_next_id_def Let_def
      split: option.splits prod.splits)

lemma unsol_small_insert_connection:
  assumes "unsol_small nt" "sr_nat_insert_connection now nt port p st = Some (c, nt')"
  shows "unsol_small nt'"
proof (cases "find (\<lambda>cur. aux_ext cur = port) (mappings nt)")
  case None
  then show ?thesis using assms by (simp add: sr_nat_insert_connection_def)
next
  case (Some m)
  with assms(2) obtain ms b where "sr_nat_remove_unsolicited_packet (nt\<lparr>mappings := ms, nat_brk := b\<rparr>) p = Some nt'"
    by (auto simp: sr_nat_insert_connection_def Option.bind_eq_Some_conv Let_def)
  moreover have "unsol_small (nt\<lparr>mappings := ms, nat_brk := b\<rparr>)" using assms(1) by (simp add: unsol_small_def)
  ultimately show ?thesis by (rule unsol_small_remove [rotated])
qed

lemma unsol_small_update_connection:
  assumes "unsol_small nt" "length p + 14 < 2 ^ 31" "sr_nat_update_connection now nt m p len dir = Some (c, nt')"
  shows "unsol_small nt'"
proof -
  have "unsol_small (conn_assign a f nt)" for a f
    using assms(1) by (simp add: unsol_small_def conn_assign_def)
  then show ?thesis
    using assms(3) by (auto simp: sr_nat_update_connection_def Option.bind_eq_Some_conv Let_def
        split: option.splits intro: unsol_small_insert [OF assms(1,2)])
qed

lemma unsol_small_expire: "unsol_small nt \<Longrightarrow> unsol_small (nat_expire t nt)"
  by (simp add: unsol_small_def nat_expire_def split_beta)

section \<open>The connections of the table\<close>

text \<open>Every connection of the table is in a state that the machine can reach.\<close>

definition states_ok :: "sr_nat \<Rightarrow> bool" where
  "states_ok nt \<longleftrightarrow> (\<forall>m \<in> set (mappings nt). \<forall>c \<in> set (conns m). conn_reach (conn_state c))"

lemma states_ok_unsol [simp]: "states_ok (nt\<lparr>unsol_pkt := u\<rparr>) = states_ok nt"
  by (simp add: states_ok_def)

lemma states_ok_init: "states_ok (sr_nat_init a b c nt)"
  by (simp add: states_ok_def sr_nat_init_def)

lemma states_ok_insert_mapping:
  "states_ok nt \<Longrightarrow> sr_nat_insert_mapping now nt ip aux ty = (m, nt') \<Longrightarrow> states_ok nt'"
  by (auto simp: states_ok_def sr_nat_insert_mapping_def find_next_id_def Let_def
      split: option.splits prod.splits)

lemma states_ok_update_connection:
  assumes ok: "states_ok nt" and u: "sr_nat_update_connection now nt m p len dir = Some (c, nt')"
  shows "states_ok nt'"
proof -
  have assign: "states_ok (conn_assign a (\<lambda>_. e) nt)" if "conn_reach (conn_state e)" for a e
    using ok that by (auto simp: states_ok_def conn_assign_def)
  have "conn_reach (conn_state e)" if "find_conn nt dir p tcp cs = Some (Some e)" for tcp cs e
    using find_conn_Some [OF that] ok by (auto simp: states_ok_def all_conns_def)
  then show ?thesis
    using u ok by (auto simp: sr_nat_update_connection_def Option.bind_eq_Some_conv Let_def
        split: option.splits intro!: assign conn_reach_determine dest!: insert_unsolicited_eq)
qed

lemma states_ok_insert_connection:
  assumes ok: "states_ok nt" and ins: "sr_nat_insert_connection now nt port p SYN_SENT = Some (c, nt')"
  shows "states_ok nt'"
proof (cases "sr_nat_lookup_external nt port nat_mapping_tcp")
  case None
  then show ?thesis
    using ok ins by (auto simp: sr_nat_insert_connection_def sr_nat_lookup_external_def)
next
  case (Some m)
  obtain e u where e: "conn_state e = SYN_SENT"
    and nt': "nt' = nt\<lparr>mappings := with_conn port e (mappings nt), nat_brk := Suc (nat_brk nt), unsol_pkt := u\<rparr>"
    by (rule insert_connection_cases [OF Some ins])
  have "\<forall>c \<in> set (conns m'). conn_reach (conn_state c)" if "m' \<in> set (with_conn port e (mappings nt))" for m'
  proof -
    have "m' \<in> set (mappings nt) \<or> (\<exists>m''. m'' \<in> set (mappings nt) \<and> m' = m''\<lparr>conns := e # conns m''\<rparr>)"
    proof -
      have "m' \<in> set (mappings nt) \<union> (\<lambda>cur. cur\<lparr>conns := e # conns cur\<rparr>) ` {x \<in> set (mappings nt). aux_ext x = port}"
        using that unfolding with_conn_def by (rule subsetD [OF set_update_first_subset])
      then show ?thesis by blast
    qed
    then show ?thesis using ok by (auto simp: states_ok_def e conn_reach.created)
  qed
  then show ?thesis by (simp add: states_ok_def nt')
qed

lemma states_ok_expire: "states_ok nt \<Longrightarrow> states_ok (nat_expire t nt)"
  by (auto simp: states_ok_def nat_expire_mappings dest: subsetD [OF expired_simps(4)])

text \<open>
  With a transitory timeout shorter than the established one, the test for transitory connections,
  which does not look at the state, ends established connections too.
\<close>

lemma estab_live_iff:
  assumes "conn_state c = ESTAB" "uint (tcp_transitory_to nt) \<le> uint (tcp_estab_idle_to nt)"
  shows "conn_live t nt c \<longleftrightarrow> t - conn_last_updated c \<le> uint (tcp_transitory_to nt)"
  using assms by (auto simp: conn_live_def)

lemma estab_expires:
  assumes "uint (tcp_transitory_to nt) \<le> uint (tcp_estab_idle_to nt)" "conn_state c = ESTAB"
  shows "c \<in> set (expire_conns t nt cs) \<longleftrightarrow> c \<in> set cs \<and> t - conn_last_updated c \<le> uint (tcp_transitory_to nt)"
  using estab_live_iff [OF assms(2,1)] by (simp add: expire_conns_filter)

end
