(* ===== verification/SR_Translate.thy ===== *)
theory SR_Translate
  imports SR_Forward SR_NatConn
begin

text \<open>
  Address translation, \<open>nat_handle_icmp\<close> and \<open>nat_handle_tcp\<close> of \<open>sr_router.c\<close>.  Both rewrite the IP
  packet in place; the model returns the status code, the rewritten packet and the new state.  The
  calls of \<open>print_hdr_icmp\<close> and \<open>print_hdr_tcp\<close> are kept as the reads of the header they make.
\<close>

section \<open>Operations\<close>

text \<open>The end of both functions: recompute the IP header checksum over 20 bytes.\<close>

definition update_ip_sum :: "buf \<Rightarrow> buf option" where
  "update_ip_sum p =
     do {
       p \<leftarrow> wr16 ip_sum 0 p;
       c \<leftarrow> cksum p (int sizeof_sr_ip_hdr);
       wr16 ip_sum c p
     }"

definition update_icmp_sums :: "nat \<Rightarrow> buf \<Rightarrow> buf option" where
  "update_icmp_sums icmp p =
     do {
       total \<leftarrow> rd16 ip_len p;
       let icmp_len = (ucast (ntohs total) - of_nat sizeof_sr_ip_hdr :: u32);
       p \<leftarrow> wr16 (icmp + icmp_sum) 0 p;
       c \<leftarrow> cksum (drop icmp p) (sint icmp_len);
       p \<leftarrow> wr16 (icmp + icmp_sum) c p;
       update_ip_sum p
     }"

definition nat_handle_icmp :: "sr_instance \<Rightarrow> buf \<Rightarrow> (int \<times> buf \<times> sr_instance) option" where
  "nat_handle_icmp sr p =
     do {
       hl \<leftarrow> ip_hl p;
       let icmp = hl * 4;
       src \<leftarrow> rd32 ip_src p;
       dst \<leftarrow> rd32 ip_dst p;
       if is_private_ip (ntohl src) \<and> is_private_ip (ntohl dst) then Some (0, p, sr)
       else if is_private_ip (ntohl src) then do {
         _ \<leftarrow> rd_bytes icmp sizeof_sr_icmp_hdr p;
         lpm \<leftarrow> sr_rt_lookup (routing_table sr) dst;
         case lpm of
           None \<Rightarrow> Some (0, p, sr)
         | Some lpm \<Rightarrow> do {
             ident \<leftarrow> rd16 (icmp + icmp_ident) p;
             let (mapping, nt) =
               (case sr_nat_lookup_internal (nat_st sr) (ntohl src) (ntohs ident) nat_mapping_icmp of
                  Some m \<Rightarrow> (m, nat_st sr)
                | None \<Rightarrow> sr_nat_insert_mapping (clock sr) (nat_st sr) (ntohl src) (ntohs ident)
                            nat_mapping_icmp);
             p \<leftarrow> wr16 (icmp + icmp_ident) (htons (aux_ext mapping)) p;
             interface_info \<leftarrow> sr_get_interface (if_list sr) (rt_interface lpm);
             p \<leftarrow> wr32 ip_src (if_ip interface_info) p;
             _ \<leftarrow> rd_bytes icmp sizeof_sr_icmp_hdr p;
             p \<leftarrow> update_icmp_sums icmp p;
             Some (1, p, sr\<lparr>nat_st := nt\<rparr>)
           }
       }
       else do {
         ident \<leftarrow> rd16 (icmp + icmp_ident) p;
         case sr_nat_lookup_external (nat_st sr) (ntohs ident) nat_mapping_icmp of
           None \<Rightarrow> Some (0, p, sr)
         | Some mapping \<Rightarrow> do {
             p \<leftarrow> wr16 (icmp + icmp_ident) (htons (aux_int mapping)) p;
             p \<leftarrow> wr32 ip_dst (htonl (ip_int mapping)) p;
             p \<leftarrow> update_icmp_sums icmp p;
             Some (1, p, sr)
           }
       }
     }"

text \<open>
  The end of \<open>nat_handle_tcp\<close>: the TCP checksum covers a pseudo header and everything of the packet
  after the IP header, as long as the length the caller passed.
\<close>

definition update_tcp_sums :: "nat \<Rightarrow> u32 \<Rightarrow> buf \<Rightarrow> buf option" where
  "update_tcp_sums tcp ip_packet_len p =
     do {
       p \<leftarrow> wr16 (tcp + tcp_checksum) 0 p;
       let tcp_segment_len = sint (ip_packet_len - of_nat tcp);
       src \<leftarrow> rd32 ip_src p;
       dst \<leftarrow> rd32 ip_dst p;
       protocol \<leftarrow> rd8 ip_p p;
       segment \<leftarrow> (if tcp_segment_len < 0 then None else rd_bytes tcp (nat tcp_segment_len) p);
       let temp_buffer =
         sr_tcp_pseudo_hdr src dst protocol (htons (word_of_int tcp_segment_len)) @ segment;
       c \<leftarrow> cksum temp_buffer (int sizeof_sr_tcp_pseudo_hdr + tcp_segment_len);
       p \<leftarrow> wr16 (tcp + tcp_checksum) c p;
       update_ip_sum p
     }"

text \<open>An outbound segment: its mapping and connection, then the new source address and port.\<close>

definition nat_tcp_outbound ::
  "sr_instance \<Rightarrow> buf \<Rightarrow> u32 \<Rightarrow> nat \<Rightarrow> u32 \<Rightarrow> u32 \<Rightarrow> (int \<times> buf \<times> sr_instance) option" where
  "nat_tcp_outbound sr p ip_packet_len tcp src dst =
     do {
       _ \<leftarrow> rd_bytes tcp sizeof_sr_tcp_hdr p;
       port \<leftarrow> rd16 (tcp + tcp_src_port) p;
       (mapping, conn, nt) \<leftarrow>
         (case sr_nat_lookup_internal (nat_st sr) (ntohl src) (ntohs port) nat_mapping_tcp of
            None \<Rightarrow> do {
              let (mapping, nt) = sr_nat_insert_mapping (clock sr) (nat_st sr) (ntohl src) (ntohs port)
                                    nat_mapping_tcp;
              (conn, nt) \<leftarrow> sr_nat_insert_connection (clock sr) nt (aux_ext mapping) p SYN_SENT;
              _ \<leftarrow> conn;
              Some (mapping, conn, nt)
            }
          | Some mapping \<Rightarrow> do {
              (conn, nt) \<leftarrow> sr_nat_update_connection (clock sr) (nat_st sr) mapping p ip_packet_len 0;
              Some (mapping, conn, nt)
            });
       let sr = sr\<lparr>nat_st := nt\<rparr>;
       case conn of
         None \<Rightarrow> Some (0, p, sr)
       | Some _ \<Rightarrow> do {
           p \<leftarrow> wr16 (tcp + tcp_src_port) (htons (aux_ext mapping)) p;
           lpm \<leftarrow> sr_rt_lookup (routing_table sr) dst;
           lpm \<leftarrow> lpm;
           interface_info \<leftarrow> sr_get_interface (if_list sr) (rt_interface lpm);
           p \<leftarrow> wr32 ip_src (if_ip interface_info) p;
           p \<leftarrow> update_tcp_sums tcp ip_packet_len p;
           Some (1, p, sr)
         }
     }"

text \<open>
  An inbound segment addressed to the router.  A bare SYN is never translated; without a mapping
  another segment passes with its checksums recomputed.
\<close>

definition nat_tcp_inbound ::
  "sr_instance \<Rightarrow> buf \<Rightarrow> u32 \<Rightarrow> nat \<Rightarrow> (int \<times> buf \<times> sr_instance) option" where
  "nat_tcp_inbound sr p ip_packet_len tcp =
     do {
       flags \<leftarrow> tcp_flags_at tcp p;
       port \<leftarrow> rd16 (tcp + tcp_dst_port) p;
       let mapping = sr_nat_lookup_external (nat_st sr) (ntohs port) nat_mapping_tcp;
       if SYN flags \<and> \<not> ACK flags then do {
         nt \<leftarrow> (case mapping of
                 Some m \<Rightarrow> do {
                   (_, nt) \<leftarrow> sr_nat_update_connection (clock sr) (nat_st sr) m p ip_packet_len 1;
                   Some nt
                 }
               | None \<Rightarrow> sr_nat_insert_unsolicited_packet (clock sr) (nat_st sr) p ip_packet_len);
         Some (-1, p, sr\<lparr>nat_st := nt\<rparr>)
       }
       else (case mapping of
           Some m \<Rightarrow> do {
             (conn, nt) \<leftarrow> sr_nat_update_connection (clock sr) (nat_st sr) m p ip_packet_len 1;
             let sr = sr\<lparr>nat_st := nt\<rparr>;
             case conn of
               None \<Rightarrow> Some (0, p, sr)
             | Some _ \<Rightarrow> do {
                 p \<leftarrow> wr16 (tcp + tcp_dst_port) (htons (aux_int m)) p;
                 p \<leftarrow> wr32 ip_dst (htonl (ip_int m)) p;
                 p \<leftarrow> update_tcp_sums tcp ip_packet_len p;
                 Some (1, p, sr)
               }
           }
         | None \<Rightarrow> do {
             p \<leftarrow> update_tcp_sums tcp ip_packet_len p;
             Some (1, p, sr)
           })
     }"

definition nat_handle_tcp ::
  "sr_instance \<Rightarrow> buf \<Rightarrow> u32 \<Rightarrow> int \<Rightarrow> (int \<times> buf \<times> sr_instance) option" where
  "nat_handle_tcp sr p ip_packet_len is_to_nat =
     do {
       hl \<leftarrow> ip_hl p;
       let tcp = hl * 4;
       src \<leftarrow> rd32 ip_src p;
       dst \<leftarrow> rd32 ip_dst p;
       if is_private_ip (ntohl src) \<and> is_private_ip (ntohl dst) then Some (1, p, sr)
       else if is_private_ip (ntohl src) then nat_tcp_outbound sr p ip_packet_len tcp src dst
       else if is_to_nat = 1 then nat_tcp_inbound sr p ip_packet_len tcp
       else if is_to_nat = 0 then
         (if is_private_ip (ntohl dst) then Some (0, p, sr) else Some (1, p, sr))
       else do {
         p \<leftarrow> update_tcp_sums tcp ip_packet_len p;
         Some (1, p, sr)
       }
     }"

section \<open>The checksum updates\<close>

lemma u32_of_nat:
  assumes "n < 2 ^ 31"
  shows "unat (of_nat n :: u32) = n" "sint (of_nat n :: u32) = int n"
proof -
  show u: "unat (of_nat n :: u32) = n" using assms by (simp add: unat_of_nat)
  show "sint (of_nat n :: u32) = int n" using sint_small [of "of_nat n"] assms unfolding u by simp
qed

lemma ucast_minus:
  assumes "unat (v :: u16) = n + k"
  shows "ucast v - of_nat k = (of_nat n :: u32)"
proof -
  have "ucast v = (of_nat (n + k) :: u32)"
    using assms unat_u16 [of v] by (simp add: word_unat_eq_iff unat_word_ariths unat_of_nat)
  then show ?thesis by simp
qed

lemma unat_minus:
  assumes "unat (len :: u32) = t + n"
  shows "len - of_nat t = of_nat n"
proof -
  have "len = of_nat (t + n)" unfolding assms [symmetric] by simp
  then show ?thesis by simp
qed

lemma update_ip_sum_spec:
  assumes "update_ip_sum p = Some p'"
  shows "agree_off {10, 11} p p'" "valid_sum (take 20 p')" "20 \<le> length p"
proof -
  obtain p0 c where z: "wr16 10 0 p = Some p0" and c: "cksum p0 20 = Some c" and w: "wr16 10 c p0 = Some p'"
    using assms by (auto simp: update_ip_sum_def Option.bind_eq_Some_conv)
  have "agree_off ({10..<12} \<union> {10..<12}) p p'"
    using agree_off_wr(2) [OF z] agree_off_wr(2) [OF w] by (intro agree_off_trans [of _ p p0]) simp_all
  then show "agree_off {10, 11} p p'" by (rule agree_off_mono) auto
  have len: "20 \<le> length p0" using c cksum_None [of p0 20] by (simp add: not_less [symmetric])
  then show "20 \<le> length p" using f16.put_length [OF z] by simp
  from cksum_stored_0 [OF _ _ _ _ f16.put_get [OF z] _ w, of 20] c len
  show "valid_sum (take 20 p')" by simp
qed

lemma update_ip_sum_total:
  assumes "20 \<le> length p"
  shows "\<exists>p'. update_ip_sum p = Some p'"
proof -
  obtain p0 where z: "wr16 10 0 p = Some p0" "length p0 = length p"
    using f16.put_total [of 10 p 0] assms by auto
  moreover obtain c where "cksum p0 20 = Some c" using cksum_Some [of 20 p0] z assms by auto
  moreover obtain p' where "wr16 10 c p0 = Some p'" using f16.put_total [of 10 p0 c] z assms by auto
  ultimately show ?thesis by (simp add: update_ip_sum_def)
qed

lemma update_icmp_sums_spec:
  assumes "update_icmp_sums icmp p = Some p'" and len: "rd16 ip_len p = Some v" "unat (ntohs v) = n + 20"
    and "4 \<le> n" "20 \<le> icmp"
  shows "agree_off {10, 11, icmp + 2, icmp + 3} p p'" "valid_sum (take 20 p')"
    "valid_sum (take n (drop icmp p'))" "icmp + n \<le> length p"
proof -
  have small: "n < 2 ^ 31" "n \<le> 131072" using len(2) unat_u16 [of "ntohs v"] by simp_all
  have "ucast (ntohs v) - 20 = (of_nat n :: u32)" using ucast_minus [OF len(2)] by simp
  with assms(1) len(1) obtain p0 c p1 where z: "wr16 (icmp + 2) 0 p = Some p0"
    and c: "cksum (drop icmp p0) (int n) = Some c"
    and w: "wr16 (icmp + 2) c p0 = Some p1" and u: "update_ip_sum p1 = Some p'"
    by (auto simp: update_icmp_sums_def Option.bind_eq_Some_conv Let_def u32_of_nat(2) [OF small(1)])
  note ip = update_ip_sum_spec [OF u]
  have l: "length p0 = length p" "length p1 = length p"
    using f16.put_length [OF z] f16.put_length [OF w] by simp_all
  have "\<not> length (drop icmp p0) < n" using c cksum_None [of "drop icmp p0" "int n"] by auto
  then show room: "icmp + n \<le> length p" using assms(4) l by auto
  have "agree_off ({icmp + 2..<icmp + 2 + 2} \<union> {icmp + 2..<icmp + 2 + 2}) p p1"
    using agree_off_wr(2) [OF z] agree_off_wr(2) [OF w] by (rule agree_off_trans)
  from agree_off_trans [OF this ip(1)]
  show "agree_off {10, 11, icmp + 2, icmp + 3} p p'" by (rule agree_off_mono) auto
  show "valid_sum (take 20 p')" by (rule ip(2))
  have "valid_sum (take n (drop icmp p1))"
    using cksum_stored_at [OF _ _ _ _ f16.put_get [OF z] c w] assms(4) small(2) room l by simp
  moreover have "take n (drop icmp p') = take n (drop icmp p1)"
    using assms(5) room l by (intro agree_off_rd(5) [OF ip(1)]) auto
  ultimately show "valid_sum (take n (drop icmp p'))" by simp
qed

lemma update_icmp_sums_total:
  assumes len: "rd16 ip_len p = Some v" "unat (ntohs v) = n + 20" "4 \<le> n" "20 \<le> icmp" "icmp + n \<le> length p"
  shows "\<exists>p'. update_icmp_sums icmp p = Some p'"
proof -
  have small: "n < 2 ^ 31" using len(2) unat_u16 [of "ntohs v"] by simp
  have m: "ucast (ntohs v) - 20 = (of_nat n :: u32)" using ucast_minus [OF len(2)] by simp
  obtain p0 where z: "wr16 (icmp + 2) 0 p = Some p0" "length p0 = length p"
    using f16.put_total [of "icmp + 2" p 0] len(3,5) by auto
  obtain c where c: "cksum (drop icmp p0) (int n) = Some c"
    using cksum_Some [of "int n" "drop icmp p0"] z(2) len(5) by fastforce
  obtain p1 where w: "wr16 (icmp + 2) c p0 = Some p1" "length p1 = length p"
    using f16.put_total [of "icmp + 2" p0 c] z(2) len(3,5) by auto
  obtain p' where "update_ip_sum p1 = Some p'" using update_ip_sum_total [of p1] w(2) len(4,5) by auto
  then show ?thesis
    using len(1) z c w by (simp add: update_icmp_sums_def Let_def m u32_of_nat(2) [OF small])
qed

text \<open>
  The ICMP length is computed for a 20-byte IP header: with options in the header the checksum of a
  packet that fills its buffer reads past the end.
\<close>

lemma update_icmp_sums_overrun:
  assumes "rd16 ip_len p = Some v" "unat (ntohs v) = n + 20" "length p < icmp + n"
  shows "update_icmp_sums icmp p = None"
proof -
  have small: "n < 2 ^ 31" using assms(2) unat_u16 [of "ntohs v"] by simp
  have m: "ucast (ntohs v) - 20 = (of_nat n :: u32)" using ucast_minus [OF assms(2)] by simp
  have "cksum (drop icmp p0) (int n) = None" if "wr16 (icmp + 2) 0 p = Some p0" for p0
  proof -
    have "icmp + 4 \<le> length p" using that by (auto simp: wr16_def split: if_splits)
    with f16.put_length [OF that] assms(3) show ?thesis by (simp add: cksum_None less_diff_conv2)
  qed
  then show ?thesis
    using assms(1) by (auto simp: update_icmp_sums_def Let_def m u32_of_nat(2) [OF small] Option.bind_eq_None_conv)
qed

lemma wr16_append: "length a = k \<Longrightarrow> wr16 (k + off) v (a @ b) = map_option ((@) a) (wr16 off v b)"
  by (auto simp: wr16_def list_update_append)

lemma rd16_append: "length a = k \<Longrightarrow> rd16 (k + off) (a @ b) = rd16 off b"
  by (auto simp: rd16_def nth_append)

lemma update_tcp_sums_spec:
  assumes "update_tcp_sums tcp len p = Some p'" and len: "unat len = tcp + n" "18 \<le> n" "unat len \<le> 65535"
    and "20 \<le> tcp" and addr: "rd32 ip_src p = Some src" "rd32 ip_dst p = Some dst" "rd8 ip_p p = Some prot"
  shows "agree_off {10, 11, tcp + 16, tcp + 17} p p'" "valid_sum (take 20 p')" "tcp + n \<le> length p"
    "valid_sum (sr_tcp_pseudo_hdr src dst prot (htons (of_nat n)) @ take n (drop tcp p'))"
proof -
  have small: "n < 2 ^ 31" using len by simp
  note seg = unat_minus [OF len(1)]
  obtain p0 where z: "wr16 (tcp + 16) 0 p = Some p0"
    using assms(1) by (auto simp: update_tcp_sums_def Option.bind_eq_Some_conv)
  have same: "rd32 12 p0 = Some src" "rd32 16 p0 = Some dst" "rd8 9 p0 = Some prot"
    using addr agree_off_rd(1,3) [OF agree_off_wr(2) [OF z]] assms(5) by auto
  let ?h = "sr_tcp_pseudo_hdr src dst prot (htons (of_nat n))"
  obtain s c p1 where s: "rd_bytes tcp n p0 = Some s"
    and c: "cksum (?h @ s) (12 + int n) = Some c"
    and w: "wr16 (tcp + 16) c p0 = Some p1" and u: "update_ip_sum p1 = Some p'"
    using assms(1) same z
    by (auto simp: update_tcp_sums_def Option.bind_eq_Some_conv Let_def seg u32_of_nat(2) [OF small])
  note ip = update_ip_sum_spec [OF u]
  have l: "length p0 = length p" "length p1 = length p"
    using f16.put_length [OF z] f16.put_length [OF w] by simp_all
  have s': "s = take n (drop tcp p0)" and room: "tcp + n \<le> length p"
    using s l by (auto simp: rd_bytes_def split: if_splits)
  show "tcp + n \<le> length p" by (rule room)
  have "agree_off ({tcp + 16..<tcp + 16 + 2} \<union> {tcp + 16..<tcp + 16 + 2}) p p1"
    using agree_off_wr(2) [OF z] agree_off_wr(2) [OF w] by (rule agree_off_trans)
  from agree_off_trans [OF this ip(1)]
  show "agree_off {10, 11, tcp + 16, tcp + 17} p p'" by (rule agree_off_mono) auto
  show "valid_sum (take 20 p')" by (rule ip(2))
  have "rd16 (tcp + 16) p0 = Some 0" by (rule f16.put_get [OF z])
  then have "rd16 16 s = Some 0" using rd16_slice [of 16 n tcp p0] len(2) room l by (simp add: s')
  then have rz: "rd16 (12 + 16) (?h @ s) = Some 0" by (subst rd16_append) simp_all
  have "wr16 16 c s = Some (take n (drop tcp p1))"
    unfolding s' using len(2) room l w by (intro wr16_slice) simp_all
  then have ww: "wr16 (12 + 16) c (?h @ s) = Some (?h @ take n (drop tcp p1))"
    by (subst wr16_append) simp_all
  have "length s = n" using room l by (simp add: s')
  then have "valid_sum (take (12 + n) (?h @ take n (drop tcp p1)))"
    using c len(2,3) by (intro cksum_stored_0 [OF _ _ _ _ rz _ ww]) (simp_all add: len(1))
  then have "valid_sum (?h @ take n (drop tcp p1))" using room l by simp
  moreover have "take n (drop tcp p') = take n (drop tcp p1)"
    using assms(5) room l by (intro agree_off_rd(5) [OF ip(1)]) auto
  ultimately show "valid_sum (?h @ take n (drop tcp p'))" by simp
qed

lemma update_tcp_sums_total:
  assumes len: "unat len = tcp + n" "18 \<le> n" "unat len \<le> 65535" "20 \<le> tcp" "tcp + n \<le> length p"
  shows "\<exists>p'. update_tcp_sums tcp len p = Some p'"
proof -
  have small: "n < 2 ^ 31" using len by simp
  note seg = unat_minus [OF len(1)]
  obtain p0 where z: "wr16 (tcp + 16) 0 p = Some p0" "length p0 = length p"
    using f16.put_total [of "tcp + 16" p 0] len(2,5) by auto
  obtain src dst prot where rd: "rd32 12 p0 = Some src" "rd32 16 p0 = Some dst" "rd8 9 p0 = Some prot"
    using z(2) len by (simp add: mem)
  let ?b = "sr_tcp_pseudo_hdr src dst prot (htons (of_nat n)) @ take n (drop tcp p0)"
  have s: "rd_bytes tcp n p0 = Some (take n (drop tcp p0))" using z(2) len(5) by (simp add: mem)
  have "length ?b = 12 + n" using z(2) len(5) by simp
  then obtain c where c: "cksum ?b (12 + int n) = Some c"
    using cksum_Some [of "12 + int n" ?b] by (auto simp: nat_add_distrib)
  obtain p1 where w: "wr16 (tcp + 16) c p0 = Some p1" "length p1 = length p"
    using f16.put_total [of "tcp + 16" p0 c] z(2) len(2,5) by auto
  obtain p' where "update_ip_sum p1 = Some p'" using update_ip_sum_total [of p1] w(2) len(4,5) by auto
  then show ?thesis
    using z rd s c w by (simp add: update_tcp_sums_def Let_def seg u32_of_nat(2) [OF small])
qed

section \<open>ICMP translation\<close>

text \<open>An IP packet without options that lies in its buffer with \<open>n\<close> bytes after the header.\<close>

definition ip_plain :: "buf \<Rightarrow> u32 \<Rightarrow> u32 \<Rightarrow> nat \<Rightarrow> bool" where
  "ip_plain p src dst n \<longleftrightarrow>
     ip_hl p = Some 5 \<and> rd32 ip_src p = Some src \<and> rd32 ip_dst p = Some dst \<and>
     (\<exists>v. rd16 ip_len p = Some v \<and> unat (ntohs v) = n + 20) \<and> n + 20 \<le> length p"

text \<open>
  What translation makes of an ICMP query or reply: new address and identifier, both checksums
  valid, every other byte the same.
\<close>

definition icmp_translated :: "nat \<Rightarrow> u32 \<Rightarrow> u16 \<Rightarrow> nat \<Rightarrow> buf \<Rightarrow> buf \<Rightarrow> bool" where
  "icmp_translated field addr ident n p p' \<longleftrightarrow>
     agree_off ({10, 11} \<union> {field..<field + 4} \<union> {22..<26}) p p' \<and>
     rd32 field p' = Some addr \<and> rd16 24 p' = Some ident \<and>
     valid_sum (take 20 p') \<and> valid_sum (take n (drop 20 p'))"

lemma icmp_rewrite:
  assumes len: "rd16 ip_len p = Some v" "unat (ntohs v) = n + 20" "n + 20 \<le> length p" "8 \<le> n"
    and field: "field = ip_src \<or> field = ip_dst"
  shows "\<exists>p1 p2 p'. wr16 24 ident p = Some p1 \<and> wr32 field addr p1 = Some p2 \<and>
    update_icmp_sums 20 p2 = Some p' \<and> length p2 = length p \<and> icmp_translated field addr ident n p p'"
proof -
  obtain p1 where p1: "wr16 24 ident p = Some p1" "length p1 = length p"
    using f16.put_total [of 24 p ident] len by auto
  obtain p2 where p2: "wr32 field addr p1 = Some p2" "length p2 = length p"
    using f32.put_total [of field p1 addr] p1 len field by auto
  have a: "agree_off ({24..<26} \<union> {field..<field + 4}) p p2"
    using agree_off_trans [OF agree_off_wr(2) [OF p1(1)] agree_off_wr(3) [OF p2(1)]] by simp
  have v: "rd16 ip_len p2 = Some v"
    by (subst agree_off_rd(2) [OF a]) (use len(1) field in auto)
  obtain p' where p': "update_icmp_sums 20 p2 = Some p'"
    using update_icmp_sums_total [OF v len(2), of 20] p2(2) len(3,4) by (auto simp: add.commute)
  note s = update_icmp_sums_spec [OF p' v len(2)]
  have b: "agree_off {10, 11, 20 + 2, 20 + 3} p2 p'" using len(4) by (intro s) simp_all
  have "agree_off ({24..<26} \<union> {field..<field + 4} \<union> {10, 11, 20 + 2, 20 + 3}) p p'"
    by (rule agree_off_trans [OF a b])
  then have "agree_off ({10, 11} \<union> {field..<field + 4} \<union> {22..<26}) p p'"
    by (rule agree_off_mono) auto
  moreover have "rd32 field p' = Some addr"
    by (subst agree_off_rd(3) [OF b]) (use f32.put_get [OF p2(1)] field in auto)
  moreover have "rd16 24 p' = Some ident"
    by (subst agree_off_rd(2) [OF b], simp, subst agree_off_rd(2) [OF agree_off_wr(3) [OF p2(1)]])
      (use f16.put_get [OF p1(1)] field in auto)
  moreover have "valid_sum (take 20 p')" "valid_sum (take n (drop 20 p'))"
    using s(2,3) len(4) by simp_all
  ultimately show ?thesis using p1 p2 p' unfolding icmp_translated_def by blast
qed

lemma nat_handle_icmp_outbound:
  assumes ip: "ip_plain p src dst n" "8 \<le> n"
    and addr: "is_private_ip (ntohl src)" "\<not> is_private_ip (ntohl dst)"
    and route: "sr_rt_lookup (routing_table sr) dst = Some (Some r)"
      "sr_get_interface (if_list sr) (rt_interface r) = Some i"
    and ident: "rd16 24 p = Some ident"
    and m: "nat_translate (clock sr) nat_mapping_icmp (nat_st sr) (ntohl src) (ntohs ident) = (m, nt)"
  shows "\<exists>p'. nat_handle_icmp sr p = Some (1, p', sr\<lparr>nat_st := nt\<rparr>) \<and>
    icmp_translated ip_src (if_ip i) (htons (aux_ext m)) n p p'"
proof -
  obtain v where v: "rd16 ip_len p = Some v" "unat (ntohs v) = n + 20" "n + 20 \<le> length p"
    using ip(1) by (auto simp: ip_plain_def)
  obtain p1 p2 p' where w: "wr16 24 (htons (aux_ext m)) p = Some p1" "wr32 ip_src (if_ip i) p1 = Some p2"
    "update_icmp_sums 20 p2 = Some p'" "length p2 = length p"
    "icmp_translated ip_src (if_ip i) (htons (aux_ext m)) n p p'"
    using icmp_rewrite [OF v ip(2), of ip_src "htons (aux_ext m)" "if_ip i"] by auto
  have "nat_handle_icmp sr p = Some (1, p', sr\<lparr>nat_st := nt\<rparr>)"
    using ip addr route ident m w rd_Some(4) [of 20 8 p] rd_Some(4) [of 20 8 p2] v(3)
    by (simp add: nat_handle_icmp_def ip_plain_def Let_def nat_translate_def [symmetric])
  with w(5) show ?thesis by blast
qed

lemma nat_handle_icmp_inbound:
  assumes ip: "ip_plain p src dst n" "8 \<le> n" and addr: "\<not> is_private_ip (ntohl src)"
    and ident: "rd16 24 p = Some ident"
    and m: "sr_nat_lookup_external (nat_st sr) (ntohs ident) nat_mapping_icmp = Some m"
  shows "\<exists>p'. nat_handle_icmp sr p = Some (1, p', sr) \<and>
    icmp_translated ip_dst (htonl (ip_int m)) (htons (aux_int m)) n p p'"
proof -
  obtain v where v: "rd16 ip_len p = Some v" "unat (ntohs v) = n + 20" "n + 20 \<le> length p"
    using ip(1) by (auto simp: ip_plain_def)
  obtain p1 p2 p' where w: "wr16 24 (htons (aux_int m)) p = Some p1" "wr32 ip_dst (htonl (ip_int m)) p1 = Some p2"
    "update_icmp_sums 20 p2 = Some p'" "icmp_translated ip_dst (htonl (ip_int m)) (htons (aux_int m)) n p p'"
    using icmp_rewrite [OF v ip(2), of ip_dst "htons (aux_int m)" "htonl (ip_int m)"] by auto
  have "nat_handle_icmp sr p = Some (1, p', sr)"
    using ip addr ident m w by (simp add: nat_handle_icmp_def ip_plain_def Let_def)
  with w(4) show ?thesis by blast
qed

text \<open>With IP options the checksum of a packet that fills its buffer is computed past its end.\<close>

lemma nat_handle_icmp_options:
  assumes hl: "ip_hl p = Some hl" "6 \<le> hl" and "rd16 ip_len p = Some v" "unat (ntohs v) = length p"
    and src: "rd32 ip_src p = Some src" "\<not> is_private_ip (ntohl src)"
    and ident: "rd16 (hl * 4 + 4) p = Some ident"
    and m: "sr_nat_lookup_external (nat_st sr) (ntohs ident) nat_mapping_icmp = Some m"
  shows "nat_handle_icmp sr p = None"
proof -
  have long: "hl * 4 + 6 \<le> length p" using ident by (auto simp: rd16_def split: if_splits)
  obtain dst where dst: "rd32 ip_dst p = Some dst" using long hl(2) by (simp add: mem)
  obtain p1 where p1: "wr16 (hl * 4 + 4) (htons (aux_int m)) p = Some p1" "length p1 = length p"
    using f16.put_total [of "hl * 4 + 4" p "htons (aux_int m)"] long by auto
  obtain p2 where p2: "wr32 ip_dst (htonl (ip_int m)) p1 = Some p2" "length p2 = length p"
    using f32.put_total [of ip_dst p1 "htonl (ip_int m)"] p1 long hl(2) by auto
  have a: "agree_off ({hl * 4 + 4..<hl * 4 + 4 + 2} \<union> {16..<16 + 4}) p p2"
    using agree_off_trans [OF agree_off_wr(2) [OF p1(1)] agree_off_wr(3) [OF p2(1)]] by simp
  have "rd16 ip_len p2 = Some v"
    by (subst agree_off_rd(2) [OF a]) (use assms(3) hl(2) in auto)
  moreover have "unat (ntohs v) = (length p - 20) + 20" "length p2 < hl * 4 + (length p - 20)"
    using assms(4) long hl(2) p2(2) by simp_all
  ultimately have "update_icmp_sums (hl * 4) p2 = None" by (rule update_icmp_sums_overrun)
  then show ?thesis
    using hl src dst ident m p1 p2 by (simp add: nat_handle_icmp_def Let_def)
qed

section \<open>What translation keeps\<close>

text \<open>
  What every operation keeps, and what it keeps as long as the table does not outgrow the
  identifiers.
\<close>

definition nat_safe :: "sr_nat \<Rightarrow> bool" where
  "nat_safe nt \<longleftrightarrow> states_ok nt \<and> unsol_small nt"

definition nat_ok :: "sr_nat \<Rightarrow> bool" where
  "nat_ok nt \<longleftrightarrow> nat_inv nt \<and> states_ok nt \<and> unsol_small nt"

lemma nat_ok_iff: "nat_ok nt \<longleftrightarrow> nat_inv nt \<and> nat_safe nt"
  by (simp add: nat_ok_def nat_safe_def)

lemma nat_safe_insert_mapping:
  "nat_safe nt \<Longrightarrow> sr_nat_insert_mapping now nt ip aux ty = (m, nt') \<Longrightarrow> nat_safe nt'"
  unfolding nat_safe_def using states_ok_insert_mapping unsol_small_insert_mapping by blast

lemma nat_safe_insert_connection:
  "nat_safe nt \<Longrightarrow> sr_nat_insert_connection now nt port p SYN_SENT = Some (c, nt') \<Longrightarrow> nat_safe nt'"
  unfolding nat_safe_def using states_ok_insert_connection unsol_small_insert_connection by blast

lemma nat_safe_update_connection:
  "nat_safe nt \<Longrightarrow> length p + 14 < 2 ^ 31 \<Longrightarrow>
     sr_nat_update_connection now nt m p len dir = Some (c, nt') \<Longrightarrow> nat_safe nt'"
  unfolding nat_safe_def using states_ok_update_connection unsol_small_update_connection by blast

lemma nat_safe_insert_unsolicited:
  "nat_safe nt \<Longrightarrow> length p + 14 < 2 ^ 31 \<Longrightarrow>
     sr_nat_insert_unsolicited_packet now nt p len = Some nt' \<Longrightarrow> nat_safe nt'"
  using insert_unsolicited_eq [of now nt p len nt'] unsol_small_insert [of nt p now len nt']
  by (auto simp: nat_safe_def)

lemma nat_safe_expire: "nat_safe nt \<Longrightarrow> nat_safe (nat_expire t nt)"
  by (simp add: nat_safe_def states_ok_expire unsol_small_expire)

lemma nat_ok_insert_mapping:
  assumes "nat_ok nt" "nat_room nt" "sr_nat_lookup_internal nt ip aux ty = None"
    "sr_nat_insert_mapping now nt ip aux ty = (m, nt')"
  shows "nat_ok nt'" "sr_nat_lookup_external nt' (aux_ext m) ty' = Some m" "map_type m = ty"
proof -
  have inv: "nat_inv nt" using assms(1) by (simp add: nat_ok_def)
  note i = insert_mapping_inv [OF inv assms(2-4)]
  show "nat_ok nt'"
    using i(1) states_ok_insert_mapping [OF _ assms(4)] unsol_small_insert_mapping [OF _ assms(4)] assms(1)
    by (simp add: nat_ok_def)
  show "sr_nat_lookup_external nt' (aux_ext m) ty' = Some m"
    using i(2) by (simp add: lookup_external_iff [OF i(1)])
  show "map_type m = ty" by (rule i(5))
qed

lemma nat_ok_update_connection:
  "nat_ok nt \<Longrightarrow> length p + 14 < 2 ^ 31 \<Longrightarrow>
     sr_nat_update_connection now nt m p len dir = Some (c, nt') \<Longrightarrow> nat_ok nt'"
  using update_connection_inv states_ok_update_connection unsol_small_update_connection
  by (auto simp: nat_ok_def)

lemma nat_ok_insert_unsolicited:
  "nat_ok nt \<Longrightarrow> length p + 14 < 2 ^ 31 \<Longrightarrow>
     sr_nat_insert_unsolicited_packet now nt p len = Some nt' \<Longrightarrow> nat_ok nt'"
  using insert_unsolicited_eq [of now nt p len nt'] unsol_small_insert [of nt p now len nt']
  by (auto simp: nat_ok_def)

lemma insert_connection_length:
  assumes "sr_nat_insert_connection now nt port p st = Some (c, nt')"
  shows "length (mappings nt') = length (mappings nt)"
proof (cases "sr_nat_lookup_external nt port nat_mapping_tcp")
  case None
  then show ?thesis using assms by (simp add: sr_nat_insert_connection_def sr_nat_lookup_external_def)
next
  case (Some m)
  obtain e u where "nt' = nt\<lparr>mappings := with_conn port e (mappings nt), nat_brk := Suc (nat_brk nt), unsol_pkt := u\<rparr>"
    by (rule insert_connection_cases [OF Some assms])
  then show ?thesis by (simp add: with_conn_def)
qed

lemma nat_ok_new_connection:
  assumes "nat_ok nt" "nat_fits nt'" "sr_nat_lookup_internal nt ip aux nat_mapping_tcp = None"
    "sr_nat_insert_mapping now nt ip aux nat_mapping_tcp = (m, nt1)"
    "sr_nat_insert_connection now nt1 (aux_ext m) p SYN_SENT = Some (c, nt')"
  shows "nat_ok nt'"
proof -
  have "nat_room nt"
    using insert_mapping_fits [OF assms(4)] assms(2) nat_fits_mappings [OF insert_connection_length [OF assms(5)]]
    by simp
  note m = nat_ok_insert_mapping [OF assms(1) this assms(3,4)]
  have "nat_inv nt'"
    using m insert_connection_inv [OF _ m(2,3) assms(5)] by (simp add: nat_ok_def)
  moreover have "states_ok nt'" "unsol_small nt'"
    using m states_ok_insert_connection [OF _ assms(5)] unsol_small_insert_connection [OF _ assms(5)]
    by (simp_all add: nat_ok_def)
  ultimately show ?thesis by (simp add: nat_ok_def)
qed

lemma nat_ok_expire: "nat_ok nt \<Longrightarrow> nat_ok (nat_expire t nt)"
  by (simp add: nat_ok_def nat_expire_inv states_ok_expire unsol_small_expire)

definition only_nat :: "sr_instance \<Rightarrow> sr_instance \<Rightarrow> bool" where
  "only_nat sr sr' \<longleftrightarrow> (\<exists>nt. sr' = sr\<lparr>nat_st := nt\<rparr>)"

lemma only_nat_refl [simp]: "only_nat sr sr"
  unfolding only_nat_def by (rule exI [of _ "nat_st sr"]) simp

lemma only_nat_set [simp]: "only_nat sr (sr\<lparr>nat_st := nt\<rparr>)"
  unfolding only_nat_def by blast

lemma update_sums_length:
  "update_ip_sum p = Some p' \<Longrightarrow> length p' = length p"
  "update_icmp_sums icmp p = Some p' \<Longrightarrow> length p' = length p"
  "update_tcp_sums tcp len p = Some p' \<Longrightarrow> length p' = length p"
  by (auto simp: update_icmp_sums_def update_tcp_sums_def update_ip_sum_def Option.bind_eq_Some_conv Let_def
      dest!: f16.put_length)

lemmas rewrite_length = f16.put_length f32.put_length update_sums_length

lemma nat_handle_icmp_cases:
  assumes "nat_handle_icmp sr p = Some (code, p', sr')"
  obtains (same) "sr' = sr" "length p' = length p"
  | (mapped) ip ident m nt where "nat_translate (clock sr) nat_mapping_icmp (nat_st sr) ip ident = (m, nt)"
      "sr' = sr\<lparr>nat_st := nt\<rparr>" "length p' = length p"
proof -
  obtain src dst where a: "rd32 ip_src p = Some src" "rd32 ip_dst p = Some dst"
    using assms by (auto simp: nat_handle_icmp_def Option.bind_eq_Some_conv Let_def)
  show thesis
  proof (cases "is_private_ip (ntohl src)")
    case False
    show thesis
      using assms a False that(1)
      by (auto simp: nat_handle_icmp_def Option.bind_eq_Some_conv Let_def
          split: option.splits dest!: rewrite_length)
  next
    case True
    show thesis
    proof (cases "is_private_ip (ntohl dst)")
      case True
      with \<open>is_private_ip (ntohl src)\<close> show ?thesis
        using assms a that(1) by (auto simp: nat_handle_icmp_def Option.bind_eq_Some_conv Let_def)
    next
      case False
      with True obtain lpm where lpm: "sr_rt_lookup (routing_table sr) dst = Some lpm"
        using assms a by (auto simp: nat_handle_icmp_def Option.bind_eq_Some_conv Let_def)
      show ?thesis
      proof (cases lpm)
        case None
        with True False lpm show ?thesis
          using assms a that(1) by (auto simp: nat_handle_icmp_def Option.bind_eq_Some_conv Let_def)
      next
        case (Some r)
        with True False lpm obtain hl ident where "ip_hl p = Some hl" "rd16 (hl * 4 + 4) p = Some ident"
          using assms a by (auto simp: nat_handle_icmp_def Option.bind_eq_Some_conv Let_def)
        moreover obtain m nt where
          "nat_translate (clock sr) nat_mapping_icmp (nat_st sr) (ntohl src) (ntohs ident) = (m, nt)"
          by fastforce
        moreover from calculation have "sr' = sr\<lparr>nat_st := nt\<rparr> \<and> length p' = length p"
          using assms a True False lpm Some
          by (auto simp: nat_handle_icmp_def Option.bind_eq_Some_conv Let_def
              nat_translate_def [symmetric] dest!: rewrite_length)
        ultimately show ?thesis using that(2) by blast
      qed
    qed
  qed
qed

lemma nat_handle_icmp_keeps:
  assumes "nat_handle_icmp sr p = Some (code, p', sr')"
  shows "only_nat sr sr'" "length p' = length p"
    "nat_ok (nat_st sr) \<Longrightarrow> nat_fits (nat_st sr') \<Longrightarrow> length p + 14 < 2 ^ 31 \<Longrightarrow> nat_ok (nat_st sr')"
    "nat_safe (nat_st sr) \<Longrightarrow> length p + 14 < 2 ^ 31 \<Longrightarrow> nat_safe (nat_st sr')"
proof -
  from assms show "only_nat sr sr'" by (cases rule: nat_handle_icmp_cases) simp_all
  from assms show "length p' = length p" by (cases rule: nat_handle_icmp_cases) simp_all
  consider "nat_st sr' = nat_st sr"
    | ip ident m where "sr_nat_lookup_internal (nat_st sr) ip ident nat_mapping_icmp = None"
      "sr_nat_insert_mapping (clock sr) (nat_st sr) ip ident nat_mapping_icmp = (m, nat_st sr')"
    using assms
  proof (cases rule: nat_handle_icmp_cases)
    case (mapped ip ident m nt)
    then show thesis
      using that by (cases "sr_nat_lookup_internal (nat_st sr) ip ident nat_mapping_icmp")
        (auto simp: nat_translate_def)
  qed simp
  note cases = this
  show "nat_safe (nat_st sr')" if "nat_safe (nat_st sr)"
    using cases by cases (use that nat_safe_insert_mapping in auto)
  show "nat_ok (nat_st sr')" if ok: "nat_ok (nat_st sr)" "nat_fits (nat_st sr')"
    using cases
  proof cases
    case (2 ip ident m)
    show ?thesis by (rule nat_ok_insert_mapping(1) [OF ok(1) insert_mapping_fits [OF 2(2) ok(2)] 2])
  qed (use ok in simp)
qed

lemma nat_tcp_outbound_keeps:
  assumes "nat_tcp_outbound sr p len tcp src dst = Some (code, p', sr')"
  shows "only_nat sr sr'" "length p' = length p"
    "nat_ok (nat_st sr) \<Longrightarrow> nat_fits (nat_st sr') \<Longrightarrow> length p + 14 < 2 ^ 31 \<Longrightarrow> nat_ok (nat_st sr')"
    "nat_safe (nat_st sr) \<Longrightarrow> length p + 14 < 2 ^ 31 \<Longrightarrow> nat_safe (nat_st sr')"
proof -
  obtain port where a: "rd16 (tcp + tcp_src_port) p = Some port"
    using assms by (auto simp: nat_tcp_outbound_def Option.bind_eq_Some_conv Let_def)
  let ?l = "sr_nat_lookup_internal (nat_st sr) (ntohl src) (ntohs port) nat_mapping_tcp"
  consider (new) m nt1 c nt where "?l = None"
        "sr_nat_insert_mapping (clock sr) (nat_st sr) (ntohl src) (ntohs port) nat_mapping_tcp = (m, nt1)"
        "sr_nat_insert_connection (clock sr) nt1 (aux_ext m) p SYN_SENT = Some (c, nt)"
        "sr' = sr\<lparr>nat_st := nt\<rparr>" "length p' = length p"
    | (old) m c nt where "sr_nat_update_connection (clock sr) (nat_st sr) m p len 0 = Some (c, nt)"
        "sr' = sr\<lparr>nat_st := nt\<rparr>" "length p' = length p"
  proof (cases ?l)
    case None
    show thesis
      using assms a None new
      by (auto simp: nat_tcp_outbound_def Option.bind_eq_Some_conv Let_def
          split: option.splits prod.splits dest!: rewrite_length)
  next
    case (Some m)
    show thesis
      using assms a Some old
      by (auto simp: nat_tcp_outbound_def Option.bind_eq_Some_conv Let_def
          split: option.splits dest!: rewrite_length)
  qed
  note cases = this
  from cases show "only_nat sr sr'" by cases simp_all
  from cases show "length p' = length p" by cases simp_all
  show "nat_ok (nat_st sr')" if "nat_ok (nat_st sr)" "nat_fits (nat_st sr')" "length p + 14 < 2 ^ 31"
    using cases
  proof cases
    case (new m nt1 c nt)
    then show ?thesis using nat_ok_new_connection [OF _ _ new(1-3)] that by simp
  next
    case (old m c nt)
    then show ?thesis using nat_ok_update_connection [OF _ _ old(1)] that by simp
  qed
  show "nat_safe (nat_st sr')" if ok: "nat_safe (nat_st sr)" and len: "length p + 14 < 2 ^ 31"
    using cases
  proof cases
    case (new m nt1 c nt)
    show ?thesis
      using nat_safe_insert_connection [OF nat_safe_insert_mapping [OF ok new(2)] new(3)] new(4) by simp
  next
    case (old m c nt)
    show ?thesis using nat_safe_update_connection [OF ok len old(1)] old(2) by simp
  qed
qed

lemma nat_tcp_inbound_keeps:
  assumes "nat_tcp_inbound sr p len tcp = Some (code, p', sr')"
  shows "only_nat sr sr'" "length p' = length p" "nat_ok (nat_st sr) \<Longrightarrow> length p + 14 < 2 ^ 31 \<Longrightarrow> nat_ok (nat_st sr')"
    "nat_safe (nat_st sr) \<Longrightarrow> length p + 14 < 2 ^ 31 \<Longrightarrow> nat_safe (nat_st sr')"
proof -
  consider (kept) "sr' = sr" "length p' = length p"
    | (updated) m c nt where "sr_nat_update_connection (clock sr) (nat_st sr) m p len 1 = Some (c, nt)"
        "sr' = sr\<lparr>nat_st := nt\<rparr>" "length p' = length p"
    | (stored) nt where "sr_nat_insert_unsolicited_packet (clock sr) (nat_st sr) p len = Some nt"
        "sr' = sr\<lparr>nat_st := nt\<rparr>" "length p' = length p"
  proof -
    obtain flags port where f: "tcp_flags_at tcp p = Some flags" "rd16 (tcp + tcp_dst_port) p = Some port"
      using assms by (auto simp: nat_tcp_inbound_def Option.bind_eq_Some_conv Let_def)
    let ?l = "sr_nat_lookup_external (nat_st sr) (ntohs port) nat_mapping_tcp"
    show thesis
    proof (cases "SYN flags \<and> \<not> ACK flags")
      case True
      then show ?thesis
        using assms f updated stored
        by (cases ?l) (auto simp: nat_tcp_inbound_def Option.bind_eq_Some_conv Let_def)
    next
      case False
      show ?thesis
      proof (cases ?l)
        case None
        with False show ?thesis
          using assms f kept
          by (auto simp: nat_tcp_inbound_def Option.bind_eq_Some_conv Let_def dest!: rewrite_length)
      next
        case (Some m)
        with False obtain c nt where u: "sr_nat_update_connection (clock sr) (nat_st sr) m p len 1 = Some (c, nt)"
          using assms f by (auto simp: nat_tcp_inbound_def Option.bind_eq_Some_conv Let_def)
        then have "sr' = sr\<lparr>nat_st := nt\<rparr> \<and> length p' = length p"
          using assms f False Some
          by (cases c) (auto simp: nat_tcp_inbound_def Option.bind_eq_Some_conv Let_def dest!: rewrite_length)
        with u show ?thesis using updated by blast
      qed
    qed
  qed
  note cases = this
  from cases show "only_nat sr sr'" by cases simp_all
  from cases show "length p' = length p" by cases simp_all
  show "nat_ok (nat_st sr')" if ok: "nat_ok (nat_st sr)" and len: "length p + 14 < 2 ^ 31"
    using cases
    by cases (auto simp: ok intro: nat_ok_insert_unsolicited [OF ok len] nat_ok_update_connection [OF ok len])
  show "nat_safe (nat_st sr')" if ok: "nat_safe (nat_st sr)" and len: "length p + 14 < 2 ^ 31"
    using cases
    by cases (auto simp: ok intro: nat_safe_insert_unsolicited [OF ok len] nat_safe_update_connection [OF ok len])
qed

lemma nat_handle_tcp_keeps:
  assumes "nat_handle_tcp sr p len dir = Some (code, p', sr')"
  shows "only_nat sr sr'" "length p' = length p"
    "nat_ok (nat_st sr) \<Longrightarrow> nat_fits (nat_st sr') \<Longrightarrow> length p + 14 < 2 ^ 31 \<Longrightarrow> nat_ok (nat_st sr')"
    "nat_safe (nat_st sr) \<Longrightarrow> length p + 14 < 2 ^ 31 \<Longrightarrow> nat_safe (nat_st sr')"
proof -
  consider (kept) "sr' = sr" "length p' = length p"
    | (out) tcp src dst where "nat_tcp_outbound sr p len tcp src dst = Some (code, p', sr')"
    | (inb) tcp where "nat_tcp_inbound sr p len tcp = Some (code, p', sr')"
    using assms
    by (auto simp: nat_handle_tcp_def Option.bind_eq_Some_conv Let_def
        split: if_splits dest: rewrite_length)
  note cases = this
  from cases show "only_nat sr sr'"
    by cases (auto dest: nat_tcp_outbound_keeps(1) nat_tcp_inbound_keeps(1))
  from cases show "length p' = length p"
    by cases (auto dest: nat_tcp_outbound_keeps(2) nat_tcp_inbound_keeps(2))
  show "nat_ok (nat_st sr) \<Longrightarrow> nat_fits (nat_st sr') \<Longrightarrow> length p + 14 < 2 ^ 31 \<Longrightarrow> nat_ok (nat_st sr')"
    using cases by cases (auto dest: nat_tcp_outbound_keeps(3) nat_tcp_inbound_keeps(3))
  show "nat_safe (nat_st sr) \<Longrightarrow> length p + 14 < 2 ^ 31 \<Longrightarrow> nat_safe (nat_st sr')"
    using cases by cases (auto dest: nat_tcp_outbound_keeps(4) nat_tcp_inbound_keeps(4))
qed

section \<open>TCP translation\<close>

text \<open>
  An IP packet of \<open>len\<close> bytes with its TCP segment of \<open>n\<close> bytes at \<open>tcp\<close>, and what translation makes
  of it: new address and port, both checksums valid, every other byte the same.
\<close>

definition tcp_packet :: "buf \<Rightarrow> u32 \<Rightarrow> nat \<Rightarrow> nat \<Rightarrow> u32 \<Rightarrow> u32 \<Rightarrow> bool" where
  "tcp_packet p len tcp n src dst \<longleftrightarrow>
     (\<exists>hl. ip_hl p = Some hl \<and> tcp = hl * 4 \<and> 5 \<le> hl) \<and> unat len = tcp + n \<and> 20 \<le> n \<and>
     unat len \<le> 65535 \<and> tcp + n \<le> length p \<and>
     rd32 ip_src p = Some src \<and> rd32 ip_dst p = Some dst"

definition tcp_sum_ok :: "nat \<Rightarrow> nat \<Rightarrow> buf \<Rightarrow> bool" where
  "tcp_sum_ok tcp n p \<longleftrightarrow>
     (\<exists>src dst prot. rd32 ip_src p = Some src \<and> rd32 ip_dst p = Some dst \<and> rd8 ip_p p = Some prot \<and>
        valid_sum (sr_tcp_pseudo_hdr src dst prot (htons (of_nat n)) @ take n (drop tcp p)))"

definition tcp_translated :: "nat \<Rightarrow> u32 \<Rightarrow> nat \<Rightarrow> u16 \<Rightarrow> nat \<Rightarrow> nat \<Rightarrow> buf \<Rightarrow> buf \<Rightarrow> bool" where
  "tcp_translated field addr pfield port tcp n p p' \<longleftrightarrow>
     agree_off ({10, 11} \<union> {field..<field + 4} \<union> {pfield..<pfield + 2} \<union> {tcp + 16..<tcp + 18}) p p' \<and>
     rd32 field p' = Some addr \<and> rd16 pfield p' = Some port \<and>
     valid_sum (take 20 p') \<and> tcp_sum_ok tcp n p'"

lemma tcp_rewrite:
  assumes p: "tcp_packet p len tcp n src dst" and field: "field = ip_src \<or> field = ip_dst"
    and pf: "pfield = tcp \<or> pfield = tcp + 2"
  shows "\<exists>p1 p2 p'. wr16 pfield port p = Some p1 \<and> wr32 field addr p1 = Some p2 \<and>
    update_tcp_sums tcp len p2 = Some p' \<and> tcp_translated field addr pfield port tcp n p p'"
proof -
  have l: "20 \<le> tcp" "unat len = tcp + n" "18 \<le> n" "unat len \<le> 65535" "tcp + n \<le> length p"
    using p by (auto simp: tcp_packet_def)
  obtain p1 where p1: "wr16 pfield port p = Some p1" "length p1 = length p"
    using f16.put_total [of pfield p port] l pf by auto
  obtain p2 where p2: "wr32 field addr p1 = Some p2" "length p2 = length p"
    using f32.put_total [of field p1 addr] p1 l field by auto
  have a: "agree_off ({pfield..<pfield + 2} \<union> {field..<field + 4}) p p2"
    using agree_off_trans [OF agree_off_wr(2) [OF p1(1)] agree_off_wr(3) [OF p2(1)]] by simp
  have room: "tcp + n \<le> length p2" using l p2 by simp
  obtain src' dst' prot where rd: "rd32 12 p2 = Some src'" "rd32 16 p2 = Some dst'" "rd8 9 p2 = Some prot"
    using room l by (simp add: mem)
  obtain p' where p': "update_tcp_sums tcp len p2 = Some p'"
    using update_tcp_sums_total [OF l(2-4,1) room] by blast
  note s = update_tcp_sums_spec [OF p' l(2-4,1) rd]
  note b = s(1)
  have "agree_off (({pfield..<pfield + 2} \<union> {field..<field + 4}) \<union> {10, 11, tcp + 16, tcp + 17}) p p'"
    by (rule agree_off_trans [OF a b])
  then have "agree_off ({10, 11} \<union> {field..<field + 4} \<union> {pfield..<pfield + 2} \<union> {tcp + 16..<tcp + 18}) p p'"
    by (rule agree_off_mono) auto
  moreover have "rd32 field p' = Some addr"
    by (subst agree_off_rd(3) [OF b]) (use f32.put_get [OF p2(1)] field l(1) in auto)
  moreover have "rd16 pfield p' = Some port"
    by (subst agree_off_rd(2) [OF b], use pf l(1) in force, subst agree_off_rd(2) [OF agree_off_wr(3) [OF p2(1)]])
      (use f16.put_get [OF p1(1)] field pf l(1) in auto)
  moreover have "rd32 12 p' = Some src'" "rd32 16 p' = Some dst'"
    using rd by (subst agree_off_rd(3) [OF b]; use l(1) in auto)+
  moreover have "rd8 9 p' = Some prot"
    using rd by (subst agree_off_rd(1) [OF b]) (use l(1) in auto)
  ultimately show ?thesis using p1 p2 p' s(2,4) unfolding tcp_translated_def tcp_sum_ok_def by blast
qed

lemma nat_handle_tcp_outbound:
  assumes p: "tcp_packet p len tcp n src dst"
    and addr: "is_private_ip (ntohl src)" "\<not> is_private_ip (ntohl dst)"
    and route: "sr_rt_lookup (routing_table sr) dst = Some (Some r)"
      "sr_get_interface (if_list sr) (rt_interface r) = Some i"
    and port: "rd16 tcp p = Some port"
    and conn: "case sr_nat_lookup_internal (nat_st sr) (ntohl src) (ntohs port) nat_mapping_tcp of
        None \<Rightarrow> sr_nat_insert_mapping (clock sr) (nat_st sr) (ntohl src) (ntohs port) nat_mapping_tcp = (m, nt1) \<and>
          sr_nat_insert_connection (clock sr) nt1 (aux_ext m) p SYN_SENT = Some (Some c, nt)
      | Some m' \<Rightarrow> m' = m \<and> sr_nat_update_connection (clock sr) (nat_st sr) m p len 0 = Some (Some c, nt)"
  shows "\<exists>p'. nat_handle_tcp sr p len dir = Some (1, p', sr\<lparr>nat_st := nt\<rparr>) \<and>
    tcp_translated ip_src (if_ip i) tcp (htons (aux_ext m)) tcp n p p'"
proof -
  obtain p1 p2 p' where w: "wr16 tcp (htons (aux_ext m)) p = Some p1" "wr32 ip_src (if_ip i) p1 = Some p2"
    "update_tcp_sums tcp len p2 = Some p'" "tcp_translated ip_src (if_ip i) tcp (htons (aux_ext m)) tcp n p p'"
    using tcp_rewrite [OF p, of ip_src tcp "htons (aux_ext m)" "if_ip i"] by auto
  have "nat_tcp_outbound sr p len tcp src dst = Some (1, p', sr\<lparr>nat_st := nt\<rparr>)"
    using p route port conn w rd_Some(4) [of tcp 20 p]
    by (cases "sr_nat_lookup_internal (nat_st sr) (ntohl src) (ntohs port) nat_mapping_tcp")
      (auto simp: nat_tcp_outbound_def tcp_packet_def)
  then have "nat_handle_tcp sr p len dir = Some (1, p', sr\<lparr>nat_st := nt\<rparr>)"
    using p addr by (auto simp: nat_handle_tcp_def tcp_packet_def)
  with w(4) show ?thesis by blast
qed

text \<open>
  An outbound segment from a mapped port to a peer the mapping has no connection to is refused, a SYN
  included, and lands in the list of unsolicited packets.
\<close>

lemma nat_handle_tcp_new_peer:
  assumes p: "tcp_packet p len tcp n src dst"
    and addr: "is_private_ip (ntohl src)" "\<not> is_private_ip (ntohl dst)"
    and port: "rd16 tcp p = Some port"
    and m: "sr_nat_lookup_internal (nat_st sr) (ntohl src) (ntohs port) nat_mapping_tcp = Some m"
    and c: "sr_nat_update_connection (clock sr) (nat_st sr) m p len 0 = Some (None, nt)"
  shows "nat_handle_tcp sr p len dir = Some (0, p, sr\<lparr>nat_st := nt\<rparr>)"
  using p addr port m c rd_Some(4) [of tcp 20 p]
  by (auto simp: nat_handle_tcp_def nat_tcp_outbound_def tcp_packet_def)

lemma nat_handle_tcp_no_route:
  assumes p: "tcp_packet p len tcp n src dst"
    and addr: "is_private_ip (ntohl src)" "\<not> is_private_ip (ntohl dst)"
    and port: "rd16 tcp p = Some port"
    and route: "sr_rt_lookup (routing_table sr) dst = Some None"
    and c: "sr_nat_lookup_internal (nat_st sr) (ntohl src) (ntohs port) nat_mapping_tcp = None"
  shows "nat_handle_tcp sr p len dir = None"
proof (cases "nat_tcp_outbound sr p len tcp src dst")
  case None
  then show ?thesis using p addr by (auto simp: nat_handle_tcp_def tcp_packet_def)
next
  case (Some x)
  then have False
    using port route c
    by (auto simp: nat_tcp_outbound_def Let_def Option.bind_eq_Some_conv split: prod.splits option.splits)
  then show ?thesis ..
qed

lemma nat_handle_tcp_inbound:
  assumes p: "tcp_packet p len tcp n src dst" and addr: "\<not> is_private_ip (ntohl src)"
    and flags: "tcp_flags_at tcp p = Some f" "ACK f \<or> \<not> SYN f"
    and port: "rd16 (tcp + 2) p = Some port"
    and m: "sr_nat_lookup_external (nat_st sr) (ntohs port) nat_mapping_tcp = Some m"
    and c: "sr_nat_update_connection (clock sr) (nat_st sr) m p len 1 = Some (Some c, nt)"
  shows "\<exists>p'. nat_handle_tcp sr p len 1 = Some (1, p', sr\<lparr>nat_st := nt\<rparr>) \<and>
    tcp_translated ip_dst (htonl (ip_int m)) (tcp + 2) (htons (aux_int m)) tcp n p p'"
proof -
  obtain p1 p2 p' where w: "wr16 (tcp + 2) (htons (aux_int m)) p = Some p1" "wr32 ip_dst (htonl (ip_int m)) p1 = Some p2"
    "update_tcp_sums tcp len p2 = Some p'"
    "tcp_translated ip_dst (htonl (ip_int m)) (tcp + 2) (htons (aux_int m)) tcp n p p'"
    using tcp_rewrite [OF p, of ip_dst "tcp + 2" "htons (aux_int m)" "htonl (ip_int m)"] by auto
  have "nat_tcp_inbound sr p len tcp = Some (1, p', sr\<lparr>nat_st := nt\<rparr>)"
    using flags port m c w(1-3) by (auto simp: nat_tcp_inbound_def Let_def)
  then have "nat_handle_tcp sr p len 1 = Some (1, p', sr\<lparr>nat_st := nt\<rparr>)"
    using p addr by (auto simp: nat_handle_tcp_def tcp_packet_def)
  with w(4) show ?thesis by blast
qed

text \<open>A bare SYN from outside is never translated.\<close>

lemma nat_handle_tcp_inbound_syn:
  assumes "tcp_packet p len tcp n src dst" "\<not> is_private_ip (ntohl src)"
    and "tcp_flags_at tcp p = Some f" "SYN f" "\<not> ACK f"
    and "nat_handle_tcp sr p len 1 = Some (code, p', sr')"
  shows "code = -1 \<and> p' = p"
  using assms
  by (auto simp: nat_handle_tcp_def nat_tcp_inbound_def tcp_packet_def Let_def Option.bind_eq_Some_conv)

end
