(* ===== verification/SR_Router.thy ===== *)
theory SR_Router
  imports SR_Translate
begin

text \<open>
  The packet handlers of \<open>sr_router.c\<close>: \<open>sr_handlepacket\<close>, \<open>sr_handle_arp\<close> and
  \<open>sr_handle_ippacket\<close>, with \<open>sr_init\<close>.
\<close>

section \<open>Initialisation\<close>

definition sr_init :: "sr_instance \<Rightarrow> u32 \<Rightarrow> u32 \<Rightarrow> u32 \<Rightarrow> sr_instance" where
  "sr_init sr icmp_to estab_to transitory_to =
     sr\<lparr>cache := sr_arpcache_init (cache sr),
         nat_st := sr_nat_init icmp_to estab_to transitory_to (nat_st sr)\<rparr>"

section \<open>ARP\<close>

text \<open>
  The loop that sends the packets queued on a request: each is framed for its own interface but sent
  through the interface the reply came in on.
\<close>

fun send_queued :: "sr_instance \<Rightarrow> buf \<Rightarrow> string \<Rightarrow> sr_packet list \<Rightarrow> sr_instance option" where
  "send_queued sr mac interface [] = Some sr"
| "send_queued sr mac interface (pkt # rest) =
     do {
       curr_iface \<leftarrow> sr_get_interface (if_list sr) (pkt_iface pkt);
       frame \<leftarrow> sr_create_etherframe (pkt_len pkt) (pkt_buf pkt) mac (if_addr curr_iface) ethertype_ip;
       (_, sr) \<leftarrow> sr_send_packet sr frame (of_nat sizeof_sr_ethernet_hdr + pkt_len pkt) interface;
       send_queued sr mac interface rest
     }"

definition sr_handle_arp :: "sr_instance \<Rightarrow> buf \<Rightarrow> u32 \<Rightarrow> string \<Rightarrow> sr_instance option" where
  "sr_handle_arp sr packet len interface =
     do {
       hrd \<leftarrow> rd16 ar_hrd packet;
       pro \<leftarrow> rd16 ar_pro packet;
       if ntohs hrd = arp_hrd_ethernet \<and> ntohs pro = arp_pro_ip then do {
         source_ether_addr \<leftarrow> rd_bytes ar_sha ETHER_ADDR_LEN packet;
         source_ip_addr \<leftarrow> rd32 ar_sip packet;
         op \<leftarrow> rd16 ar_op packet;
         let arp_type = ntohs op;
         if arp_type = arp_op_request then do {
           (_, c) \<leftarrow> sr_arpcache_insert (clock sr) (cache sr) source_ether_addr source_ip_addr;
           sr_send_arp (sr\<lparr>cache := c\<rparr>) interface arp_op_reply source_ether_addr source_ip_addr
         } else if arp_type = arp_op_reply then do {
           (arp_req, c) \<leftarrow> sr_arpcache_insert (clock sr) (cache sr) source_ether_addr source_ip_addr;
           let sr = sr\<lparr>cache := c\<rparr>;
           case arp_req of
             Some req \<Rightarrow> do {
               sr \<leftarrow> send_queued sr source_ether_addr interface (req_packets req);
               Some (sr\<lparr>cache := sr_arpreq_destroy (cache sr) (req_addr req)\<rparr>)
             }
           | None \<Rightarrow> Some sr
         } else Some sr
       } else Some sr
     }"

section \<open>IP\<close>

text \<open>A packet for one of the router's own addresses, past the checksum test.\<close>

definition handle_ip_to_router ::
  "sr_instance \<Rightarrow> buf \<Rightarrow> u32 \<Rightarrow> string \<Rightarrow> nat \<Rightarrow> u8 \<Rightarrow> sr_instance option" where
  "handle_ip_to_router sr packet len interface load protocol =
     (if protocol = ip_protocol_icmp then do {
        _ \<leftarrow> rd_bytes load sizeof_sr_icmp_hdr packet;
        stored \<leftarrow> rd16 (load + icmp_sum) packet;
        packet0 \<leftarrow> wr16 (load + icmp_sum) 0 packet;
        c \<leftarrow> cksum (drop load packet0) (sint (len - of_nat load));
        if c \<noteq> stored then Some sr
        else do {
          packet \<leftarrow> wr16 (load + icmp_sum) stored packet0;
          type \<leftarrow> rd8 (load + icmp_type) packet;
          if type = 8 then sr_send_icmp sr packet interface icmp_type_echoreply 0
          else if nat_enabled sr \<and> type = 0 then do {
            (code, packet, sr) \<leftarrow> nat_handle_icmp sr packet;
            if code \<noteq> 0 then sr_forward_ippacket sr packet len interface else Some sr
          } else Some sr
        }
      }
      else if protocol = ip_protocol_tcp \<or> protocol = ip_protocol_udp then
        (if nat_enabled sr \<and> protocol = ip_protocol_tcp then do {
           (code, packet, sr) \<leftarrow> nat_handle_tcp sr packet len 1;
           if code = 1 then sr_forward_ippacket sr packet len interface
           else if code = -1 then Some sr
           else sr_send_icmp sr packet interface icmp_type_dstunreachable 3
         }
         else sr_send_icmp sr packet interface icmp_type_dstunreachable 3)
      else sr_send_icmp sr packet interface icmp_type_dstunreachable 2)"

text \<open>A packet to pass on, past the checksum test.\<close>

definition handle_ip_transit ::
  "sr_instance \<Rightarrow> buf \<Rightarrow> u32 \<Rightarrow> string \<Rightarrow> u8 \<Rightarrow> sr_instance option" where
  "handle_ip_transit sr packet len interface protocol =
     do {
       ttl \<leftarrow> rd8 ip_ttl packet;
       if uint ttl - 1 = 0 then sr_send_icmp sr packet interface icmp_type_timeexceeded 0
       else if nat_enabled sr \<and> protocol = ip_protocol_icmp then do {
         (_, packet, sr) \<leftarrow> nat_handle_icmp sr packet;
         sr_forward_ippacket sr packet len interface
       }
       else if nat_enabled sr \<and> protocol = ip_protocol_tcp then do {
         (success, packet, sr) \<leftarrow> nat_handle_tcp sr packet len 0;
         if success = 0 then sr_send_icmp sr packet interface icmp_type_dstunreachable 1
         else sr_forward_ippacket sr packet len interface
       }
       else sr_forward_ippacket sr packet len interface
     }"

definition sr_handle_ippacket :: "sr_instance \<Rightarrow> buf \<Rightarrow> u32 \<Rightarrow> string \<Rightarrow> sr_instance option" where
  "sr_handle_ippacket sr packet len interface =
     (if IP_MAXPACKET < len \<or> len \<le> of_nat sizeof_sr_ip_hdr then Some sr
      else do {
        packet_sum \<leftarrow> rd16 ip_sum packet;
        hl \<leftarrow> ip_hl packet;
        let header_len = hl * 4;
        packet0 \<leftarrow> wr16 ip_sum 0 packet;
        c \<leftarrow> cksum packet0 (int header_len);
        if c \<noteq> packet_sum then Some sr
        else do {
          packet \<leftarrow> wr16 ip_sum packet_sum packet0;
          _ \<leftarrow> rd_bytes 0 sizeof_sr_ip_hdr packet;
          protocol \<leftarrow> rd8 ip_p packet;
          dest_ip \<leftarrow> rd32 ip_dst packet;
          if list_ex (\<lambda>curr. if_ip curr = dest_ip) (if_list sr) \<or> dest_ip = ip_broadcast_addr
          then handle_ip_to_router sr packet len interface header_len protocol
          else handle_ip_transit sr packet len interface protocol
        }
      })"

section \<open>Ethernet\<close>

text \<open>
  \<open>memcmp(dest_macaddr, ether_broadcast_addr, ETHER_ADDR_LEN != 0)\<close>: the third argument is the value
  of the comparison, 1.
\<close>

definition sr_handlepacket :: "sr_instance \<Rightarrow> buf \<Rightarrow> u32 \<Rightarrow> string \<Rightarrow> sr_instance option" where
  "sr_handlepacket sr packet len interface =
     do {
       dest_macaddr \<leftarrow> rd_bytes ether_dhost ETHER_ADDR_LEN packet;
       iface \<leftarrow> sr_get_interface (if_list sr) interface;
       if_macaddr \<leftarrow> rd_bytes 0 ETHER_ADDR_LEN (if_addr iface);
       if take (of_bool (ETHER_ADDR_LEN \<noteq> 0)) dest_macaddr \<noteq>
            take (of_bool (ETHER_ADDR_LEN \<noteq> 0)) ether_broadcast_addr \<and>
          dest_macaddr \<noteq> if_macaddr
       then Some sr
       else do {
         type \<leftarrow> rd16 ether_type packet;
         let load = drop sizeof_sr_ethernet_hdr packet;
         let load_len = len - of_nat sizeof_sr_ethernet_hdr;
         if ntohs type = ethertype_arp then sr_handle_arp sr load load_len interface
         else if ntohs type = ethertype_ip then sr_handle_ippacket sr load load_len interface
         else Some sr
       }
     }"

section \<open>Which frames and packets are handled\<close>

text \<open>
  A frame is dropped when its destination is not the interface's address and does not begin with the
  byte 255: the test for the broadcast address looks at one byte.
\<close>

lemma sr_handlepacket_dest:
  assumes len: "14 \<le> length packet" and i: "sr_get_interface (if_list sr) interface = Some i" "length (if_addr i) = 6"
  shows "take 6 packet \<noteq> if_addr i \<Longrightarrow> packet ! 0 \<noteq> 255 \<Longrightarrow> sr_handlepacket sr packet len interface = Some sr"
    "take 6 packet = if_addr i \<or> packet ! 0 = 255 \<Longrightarrow> rd16 ether_type packet = Some (htons ethertype_ip) \<Longrightarrow>
       sr_handlepacket sr packet len interface = sr_handle_ippacket sr (drop 14 packet) (len - 14) interface"
    "take 6 packet = if_addr i \<or> packet ! 0 = 255 \<Longrightarrow> rd16 ether_type packet = Some (htons ethertype_arp) \<Longrightarrow>
       sr_handlepacket sr packet len interface = sr_handle_arp sr (drop 14 packet) (len - 14) interface"
proof -
  have "take (Suc 0) (take 6 packet) = [packet ! 0]" using len by (cases packet) simp_all
  then have first: "take (Suc 0) (take 6 packet) = take (Suc 0) ether_broadcast_addr \<longleftrightarrow> packet ! 0 = 255"
    by (simp add: ether_broadcast_addr_def)
  have d: "rd_bytes 0 6 packet = Some (take 6 packet)" "rd_bytes 0 6 (if_addr i) = Some (if_addr i)"
    using len i(2) by (simp_all add: rd_bytes_def)
  show "take 6 packet \<noteq> if_addr i \<Longrightarrow> packet ! 0 \<noteq> 255 \<Longrightarrow> sr_handlepacket sr packet len interface = Some sr"
    unfolding sr_handlepacket_def using first i(1) d by simp
  show "sr_handlepacket sr packet len interface = sr_handle_ippacket sr (drop 14 packet) (len - 14) interface"
    if "take 6 packet = if_addr i \<or> packet ! 0 = 255" "rd16 ether_type packet = Some (htons ethertype_ip)"
    unfolding sr_handlepacket_def using that first i(1) d by (auto simp: Let_def ntohs_htons)
  show "sr_handlepacket sr packet len interface = sr_handle_arp sr (drop 14 packet) (len - 14) interface"
    if "take 6 packet = if_addr i \<or> packet ! 0 = 255" "rd16 ether_type packet = Some (htons ethertype_arp)"
    unfolding sr_handlepacket_def using that first i(1) d by (auto simp: Let_def ntohs_htons)
qed

text \<open>
  The checksum gate: a packet goes on, unchanged, exactly when its header checksum is valid and not
  stored as zero; otherwise it is dropped.
\<close>

lemma sr_handle_ippacket_gate:
  assumes len: "20 < unat len" "unat len \<le> 65535" "unat len \<le> length p"
    and hl: "ip_hl p = Some hl" "5 \<le> hl" "hl * 4 \<le> length p" and v: "rd16 ip_sum p = Some v"
    and f: "rd8 ip_p p = Some protocol" "rd32 ip_dst p = Some dst"
  shows "sr_handle_ippacket sr p len interface =
    (if v \<noteq> 0 \<and> valid_sum (take (hl * 4) p)
     then (if list_ex (\<lambda>i. if_ip i = dst) (if_list sr) \<or> dst = ip_broadcast_addr
           then handle_ip_to_router sr p len interface (hl * 4) protocol
           else handle_ip_transit sr p len interface protocol)
     else Some sr)"
proof -
  obtain p0 where z: "wr16 10 0 p = Some p0" "length p0 = length p"
    using f16.put_total [of 10 p 0] len by auto
  obtain c where c: "cksum p0 (int (hl * 4)) = Some c"
    using cksum_Some [of "int (hl * 4)" p0] hl(3) z(2) unfolding nat_int by auto
  have b: "\<not> (IP_MAXPACKET < len)" "\<not> (len \<le> 20)"
    using len by (simp_all add: word_less_nat_alt word_le_nat_alt)
  have "c = v \<longleftrightarrow> v \<noteq> 0 \<and> valid_sum (take (hl * 4) p)"
    using hl ip_hl_le [OF hl(1)] by (intro cksum_check [OF _ _ _ _ v z(1) c]) simp_all
  moreover have "wr16 10 v p0 = Some p" using f16.save_restore [OF v z(1)] .
  moreover have "rd_bytes 0 20 p = Some (take 20 p)" using len by (simp add: mem)
  ultimately show ?thesis
    using b hl(1) v z(1) c f by (simp add: sr_handle_ippacket_def Let_def)
qed

section \<open>Transit without NAT\<close>

lemma handle_ip_transit_plain:
  assumes "\<not> nat_enabled sr" "rd8 ip_ttl p = Some ttl"
  shows "handle_ip_transit sr p len interface protocol =
    (if ttl = 1 then sr_send_icmp sr p interface icmp_type_timeexceeded 0
     else sr_forward_ippacket sr p len interface)"
proof -
  have "uint ttl - 1 = 0 \<longleftrightarrow> ttl = 1"
    by (metis diff_eq_eq add_0 uint_1 word_uint_eqI)
  then show ?thesis using assms by (simp add: handle_ip_transit_def)
qed

section \<open>ARP\<close>

definition arp_packet_fields :: "buf \<Rightarrow> u16 \<Rightarrow> buf \<Rightarrow> u32 \<Rightarrow> bool" where
  "arp_packet_fields p op sha sip \<longleftrightarrow>
     rd16 ar_hrd p = Some (htons arp_hrd_ethernet) \<and> rd16 ar_pro p = Some (htons arp_pro_ip) \<and>
     rd16 ar_op p = Some (htons op) \<and> rd_bytes ar_sha 6 p = Some sha \<and> rd32 ar_sip p = Some sip"

lemma rd_bytes_length: "rd_bytes off n b = Some xs \<Longrightarrow> length xs = n"
  by (auto simp: rd_bytes_def split: if_splits)

text \<open>A request is answered, and the sender's address cached; a request queued for the sender is lost.\<close>

lemma sr_handle_arp_request:
  assumes p: "arp_packet_fields p arp_op_request sha sip"
    and i: "sr_get_interface (if_list sr) interface = Some i" "length (if_addr i) = 6"
    and sock: "sock_ok sr"
  shows "\<exists>req c sr'. sr_arpcache_insert (clock sr) (cache sr) sha sip = Some (req, c) \<and>
    sr_handle_arp sr p len interface = Some sr' \<and>
    emits (sr\<lparr>cache := c\<rparr>) sr' [vns_message interface (ether_frame sha (if_addr i) ethertype_arp
      (arp_payload arp_op_reply (if_addr i) (if_ip i) sha sip))]"
proof -
  have sha: "length sha = 6" using p by (auto simp: arp_packet_fields_def dest: rd_bytes_length)
  obtain req c where c: "sr_arpcache_insert (clock sr) (cache sr) sha sip = Some (req, c)"
    using insert_defined [OF sha] by blast
  obtain sr' where "sr_send_arp (sr\<lparr>cache := c\<rparr>) interface arp_op_reply sha sip = Some sr'"
    "emits (sr\<lparr>cache := c\<rparr>) sr' [vns_message interface (ether_frame sha (if_addr i) ethertype_arp
      (arp_payload arp_op_reply (if_addr i) (if_ip i) sha sip))]"
    using sr_send_arp_emits [of "sr\<lparr>cache := c\<rparr>" interface i sha] i sha sock
    by (auto simp: sock_ok_def)
  then show ?thesis
    using p c by (simp add: sr_handle_arp_def arp_packet_fields_def Let_def)
qed

text \<open>
  A reply to a request sends its packets, in the order of its list, to the sender of the reply.  All go
  out through the interface of the reply, but a frame is built for the interface its packet was queued
  for: one with another hardware address is refused, and its packet is lost.
\<close>

definition queued_frame :: "sr_if list \<Rightarrow> buf \<Rightarrow> sr_packet \<Rightarrow> buf" where
  "queued_frame ifs mac pkt =
     ether_frame mac (if_addr (the (sr_get_interface ifs (pkt_iface pkt)))) ethertype_ip (pkt_buf pkt)"

definition queued_on :: "sr_if list \<Rightarrow> buf \<Rightarrow> sr_packet \<Rightarrow> bool" where
  "queued_on ifs addr pkt \<longleftrightarrow> if_addr (the (sr_get_interface ifs (pkt_iface pkt))) = addr"

lemma send_queued_emits:
  assumes "list_all (\<lambda>pkt. pkt_ok pkt \<and> sr_get_interface (if_list sr) (pkt_iface pkt) \<noteq> None) pkts"
    and ifs: "ifs_ok (if_list sr)" and i: "sr_get_interface (if_list sr) interface = Some i"
    and "length mac = 6" "sock_ok sr"
  shows "\<exists>sr'. send_queued sr mac interface pkts = Some sr' \<and>
    emits sr sr' (map (\<lambda>pkt. vns_message interface (queued_frame (if_list sr) mac pkt))
      (filter (queued_on (if_list sr) (if_addr i)) pkts))"
  using assms
proof (induction pkts arbitrary: sr)
  case (Cons pkt pkts)
  define frame where "frame = queued_frame (if_list sr) mac pkt"
  obtain k where k: "sr_get_interface (if_list sr) (pkt_iface pkt) = Some k" using Cons.prems(1) by auto
  have six: "length (if_addr k) = 6" "length (if_addr i) = 6"
    using Cons.prems(2) sr_get_interface_Some [OF k] sr_get_interface_Some [OF Cons.prems(3)]
    by (simp_all add: ifs_ok_def list_all_iff)
  have pkt: "length (pkt_buf pkt) = unat (pkt_len pkt)" "unat (pkt_len pkt) + 14 < 2 ^ 31"
    using Cons.prems(1) by (auto simp: pkt_ok_def)
  have f: "sr_create_etherframe (pkt_len pkt) (pkt_buf pkt) mac (if_addr k) ethertype_ip = Some frame"
    using frame_sent(1) [OF k six(1) Cons.prems(4) pkt Cons.prems(5), of ethertype_ip]
    by (simp add: frame_def queued_frame_def k)
  have len: "length frame = unat (14 + pkt_len pkt)" "unat (14 + pkt_len pkt) < 2 ^ 31"
    using pkt six Cons.prems(4) by (simp_all add: frame_def queued_frame_def k ether_frame_def unat_word_ariths)
  have fields: "take 6 (drop 6 frame) = if_addr k" "14 \<le> length frame"
    using six Cons.prems(4) by (simp_all add: frame_def queued_frame_def k ether_frame_def)
  obtain r sr1 where s: "sr_send_packet sr frame (14 + pkt_len pkt) interface = Some (r, sr1)"
    and e: "emits sr sr1 (if queued_on (if_list sr) (if_addr i) pkt then [vns_message interface frame] else [])"
  proof (cases "if_addr k = if_addr i")
    case True
    then have "frame_ok (if_list sr) frame interface"
      using fields six Cons.prems(3) by (simp add: frame_ok_def)
    from sr_send_packet_frame [OF len Cons.prems(5) this] True k that show thesis
      by (auto simp: queued_on_def)
  next
    case False
    from sr_send_packet_mismatch [OF len fields(2) Cons.prems(3) six(2)] fields(1) False k that
    show thesis by (auto simp: queued_on_def)
  qed
  note same = only_output_same [OF emits_only_output [OF e]]
  obtain sr' where r: "send_queued sr1 mac interface pkts = Some sr'"
    and e': "emits sr1 sr' (map (\<lambda>pkt. vns_message interface (queued_frame (if_list sr) mac pkt))
      (filter (queued_on (if_list sr) (if_addr i)) pkts))"
    using Cons.IH [of sr1] Cons.prems same by (auto simp: sock_ok_def)
  have "send_queued sr mac interface (pkt # pkts) = Some sr'" using k f s r by simp
  moreover note emits_trans [OF e e']
  ultimately show ?case by (cases "queued_on (if_list sr) (if_addr i) pkt") (auto simp: frame_def)
qed simp

lemma sr_handle_arp_reply:
  assumes p: "arp_packet_fields p arp_op_reply sha sip"
    and ifs: "ifs_ok (if_list sr)" and i: "sr_get_interface (if_list sr) interface = Some i"
    and sock: "sock_ok sr" and inv: "arp_inv (cache sr)"
    and req: "req \<in> set (requests (cache sr))" "req_ip req = sip"
    and pkts: "\<forall>pkt \<in> set (req_packets req). sr_get_interface (if_list sr) (pkt_iface pkt) \<noteq> None"
  shows "\<exists>sr' c. sr_handle_arp sr p len interface = Some sr' \<and>
    wire sr' = wire sr @ map (\<lambda>pkt. vns_message interface (queued_frame (if_list sr) sha pkt))
      (filter (queued_on (if_list sr) (if_addr i)) (req_packets req)) \<and>
    requests (cache sr') = filter (\<lambda>r. req_ip r \<noteq> sip) (requests (cache sr)) \<and>
    sr_arpcache_insert (clock sr) (cache sr) sha sip = Some (Some req, c) \<and> cache sr' = c"
proof -
  have sha: "length sha = 6" using p by (auto simp: arp_packet_fields_def dest: rd_bytes_length)
  obtain r c where c: "sr_arpcache_insert (clock sr) (cache sr) sha sip = Some (r, c)"
    using insert_defined [OF sha] by blast
  have "find (\<lambda>r. req_ip r = sip) (requests (cache sr)) = Some req"
    using find_distinct_iff [of req_ip "requests (cache sr)" sip req] inv req by (simp add: arp_inv_def)
  then have r: "r = Some req" using c by (auto simp: sr_arpcache_insert_def Let_def Option.bind_eq_Some_conv split: if_splits)
  note q = arp_inv_insert_req [OF inv c [unfolded r]]
  have ok: "list_all (\<lambda>pkt. pkt_ok pkt \<and> sr_get_interface (if_list sr) (pkt_iface pkt) \<noteq> None) (req_packets req)"
    using pkts q(3) by (simp add: list_all_iff)
  obtain sr1 where s: "send_queued (sr\<lparr>cache := c\<rparr>) sha interface (req_packets req) = Some sr1"
    and e: "emits (sr\<lparr>cache := c\<rparr>) sr1 (map (\<lambda>pkt. vns_message interface (queued_frame (if_list sr) sha pkt))
      (filter (queued_on (if_list sr) (if_addr i)) (req_packets req)))"
    using send_queued_emits [of "sr\<lparr>cache := c\<rparr>" "req_packets req" interface i sha] ok ifs i sha sock
    by (auto simp: sock_ok_def)
  have c1: "cache sr1 = c" using only_output_same(3) [OF emits_only_output [OF e]] by simp
  have gone: "req_addr req \<notin> req_addr ` set (requests c)"
  proof
    assume "req_addr req \<in> req_addr ` set (requests c)"
    then obtain r' where "r' \<in> set (requests (cache sr))" "req_ip r' \<noteq> sip" "req_addr r' = req_addr req"
      using q(4) by auto
    moreover have "inj_on req_addr (set (requests (cache sr)))" using inv by (simp add: arp_inv_def distinct_map)
    ultimately have "r' = req" using req(1) by (meson inj_onD)
    with \<open>req_ip r' \<noteq> sip\<close> req(2) show False by simp
  qed
  then have "remove_first (\<lambda>r. req_addr r = req_addr req) (requests c) = requests c"
    by (intro remove_first_id) (metis image_eqI)
  then have "sr_arpreq_destroy c (req_addr req) = c" by (simp add: sr_arpreq_destroy_def)
  then show ?thesis
    using p c r s c1 q(4) emits_wire [OF e]
    by (simp add: sr_handle_arp_def arp_packet_fields_def Let_def)
qed

section \<open>The invariant of the router\<close>

definition router_inv :: "sr_instance \<Rightarrow> bool" where
  "router_inv sr \<longleftrightarrow> arp_inv (cache sr) \<and> nat_ok (nat_st sr) \<and> ifs_ok (if_list sr)"

text \<open>The part of it that holds also when the table outgrows the identifiers.\<close>

definition router_safe :: "sr_instance \<Rightarrow> bool" where
  "router_safe sr \<longleftrightarrow> arp_inv (cache sr) \<and> nat_safe (nat_st sr) \<and> ifs_ok (if_list sr)"

lemma router_inv_iff: "router_inv sr \<longleftrightarrow> router_safe sr \<and> nat_inv (nat_st sr)"
  by (auto simp: router_inv_def router_safe_def nat_ok_iff)

lemma router_inv_safe: "router_inv sr \<Longrightarrow> router_safe sr"
  by (simp add: router_inv_iff)

lemma router_inv_init:
  "ifs_ok (if_list sr) \<Longrightarrow> unsol_small (nat_st sr) \<Longrightarrow> router_inv (sr_init sr a b c)"
  by (simp add: router_inv_def sr_init_def arp_inv_init nat_ok_def nat_inv_init states_ok_init)
    (simp add: unsol_small_def sr_nat_init_def)

text \<open>What a handler may change, and how the IP handlers reach their last call.\<close>

definition only_tables :: "sr_instance \<Rightarrow> sr_instance \<Rightarrow> bool" where
  "only_tables sr sr' \<longleftrightarrow> (\<exists>c n l w. sr' = sr\<lparr>cache := c, nat_st := n, logfile := l, wire := w\<rparr>)"

lemma only_tables_cache: "only_cache sr sr' \<Longrightarrow> only_tables sr sr'"
  unfolding only_cache_def only_tables_def by (elim exE, rule exI, rule exI [of _ "nat_st sr"]) auto

lemma only_tables_nat: "only_nat sr sr' \<Longrightarrow> only_tables sr sr'"
  unfolding only_nat_def only_tables_def
  by (elim exE, rule exI [of _ "cache sr"], rule exI, rule exI [of _ "logfile sr"], rule exI [of _ "wire sr"]) simp

lemma only_tables_refl [simp]: "only_tables sr sr"
  by (rule only_tables_cache) simp

lemma only_tables_trans:
  assumes "only_tables a b" "only_tables b c"
  shows "only_tables a c"
proof -
  from assms obtain k n l w where "c = a\<lparr>cache := k, nat_st := n, logfile := l, wire := w\<rparr>"
    by (auto simp: only_tables_def)
  then show ?thesis unfolding only_tables_def by blast
qed

lemma only_tables_same:
  assumes "only_tables sr sr'"
  shows "if_list sr' = if_list sr" "routing_table sr' = routing_table sr"
    "nat_enabled sr' = nat_enabled sr" "clock sr' = clock sr" "sock_write sr' = sock_write sr"
  using assms by (auto simp: only_tables_def)

text \<open>One call of a translation handler, or none.\<close>

definition translated :: "sr_instance \<Rightarrow> sr_instance \<Rightarrow> bool" where
  "translated sr sr' \<longleftrightarrow> sr' = sr \<or>
     (\<exists>p code p'. nat_handle_icmp sr p = Some (code, p', sr')) \<or>
     (\<exists>p len dir code p'. nat_handle_tcp sr p len dir = Some (code, p', sr'))"

definition nat_step :: "nat \<Rightarrow> sr_instance \<Rightarrow> sr_instance \<Rightarrow> bool" where
  "nat_step n sr sr' \<longleftrightarrow>
     only_nat sr sr' \<and> translated sr sr' \<and>
     (nat_ok (nat_st sr) \<longrightarrow> nat_fits (nat_st sr') \<longrightarrow> n + 14 < 2 ^ 31 \<longrightarrow> nat_ok (nat_st sr')) \<and>
     (nat_safe (nat_st sr) \<longrightarrow> n + 14 < 2 ^ 31 \<longrightarrow> nat_safe (nat_st sr'))"

lemma nat_step_refl [simp]: "nat_step n sr sr"
  by (simp add: nat_step_def translated_def)

lemma nat_step_handlers:
  "nat_handle_icmp sr p = Some (code, p', sr') \<Longrightarrow> nat_step (length p) sr sr' \<and> length p' = length p"
  "nat_handle_tcp sr p len dir = Some (code, p', sr') \<Longrightarrow> nat_step (length p) sr sr' \<and> length p' = length p"
  by (auto simp: nat_step_def nat_handle_icmp_keeps nat_handle_tcp_keeps translated_def)

definition ends_with :: "sr_instance \<Rightarrow> buf \<Rightarrow> u32 \<Rightarrow> string \<Rightarrow> sr_instance \<Rightarrow> bool" where
  "ends_with sr p len interface sr' \<longleftrightarrow>
     (\<exists>p1 sr1. nat_step (length p) sr sr1 \<and> length p1 = length p \<and>
        (sr' = sr1 \<or> (\<exists>t c. sr_send_icmp sr1 p1 interface t c = Some sr') \<or>
         sr_forward_ippacket sr1 p1 len interface = Some sr'))"

lemma ends_withI:
  "ends_with sr p len interface sr"
  "nat_step (length p) sr sr1 \<Longrightarrow> ends_with sr p len interface sr1"
  "sr_send_icmp sr p interface t c = Some sr' \<Longrightarrow> ends_with sr p len interface sr'"
  "sr_forward_ippacket sr p len interface = Some sr' \<Longrightarrow> ends_with sr p len interface sr'"
  "nat_step (length p) sr sr1 \<and> length p1 = length p \<Longrightarrow> sr_send_icmp sr1 p1 interface t c = Some sr' \<Longrightarrow>
     ends_with sr p len interface sr'"
  "nat_step (length p) sr sr1 \<and> length p1 = length p \<Longrightarrow> sr_forward_ippacket sr1 p1 len interface = Some sr' \<Longrightarrow>
     ends_with sr p len interface sr'"
  unfolding ends_with_def using nat_step_refl by blast+

lemma ends_with_length: "ends_with sr p0 len i sr' \<Longrightarrow> length p0 = length p \<Longrightarrow> ends_with sr p len i sr'"
  by (simp add: ends_with_def)

lemma handle_ip_transit_ends:
  assumes "handle_ip_transit sr p len interface protocol = Some sr'"
  shows "ends_with sr p len interface sr'"
  using assms
  by (auto simp: handle_ip_transit_def Option.bind_eq_Some_conv split: if_splits
      intro: ends_withI(3,4) ends_withI(5,6) [OF nat_step_handlers(1)] ends_withI(5,6) [OF nat_step_handlers(2)])

lemma handle_ip_to_router_ends:
  assumes "handle_ip_to_router sr p len interface load protocol = Some sr'"
  shows "ends_with sr p len interface sr'"
proof -
  consider "protocol = ip_protocol_icmp" | "nat_enabled sr" "protocol = ip_protocol_tcp"
    | "\<exists>c. sr_send_icmp sr p interface icmp_type_dstunreachable c = Some sr'"
    using assms by (auto simp: handle_ip_to_router_def split: if_splits)
  then show ?thesis
  proof cases
    case 1
    with assms obtain p0 stored c where w: "wr16 (load + icmp_sum) 0 p = Some p0"
      and r: "(if c \<noteq> stored then Some sr
        else do {
          packet \<leftarrow> wr16 (load + icmp_sum) stored p0;
          type \<leftarrow> rd8 (load + icmp_type) packet;
          if type = 8 then sr_send_icmp sr packet interface icmp_type_echoreply 0
          else if nat_enabled sr \<and> type = 0 then do {
            (code, packet, sr) \<leftarrow> nat_handle_icmp sr packet;
            if code \<noteq> 0 then sr_forward_ippacket sr packet len interface else Some sr
          } else Some sr
        }) = Some sr'"
      by (auto simp: handle_ip_to_router_def Option.bind_eq_Some_conv)
    show ?thesis
    proof (cases "c = stored")
      case True
      with r obtain p1 and type :: u8 where p1: "wr16 (load + icmp_sum) stored p0 = Some p1"
        and r': "(if type = 8 then sr_send_icmp sr p1 interface icmp_type_echoreply 0
          else if nat_enabled sr \<and> type = 0 then do {
            (code, packet, sr) \<leftarrow> nat_handle_icmp sr p1;
            if code \<noteq> 0 then sr_forward_ippacket sr packet len interface else Some sr
          } else Some sr) = Some sr'"
        by (auto simp: Option.bind_eq_Some_conv)
      have "length p1 = length p" using f16.put_length [OF w] f16.put_length [OF p1] by simp
      moreover have "ends_with sr p1 len interface sr'"
        using r' by (auto simp: Option.bind_eq_Some_conv split: if_splits
            intro: ends_withI(1,3) ends_withI(6) [OF nat_step_handlers(1)]
              ends_withI(2) [OF nat_step_handlers(1) [THEN conjunct1]])
      ultimately show ?thesis using ends_with_length by blast
    qed (use r in \<open>simp add: ends_withI(1)\<close>)
  next
    case 2
    with assms obtain code p1 sr1 where t: "nat_handle_tcp sr p len 1 = Some (code, p1, sr1)"
      and r: "(if code = 1 then sr_forward_ippacket sr1 p1 len interface
           else if code = -1 then Some sr1
           else sr_send_icmp sr1 p1 interface icmp_type_dstunreachable 3) = Some sr'"
      by (auto simp: handle_ip_to_router_def Option.bind_eq_Some_conv)
    note s = nat_step_handlers(2) [OF t]
    show ?thesis using r ends_withI(2,5,6) s by (metis option.inject)
  next
    case 3
    then show ?thesis using ends_withI(3) by blast
  qed
qed

lemma ends_with_keeps:
  assumes "ends_with sr p len interface sr'"
  shows "only_tables sr sr'"
    "router_safe sr \<Longrightarrow> length p + 14 < 2 ^ 31 \<Longrightarrow> len \<noteq> 0 \<and> unat len + 14 < 2 ^ 31 \<Longrightarrow> router_safe sr'"
    "router_inv sr \<Longrightarrow> nat_fits (nat_st sr') \<Longrightarrow> length p + 14 < 2 ^ 31 \<Longrightarrow>
       len \<noteq> 0 \<and> unat len + 14 < 2 ^ 31 \<Longrightarrow> router_inv sr'"
proof -
  obtain p1 sr1 where s: "nat_step (length p) sr sr1" "length p1 = length p"
    and e: "sr' = sr1 \<or> (\<exists>t c. sr_send_icmp sr1 p1 interface t c = Some sr') \<or>
         sr_forward_ippacket sr1 p1 len interface = Some sr'"
    using assms by (auto simp: ends_with_def)
  have n: "only_nat sr sr1" using s(1) by (simp add: nat_step_def)
  have c: "only_cache sr1 sr'"
    using e by (auto dest: sr_send_icmp_keeps(1) sr_forward_ippacket_keeps(1))
  show "only_tables sr sr'"
    using only_tables_trans [OF only_tables_nat [OF n] only_tables_cache [OF c]] .
  have nat: "nat_st sr' = nat_st sr1" by (rule only_cache_same(3) [OF c])
  have safe: "router_safe sr'"
    if inv: "router_safe sr" "length p + 14 < 2 ^ 31" "len \<noteq> 0 \<and> unat len + 14 < 2 ^ 31"
  proof -
    have "arp_inv (cache sr1)" "ifs_ok (if_list sr1)"
      using inv(1) n by (auto simp: router_safe_def only_nat_def)
    moreover from this have "arp_inv (cache sr')"
      using e inv(2,3) s(2) by (auto dest: sr_send_icmp_keeps(2) sr_forward_ippacket_keeps(2))
    ultimately show ?thesis
      using inv(1,2) s(1) nat only_cache_same(1) [OF c] by (simp add: router_safe_def nat_step_def)
  qed
  then show "router_safe sr \<Longrightarrow> length p + 14 < 2 ^ 31 \<Longrightarrow> len \<noteq> 0 \<and> unat len + 14 < 2 ^ 31 \<Longrightarrow> router_safe sr'" .
  show "router_inv sr'"
    if inv: "router_inv sr" "nat_fits (nat_st sr')" "length p + 14 < 2 ^ 31" "len \<noteq> 0 \<and> unat len + 14 < 2 ^ 31"
  proof -
    have "nat_ok (nat_st sr')" using inv(1-3) s(1) nat by (simp add: router_inv_def nat_step_def)
    then show ?thesis
      using safe [OF router_inv_safe [OF inv(1)] inv(3,4)] by (simp add: router_inv_iff nat_ok_iff)
  qed
qed

lemma sr_handle_ippacket_ends:
  assumes "sr_handle_ippacket sr p len interface = Some sr'"
  shows "sr' = sr \<or> ((len \<noteq> 0 \<and> unat len + 14 < 2 ^ 31) \<and> ends_with sr p len interface sr')"
proof (cases "IP_MAXPACKET < len \<or> len \<le> of_nat sizeof_sr_ip_hdr")
  case True
  then show ?thesis using assms by (simp add: sr_handle_ippacket_def)
next
  case False
  with assms obtain v p0 hl c where w: "wr16 ip_sum 0 p = Some p0"
    and r: "(if c \<noteq> v then Some sr
      else do {
        packet \<leftarrow> wr16 ip_sum v p0;
        _ \<leftarrow> rd_bytes 0 sizeof_sr_ip_hdr packet;
        protocol \<leftarrow> rd8 ip_p packet;
        dest_ip \<leftarrow> rd32 ip_dst packet;
        if list_ex (\<lambda>curr. if_ip curr = dest_ip) (if_list sr) \<or> dest_ip = ip_broadcast_addr
        then handle_ip_to_router sr packet len interface (hl * 4) protocol
        else handle_ip_transit sr packet len interface protocol
      }) = Some sr'"
    by (auto simp: sr_handle_ippacket_def Let_def Option.bind_eq_Some_conv)
  have "len \<noteq> 0 \<and> unat len + 14 < 2 ^ 31" using False by (auto simp: word_less_nat_alt)
  show ?thesis
  proof (cases "c = v")
    case True
    with r obtain p1 protocol where p1: "wr16 ip_sum v p0 = Some p1"
      and h: "handle_ip_to_router sr p1 len interface (hl * 4) protocol = Some sr' \<or>
        handle_ip_transit sr p1 len interface protocol = Some sr'"
      by (auto simp: Option.bind_eq_Some_conv split: if_splits)
    have "length p1 = length p" using f16.put_length [OF w] f16.put_length [OF p1] by simp
    moreover have "ends_with sr p1 len interface sr'"
      using h handle_ip_to_router_ends handle_ip_transit_ends by blast
    ultimately show ?thesis using \<open>len \<noteq> 0 \<and> unat len + 14 < 2 ^ 31\<close> ends_with_length by blast
  qed (use r in simp)
qed

lemma sr_handle_ippacket_keeps:
  assumes "sr_handle_ippacket sr p len interface = Some sr'"
  shows "only_tables sr sr'"
    "router_safe sr \<Longrightarrow> length p + 14 < 2 ^ 31 \<Longrightarrow> router_safe sr'"
    "router_inv sr \<Longrightarrow> nat_fits (nat_st sr') \<Longrightarrow> length p + 14 < 2 ^ 31 \<Longrightarrow> router_inv sr'"
  using sr_handle_ippacket_ends [OF assms] ends_with_keeps by auto

lemma send_queued_output: "send_queued sr mac interface pkts = Some sr' \<Longrightarrow> only_output sr sr'"
  by (induction pkts arbitrary: sr)
    (auto simp: Option.bind_eq_Some_conv intro: only_output_trans dest!: sr_send_packet_output)

lemma sr_handle_arp_keeps:
  assumes "sr_handle_arp sr p len interface = Some sr'"
  shows "only_cache sr sr'" "arp_inv (cache sr) \<Longrightarrow> arp_inv (cache sr')"
proof -
  consider "sr' = sr"
    | mac ip req c sr1 a where "sr_arpcache_insert (clock sr) (cache sr) mac ip = Some (req, c)"
        "only_output (sr\<lparr>cache := c\<rparr>) sr1" "sr' = sr1 \<or> sr' = sr1\<lparr>cache := sr_arpreq_destroy (cache sr1) a\<rparr>"
  proof (cases "sr' = sr")
    case False
    from assms obtain hrd pro where r: "rd16 ar_hrd p = Some hrd" "rd16 ar_pro p = Some pro"
      by (auto simp: sr_handle_arp_def Option.bind_eq_Some_conv)
    have t: "ntohs hrd = arp_hrd_ethernet \<and> ntohs pro = arp_pro_ip"
      using assms r False by (auto simp: sr_handle_arp_def split: if_splits)
    from assms r t obtain mac ip op where m: "rd_bytes ar_sha 6 p = Some mac" "rd32 ar_sip p = Some ip" "rd16 ar_op p = Some op"
      by (auto simp: sr_handle_arp_def Option.bind_eq_Some_conv Let_def)
    consider "ntohs op = arp_op_request" | "ntohs op = arp_op_reply"
      using assms r t m False by (auto simp: sr_handle_arp_def Let_def split: if_splits)
    then show thesis
    proof cases
      case 1
      with assms r t m that(2) show ?thesis
        by (auto simp: sr_handle_arp_def Option.bind_eq_Some_conv Let_def dest!: sr_send_arp_output)
    next
      case 2
      with assms r t m obtain req c where c: "sr_arpcache_insert (clock sr) (cache sr) mac ip = Some (req, c)"
        by (auto simp: sr_handle_arp_def Option.bind_eq_Some_conv Let_def)
      show ?thesis
      proof (cases req)
        case None
        with assms r t m 2 c that(2) [of mac ip req c "sr\<lparr>cache := c\<rparr>"] show ?thesis
          by (simp add: sr_handle_arp_def Let_def)
      next
        case (Some q)
        with assms r t m 2 c that(2) [of mac ip req c] show ?thesis
          by (auto simp: sr_handle_arp_def Let_def Option.bind_eq_Some_conv dest!: send_queued_output)
      qed
    qed
  qed
  note cases = this
  from cases show "only_cache sr sr'"
  proof cases
    case (2 mac ip req c sr1 a)
    have "only_cache sr sr1"
      using only_cache_trans [OF only_cache_set only_cache_output [OF 2(2)]] .
    with 2(3) show ?thesis using only_cache_trans [OF _ only_cache_set] by auto
  qed simp
  assume inv: "arp_inv (cache sr)"
  from cases show "arp_inv (cache sr')"
  proof cases
    case (2 mac ip req c sr1 a)
    have "arp_inv c" by (rule arp_inv_insert [OF inv 2(1)])
    moreover have "cache sr1 = c" using only_output_same(3) [OF 2(2)] by simp
    ultimately show ?thesis using 2(3) by (auto intro: arp_inv_destroy)
  qed (use inv in simp)
qed

lemma sr_handlepacket_keeps:
  assumes "sr_handlepacket sr p len interface = Some sr'"
  shows "only_tables sr sr'"
    "router_safe sr \<Longrightarrow> length p + 14 < 2 ^ 31 \<Longrightarrow> router_safe sr'"
    "router_inv sr \<Longrightarrow> nat_fits (nat_st sr') \<Longrightarrow> length p + 14 < 2 ^ 31 \<Longrightarrow> router_inv sr'"
proof -
  consider "sr' = sr" | "sr_handle_arp sr (drop 14 p) (len - 14) interface = Some sr'"
    | "sr_handle_ippacket sr (drop 14 p) (len - 14) interface = Some sr'"
    using assms by (auto simp: sr_handlepacket_def Option.bind_eq_Some_conv Let_def split: if_splits)
  note cases = this
  from cases show "only_tables sr sr'"
    by cases (auto intro: only_tables_cache dest: sr_handle_arp_keeps(1) sr_handle_ippacket_keeps(1))
  show "router_safe sr'" if inv: "router_safe sr" "length p + 14 < 2 ^ 31"
    using cases
  proof cases
    case 2
    note k = sr_handle_arp_keeps [OF 2]
    show ?thesis using inv(1) k only_cache_same(1,3) [OF k(1)] by (simp add: router_safe_def)
  next
    case 3
    show ?thesis using inv by (intro sr_handle_ippacket_keeps(2) [OF 3]) simp_all
  qed (use inv in simp)
  show "router_inv sr'" if inv: "router_inv sr" "nat_fits (nat_st sr')" "length p + 14 < 2 ^ 31"
    using cases
  proof cases
    case 2
    note k = sr_handle_arp_keeps [OF 2]
    show ?thesis using inv(1) k only_cache_same(1,3) [OF k(1)] by (simp add: router_inv_def)
  next
    case 3
    show ?thesis using inv by (intro sr_handle_ippacket_keeps(3) [OF 3]) simp_all
  qed (use inv in simp)
qed

end
