(* ===== verification/SR_Timers.thy ===== *)
theory SR_Timers
  imports SR_Router
begin

text \<open>
  The bodies of the two timer threads: \<open>sr_arpcache_timeout\<close> with \<open>sr_arpcache_sweepreqs\<close> and
  \<open>sr_handle_arpreq_queue\<close> (\<open>sr_arpcache.c\<close>), and \<open>sr_nat_timeout\<close> (\<open>sr_nat.c\<close>).  One call of an
  operation here is one round of the thread's endless loop, after its \<open>sleep\<close>.
\<close>

section \<open>ARP requests\<close>

text \<open>The loop over the packets of a request that has been given up.\<close>

fun send_unreachable :: "sr_instance \<Rightarrow> sr_packet list \<Rightarrow> sr_instance option" where
  "send_unreachable sr [] = Some sr"
| "send_unreachable sr (pkt # rest) =
     do {
       sr \<leftarrow> sr_send_icmp sr (pkt_buf pkt) (pkt_sender pkt) icmp_type_dstunreachable 1;
       send_unreachable sr rest
     }"

text \<open>
  \<open>sr_handle_arpreq_queue\<close>, given the address of the request; the request is read through the list
  it is in.  The result also says whether the request was freed.
\<close>

definition req_at :: "sr_arpcache \<Rightarrow> nat \<Rightarrow> sr_arpreq option" where
  "req_at c a = find (\<lambda>req. req_addr req = a) (requests c)"

definition sr_handle_arpreq_queue :: "sr_instance \<Rightarrow> nat \<Rightarrow> sr_instance option" where
  "sr_handle_arpreq_queue sr a =
     do {
       req \<leftarrow> req_at (cache sr) a;
       if SR_ARPREQ_TO < clock sr - req_sent req then
         (if SR_ARPREQ_MAX \<le> req_times_sent req then do {
            sr \<leftarrow> send_unreachable sr (req_packets req);
            Some (sr\<lparr>cache := sr_arpreq_destroy (cache sr) a\<rparr>)
          } else
            (case req_packets req of
               [] \<Rightarrow> None
             | pkt # _ \<Rightarrow> do {
                 sr \<leftarrow> sr_send_arp sr (pkt_iface pkt) arp_op_request ether_broadcast_addr (req_ip req);
                 Some (sr\<lparr>cache := (cache sr)\<lparr>requests :=
                   update_first (\<lambda>req. req_addr req = a)
                     (\<lambda>req. req\<lparr>req_sent := clock sr, req_times_sent := req_times_sent req + 1\<rparr>)
                     (requests (cache sr))\<rparr>\<rparr>)
               }))
       else Some sr
     }"

text \<open>
  The node after the one at an address.  \<open>None\<close> when no live node has the address: the loop of
  \<open>sr_arpcache_sweepreqs\<close> reads \<open>req->next\<close> after \<open>sr_handle_arpreq_queue\<close>, which may have freed
  \<open>req\<close>.
\<close>

fun req_next :: "nat \<Rightarrow> sr_arpreq list \<Rightarrow> nat option option" where
  "req_next a [] = None"
| "req_next a (r # rs) =
     (if req_addr r = a then Some (case rs of [] \<Rightarrow> None | r' # _ \<Rightarrow> Some (req_addr r'))
      else req_next a rs)"

text \<open>
  The loop visits each request at most once, so the length of the list bounds its rounds; the fuel
  starts one above it and running out of it is not a value the loop can have.
\<close>

fun sweep_loop :: "nat \<Rightarrow> sr_instance \<Rightarrow> nat option \<Rightarrow> sr_instance option" where
  "sweep_loop fuel sr None = Some sr"
| "sweep_loop 0 sr (Some a) = None"
| "sweep_loop (Suc fuel) sr (Some a) =
     do {
       sr \<leftarrow> sr_handle_arpreq_queue sr a;
       next \<leftarrow> req_next a (requests (cache sr));
       sweep_loop fuel sr next
     }"

definition sr_arpcache_sweepreqs :: "sr_instance \<Rightarrow> sr_instance option" where
  "sr_arpcache_sweepreqs sr =
     sweep_loop (Suc (length (requests (cache sr)))) sr
       (case requests (cache sr) of [] \<Rightarrow> None | r # _ \<Rightarrow> Some (req_addr r))"

definition sr_arpcache_timeout :: "sr_instance \<Rightarrow> sr_instance option" where
  "sr_arpcache_timeout sr = sr_arpcache_sweepreqs (sr\<lparr>cache := arp_expire (clock sr) (cache sr)\<rparr>)"

section \<open>NAT\<close>

text \<open>The loop over the unsolicited packets; its result is the list that is left.\<close>

fun expire_unsol ::
  "sr_instance \<Rightarrow> sr_nat_unsol_pkt list \<Rightarrow> (sr_nat_unsol_pkt list \<times> sr_instance) option" where
  "expire_unsol sr [] = Some ([], sr)"
| "expire_unsol sr (curr_unsol # rest) =
     do {
       src \<leftarrow> rd32 ip_src (un_ip_packet curr_unsol);
       lpm \<leftarrow> sr_rt_lookup (routing_table sr) src;
       case lpm of
         Some lpm \<Rightarrow>
           if DEFAULT_TCP_SYN_TO < clock sr - un_last_updated curr_unsol then do {
             sr \<leftarrow> sr_send_icmp sr (un_ip_packet curr_unsol) (rt_interface lpm)
                    icmp_type_dstunreachable 3;
             expire_unsol sr rest
           } else do {
             (us, sr) \<leftarrow> expire_unsol sr rest;
             Some (curr_unsol # us, sr)
           }
       | None \<Rightarrow> do {
           (us, sr) \<leftarrow> expire_unsol sr rest;
           Some (curr_unsol # us, sr)
         }
     }"

definition sr_nat_timeout :: "sr_instance \<Rightarrow> sr_instance option" where
  "sr_nat_timeout sr =
     do {
       us \<leftarrow> unsol_pkt (nat_st sr);
       (us, sr) \<leftarrow> expire_unsol sr us;
       let nt = (nat_st sr)\<lparr>unsol_pkt := Some us\<rparr>;
       Some (sr\<lparr>nat_st := nat_expire (clock sr) nt\<rparr>)
     }"

section \<open>What the timers keep\<close>

lemma send_unreachable_keeps:
  assumes "send_unreachable sr pkts = Some sr'"
  shows "only_cache sr sr'"
    "arp_inv (cache sr) \<Longrightarrow> list_all pkt_ok pkts \<Longrightarrow> arp_inv (cache sr')"
proof -
  show "only_cache sr sr'"
    using assms
    by (induction pkts arbitrary: sr)
      (auto simp: Option.bind_eq_Some_conv intro: only_cache_trans dest!: sr_send_icmp_keeps(1))
  show "arp_inv (cache sr) \<Longrightarrow> list_all pkt_ok pkts \<Longrightarrow> arp_inv (cache sr')"
    using assms
  proof (induction pkts arbitrary: sr)
    case (Cons pkt pkts)
    then obtain sr1 where s: "sr_send_icmp sr (pkt_buf pkt) (pkt_sender pkt) icmp_type_dstunreachable 1 = Some sr1"
      and r: "send_unreachable sr1 pkts = Some sr'" by (auto simp: Option.bind_eq_Some_conv)
    have "length (pkt_buf pkt) + 14 < 2 ^ 31" using Cons.prems(2) by (simp add: pkt_ok_def)
    then have "arp_inv (cache sr1)" using sr_send_icmp_keeps(2) [OF s] Cons.prems(1) by blast
    then show ?case using Cons.IH [OF _ _ r] Cons.prems(2) by simp
  qed simp
qed

lemma req_at_Some: "req_at c a = Some r \<Longrightarrow> r \<in> set (requests c) \<and> req_addr r = a"
  by (auto simp: req_at_def dest: find_SomeD)

lemma arp_inv_touch:
  "arp_inv c \<Longrightarrow> arp_inv (c\<lparr>requests := update_first P (\<lambda>r. r\<lparr>req_sent := t, req_times_sent := n r\<rparr>) (requests c)\<rparr>)"
  by (auto simp: arp_inv_def map_update_first req_ok_def intro!: list_all_update_first)

lemma sr_handle_arpreq_queue_keeps:
  assumes "sr_handle_arpreq_queue sr a = Some sr'"
  shows "only_cache sr sr'" "arp_inv (cache sr) \<Longrightarrow> arp_inv (cache sr')"
proof -
  obtain req where r: "req_at (cache sr) a = Some req"
    using assms by (auto simp: sr_handle_arpreq_queue_def Option.bind_eq_Some_conv)
  consider "sr' = sr"
    | sr1 where "send_unreachable sr (req_packets req) = Some sr1" "sr' = sr1\<lparr>cache := sr_arpreq_destroy (cache sr1) a\<rparr>"
    | sr1 P t n where "only_output sr sr1"
        "sr' = sr1\<lparr>cache := (cache sr1)\<lparr>requests := update_first P
          (\<lambda>r. r\<lparr>req_sent := t, req_times_sent := n r\<rparr>) (requests (cache sr1))\<rparr>\<rparr>"
  proof (cases "1 < clock sr - req_sent req")
    case False
    then show thesis using assms r that(1) by (simp add: sr_handle_arpreq_queue_def)
  next
    case True
    show thesis
    proof (cases "5 \<le> req_times_sent req")
      case True
      with \<open>1 < clock sr - req_sent req\<close> show ?thesis
        using assms r that(2) by (auto simp: sr_handle_arpreq_queue_def Option.bind_eq_Some_conv)
    next
      case False
      with True obtain pkt pkts sr1 where "req_packets req = pkt # pkts"
          "sr_send_arp sr (pkt_iface pkt) arp_op_request ether_broadcast_addr (req_ip req) = Some sr1"
        and s: "sr' = sr1\<lparr>cache := (cache sr1)\<lparr>requests := update_first (\<lambda>req. req_addr req = a)
          (\<lambda>req. req\<lparr>req_sent := clock sr1, req_times_sent := req_times_sent req + 1\<rparr>) (requests (cache sr1))\<rparr>\<rparr>"
        using assms r by (auto simp: sr_handle_arpreq_queue_def Option.bind_eq_Some_conv split: list.splits)
      then show ?thesis using that(3) [OF sr_send_arp_output s] by blast
    qed
  qed
  note cases = this
  from cases show "only_cache sr sr'"
    by cases (auto intro: only_cache_trans [OF _ only_cache_set] only_cache_output
        dest: send_unreachable_keeps(1))
  assume inv: "arp_inv (cache sr)"
  have "list_all pkt_ok (req_packets req)"
    using inv req_at_Some [OF r] by (auto simp: arp_inv_def req_ok_def list_all_iff)
  note ok = this
  from cases show "arp_inv (cache sr')"
  proof cases
    case (2 sr1)
    then show ?thesis using send_unreachable_keeps(2) [OF 2(1) inv ok] by (simp add: arp_inv_destroy)
  next
    case (3 sr1 P t n)
    then show ?thesis using inv only_output_same(3) [OF 3(1)] by (simp add: arp_inv_touch)
  qed (use inv in simp)
qed

lemma sweep_loop_keeps:
  assumes "sweep_loop fuel sr next = Some sr'"
  shows "only_cache sr sr'" "arp_inv (cache sr) \<Longrightarrow> arp_inv (cache sr')"
proof -
  show "only_cache sr sr'"
    using assms
  proof (induction fuel sr "next" rule: sweep_loop.induct)
    case (3 fuel sr a)
    then obtain sr1 n where s: "sr_handle_arpreq_queue sr a = Some sr1"
      and n: "req_next a (requests (cache sr1)) = Some n" and r: "sweep_loop fuel sr1 n = Some sr'"
      by (auto simp: Option.bind_eq_Some_conv)
    show ?case using only_cache_trans [OF sr_handle_arpreq_queue_keeps(1) [OF s] "3.IH" [OF s n r]] .
  qed simp_all
  show "arp_inv (cache sr) \<Longrightarrow> arp_inv (cache sr')"
    using assms
    by (induction fuel sr "next" rule: sweep_loop.induct)
      (auto simp: Option.bind_eq_Some_conv dest: sr_handle_arpreq_queue_keeps(2))
qed

lemma sr_arpcache_timeout_keeps:
  assumes "sr_arpcache_timeout sr = Some sr'"
  shows "only_cache sr sr'" "arp_inv (cache sr) \<Longrightarrow> arp_inv (cache sr')"
proof -
  note s = sweep_loop_keeps [OF assms [unfolded sr_arpcache_timeout_def sr_arpcache_sweepreqs_def]]
  show "only_cache sr sr'" using only_cache_trans [OF only_cache_set s(1)] .
  show "arp_inv (cache sr) \<Longrightarrow> arp_inv (cache sr')" using s(2) by (simp add: arp_inv_expire)
qed

lemma expire_unsol_keeps:
  assumes "expire_unsol sr us = Some (us', sr')"
  shows "only_cache sr sr'" "set us' \<subseteq> set us"
    "arp_inv (cache sr) \<Longrightarrow> \<forall>u \<in> set us. length (un_ip_packet u) + 14 < 2 ^ 31 \<Longrightarrow> arp_inv (cache sr')"
proof -
  have "only_cache sr sr' \<and> set us' \<subseteq> set us \<and>
      (arp_inv (cache sr) \<longrightarrow> (\<forall>u \<in> set us. length (un_ip_packet u) + 14 < 2 ^ 31) \<longrightarrow> arp_inv (cache sr'))"
    using assms
  proof (induction us arbitrary: sr us')
    case (Cons u us)
    then obtain src lpm where l: "rd32 ip_src (un_ip_packet u) = Some src"
      "sr_rt_lookup (routing_table sr) src = Some lpm" by (auto simp: Option.bind_eq_Some_conv)
    consider us1 where "expire_unsol sr us = Some (us1, sr')" "us' = u # us1"
      | i sr1 where "sr_send_icmp sr (un_ip_packet u) i icmp_type_dstunreachable 3 = Some sr1"
          "expire_unsol sr1 us = Some (us', sr')"
      using Cons.prems l by (cases lpm) (auto simp: Option.bind_eq_Some_conv split: if_splits)
    then show ?case
    proof cases
      case 1
      then show ?thesis using Cons.IH [OF 1(1)] by auto
    next
      case 2
      note k = sr_send_icmp_keeps [OF 2(1)] and ih = Cons.IH [OF 2(2)]
      show ?thesis using k ih only_cache_trans [OF k(1)] by auto
    qed
  qed simp
  then show "only_cache sr sr'" "set us' \<subseteq> set us"
    "arp_inv (cache sr) \<Longrightarrow> \<forall>u \<in> set us. length (un_ip_packet u) + 14 < 2 ^ 31 \<Longrightarrow> arp_inv (cache sr')"
    by blast+
qed

lemma sr_nat_timeout_keeps:
  assumes "sr_nat_timeout sr = Some sr'"
  shows "only_tables sr sr'" "router_safe sr \<Longrightarrow> router_safe sr'" "router_inv sr \<Longrightarrow> router_inv sr'"
proof -
  obtain us us' sr1 where u: "unsol_pkt (nat_st sr) = Some us" and e: "expire_unsol sr us = Some (us', sr1)"
    and sr': "sr' = sr1\<lparr>nat_st := nat_expire (clock sr1) ((nat_st sr1)\<lparr>unsol_pkt := Some us'\<rparr>)\<rparr>"
    using assms by (auto simp: sr_nat_timeout_def Option.bind_eq_Some_conv Let_def)
  note k = expire_unsol_keeps [OF e]
  show "only_tables sr sr'"
    using only_tables_trans [OF only_tables_cache [OF k(1)] only_tables_nat, of sr'] sr' by simp
  have nat: "nat_st sr1 = nat_st sr" by (rule only_cache_same(3) [OF k(1)])
  have safe: "router_safe sr'" if inv: "router_safe sr"
  proof -
    have small: "\<forall>u \<in> set us. length (un_ip_packet u) + 14 < 2 ^ 31"
      using inv u by (simp add: router_safe_def nat_safe_def unsol_small_def)
    then have "nat_safe ((nat_st sr1)\<lparr>unsol_pkt := Some us'\<rparr>)"
      using inv nat k(2) by (auto simp: router_safe_def nat_safe_def unsol_small_def)
    then show ?thesis
      using inv k(3) small only_cache_same(1) [OF k(1)] by (simp add: sr' router_safe_def nat_safe_expire)
  qed
  then show "router_safe sr \<Longrightarrow> router_safe sr'" .
  show "router_inv sr'" if inv: "router_inv sr"
    using safe [OF router_inv_safe [OF inv]] inv nat
    by (simp add: router_inv_iff sr' nat_expire_inv)
qed

section \<open>Retransmission\<close>

text \<open>A request that is due and was sent fewer than five times is broadcast again.\<close>

lemma sr_handle_arpreq_queue_retry:
  assumes r: "req_at (cache sr) a = Some req" "1 < clock sr - req_sent req" "req_times_sent req < 5"
    "req_packets req = pkt # pkts"
    and i: "sr_get_interface (if_list sr) (pkt_iface pkt) = Some i" "length (if_addr i) = 6" and sock: "sock_ok sr"
  shows "\<exists>sr1. emits sr sr1 [vns_message (pkt_iface pkt) (ether_frame ether_broadcast_addr (if_addr i) ethertype_arp
        (arp_payload arp_op_request (if_addr i) (if_ip i) ether_broadcast_addr (req_ip req)))] \<and>
    sr_handle_arpreq_queue sr a = Some (sr1\<lparr>cache := (cache sr)\<lparr>requests :=
      update_first (\<lambda>r. req_addr r = a) (\<lambda>r. r\<lparr>req_sent := clock sr, req_times_sent := req_times_sent r + 1\<rparr>)
        (requests (cache sr))\<rparr>\<rparr>)"
proof -
  have b: "length ether_broadcast_addr = 6" by (simp add: ether_broadcast_addr_def)
  obtain sr1 where s: "sr_send_arp sr (pkt_iface pkt) arp_op_request ether_broadcast_addr (req_ip req) = Some sr1"
    and e: "emits sr sr1 [vns_message (pkt_iface pkt) (ether_frame ether_broadcast_addr (if_addr i) ethertype_arp
        (arp_payload arp_op_request (if_addr i) (if_ip i) ether_broadcast_addr (req_ip req)))]"
    using sr_send_arp_emits [OF i b sock] by blast
  have "\<not> 5 \<le> req_times_sent req" using r(3) by simp
  then show ?thesis
    using r s e only_output_same(3,6) [OF emits_only_output [OF e]]
    by (intro exI [of _ sr1]) (simp add: sr_handle_arpreq_queue_def)
qed

lemma sr_handle_arpreq_queue_young:
  "req_at (cache sr) a = Some req \<Longrightarrow> clock sr - req_sent req \<le> 1 \<Longrightarrow> sr_handle_arpreq_queue sr a = Some sr"
  by (simp add: sr_handle_arpreq_queue_def)

section \<open>Giving up\<close>

text \<open>
  A request sent five times is destroyed, and the loop of \<open>sr_arpcache_sweepreqs\<close> then reads the link
  of the freed node: when the sweep reaches such a request it has no defined behaviour.
\<close>

lemma req_next_absent: "a \<notin> req_addr ` set rs \<Longrightarrow> req_next a rs = None"
  by (induction rs) auto

lemma req_next_append:
  "req_addr r \<notin> req_addr ` set xs \<Longrightarrow>
     req_next (req_addr r) (xs @ r # ys) = Some (case ys of [] \<Rightarrow> None | r' # _ \<Rightarrow> Some (req_addr r'))"
  by (induction xs) auto

lemma req_at_split:
  assumes "arp_inv c" "requests c = xs @ r # ys"
  shows "req_at c (req_addr r) = Some r" "req_addr r \<notin> req_addr ` set xs"
  using assms find_distinct_iff [of req_addr "requests c" "req_addr r" r]
  by (auto simp: arp_inv_def req_at_def)

lemma handle_arpreq_gives_up:
  assumes inv: "arp_inv (cache sr)" and r: "req_at (cache sr) a = Some req" "1 < clock sr - req_sent req"
    "5 \<le> req_times_sent req" and h: "sr_handle_arpreq_queue sr a = Some sr'"
  shows "a \<notin> req_addr ` set (requests (cache sr'))"
proof -
  obtain sr1 where s: "send_unreachable sr (req_packets req) = Some sr1"
    and sr': "sr' = sr1\<lparr>cache := sr_arpreq_destroy (cache sr1) a\<rparr>"
    using h r by (auto simp: sr_handle_arpreq_queue_def Option.bind_eq_Some_conv)
  have "list_all pkt_ok (req_packets req)"
    using inv req_at_Some [OF r(1)] by (auto simp: arp_inv_def req_ok_def list_all_iff)
  then have "arp_inv (cache sr1)" by (rule send_unreachable_keeps(2) [OF s inv])
  then have "distinct (map req_addr (requests (cache sr1)))" by (simp add: arp_inv_def)
  then show ?thesis by (auto simp: sr' sr_arpreq_destroy_def remove_first_eq_filter)
qed

lemma sweep_loop_freed:
  assumes "arp_inv (cache sr)" "requests (cache sr) = xs @ pre @ r # post"
    and "\<forall>x \<in> set pre. clock sr - req_sent x \<le> 1" and r: "1 < clock sr - req_sent r" "5 \<le> req_times_sent r"
  shows "sweep_loop fuel sr (Some (req_addr (hd (pre @ [r])))) = None"
  using assms(2,3)
proof (induction pre arbitrary: xs fuel)
  case Nil
  note at = req_at_split [OF assms(1), of xs r post]
  show ?case
  proof (cases fuel)
    case (Suc n)
    show ?thesis
    proof (cases "sr_handle_arpreq_queue sr (req_addr r)")
      case (Some sr1)
      have "req_next (req_addr r) (requests (cache sr1)) = None"
        using at Nil r by (intro req_next_absent handle_arpreq_gives_up [OF assms(1) _ _ _ Some]) simp_all
      then show ?thesis using Suc Some by simp
    qed (simp add: Suc)
  qed simp
next
  case (Cons x pre)
  note at = req_at_split [OF assms(1), of xs x "pre @ r # post"]
  show ?case
  proof (cases fuel)
    case (Suc n)
    have "sr_handle_arpreq_queue sr (req_addr x) = Some sr"
      using at(1) Cons.prems by (intro sr_handle_arpreq_queue_young) auto
    moreover have "req_next (req_addr x) (requests (cache sr)) = Some (Some (req_addr (hd (pre @ [r]))))"
      using at(2) Cons.prems(1) by (cases pre) (simp_all add: req_next_append)
    ultimately show ?thesis using Suc Cons.IH [of "xs @ [x]" n] Cons.prems by simp
  qed simp
qed

lemma sweep_use_after_free:
  assumes "arp_inv (cache sr)" "requests (cache sr) = pre @ r # post"
    and "\<forall>x \<in> set pre. clock sr - req_sent x \<le> 1" "1 < clock sr - req_sent r" "5 \<le> req_times_sent r"
  shows "sr_arpcache_sweepreqs sr = None"
proof -
  have h: "(case requests (cache sr) of [] \<Rightarrow> None | q # _ \<Rightarrow> Some (req_addr q)) = Some (req_addr (hd (pre @ [r])))"
    using assms(2) by (cases pre) simp_all
  show ?thesis
    unfolding sr_arpcache_sweepreqs_def h
    by (rule sweep_loop_freed [OF assms(1) _ assms(3-5), of "[]"]) (simp add: assms(2))
qed

text \<open>A sweep that finds no request due leaves everything as it was.\<close>

lemma sweep_loop_young:
  assumes "arp_inv (cache sr)" "\<forall>x \<in> set (requests (cache sr)). clock sr - req_sent x \<le> 1"
    and "requests (cache sr) = xs @ ys" "length ys < fuel"
  shows "sweep_loop fuel sr (case ys of [] \<Rightarrow> None | y # _ \<Rightarrow> Some (req_addr y)) = Some sr"
  using assms(3,4)
proof (induction ys arbitrary: xs fuel)
  case (Cons y ys)
  then obtain n where n: "fuel = Suc n" by (cases fuel) simp_all
  note at = req_at_split [OF assms(1) Cons.prems(1)]
  have "sr_handle_arpreq_queue sr (req_addr y) = Some sr"
    using at(1) assms(2) Cons.prems(1) by (intro sr_handle_arpreq_queue_young) auto
  then show ?case
    using Cons.IH [of "xs @ [y]" n] Cons.prems at(2) n by (simp add: req_next_append)
qed simp

lemma sweep_young:
  "arp_inv (cache sr) \<Longrightarrow> \<forall>x \<in> set (requests (cache sr)). clock sr - req_sent x \<le> 1 \<Longrightarrow>
     sr_arpcache_sweepreqs sr = Some sr"
  unfolding sr_arpcache_sweepreqs_def by (rule sweep_loop_young [where xs = "[]"]) simp_all

section \<open>One round of retransmission\<close>

text \<open>
  When no request is given up, a sweep sends one ARP query for each request that is due, in the order
  of the list, counts it, and changes nothing else: the fuel of the loop is enough.
\<close>

definition req_due :: "int \<Rightarrow> sr_arpreq \<Rightarrow> bool" where
  "req_due now r \<longleftrightarrow> 1 < now - req_sent r"

definition touched :: "int \<Rightarrow> sr_arpreq \<Rightarrow> sr_arpreq" where
  "touched now r =
     (if req_due now r then r\<lparr>req_sent := now, req_times_sent := req_times_sent r + 1\<rparr> else r)"

definition arp_query :: "sr_if list \<Rightarrow> sr_arpreq \<Rightarrow> buf" where
  "arp_query ifs r =
     (let iface = pkt_iface (hd (req_packets r)); i = the (sr_get_interface ifs iface)
      in vns_message iface (ether_frame ether_broadcast_addr (if_addr i) ethertype_arp
           (arp_payload arp_op_request (if_addr i) (if_ip i) ether_broadcast_addr (req_ip r))))"

definition retryable :: "sr_instance \<Rightarrow> sr_arpreq \<Rightarrow> bool" where
  "retryable sr r \<longleftrightarrow>
     req_times_sent r < 5 \<and> sr_get_interface (if_list sr) (pkt_iface (hd (req_packets r))) \<noteq> None"

lemma retry_one:
  assumes inv: "arp_inv (cache sr)" "ifs_ok (if_list sr)" "sock_ok sr"
    and r: "requests (cache sr) = xs @ r # ys" "retryable sr r"
  shows "\<exists>sr'. sr_handle_arpreq_queue sr (req_addr r) = Some sr' \<and>
    requests (cache sr') = xs @ touched (clock sr) r # ys \<and>
    wire sr' = wire sr @ (if req_due (clock sr) r then [arp_query (if_list sr) r] else [])"
proof -
  note at = req_at_split [OF inv(1) r(1)]
  show ?thesis
  proof (cases "req_due (clock sr) r")
    case False
    then show ?thesis
      using sr_handle_arpreq_queue_young [OF at(1)] r(1) by (simp add: req_due_def touched_def)
  next
    case True
    have "req_packets r \<noteq> []" using inv(1) r(1) by (simp add: arp_inv_def req_ok_def)
    then obtain pkt pkts where p: "req_packets r = pkt # pkts" by (cases "req_packets r") simp_all
    obtain i where i: "sr_get_interface (if_list sr) (pkt_iface pkt) = Some i" "req_times_sent r < 5"
      using r(2) p by (auto simp: retryable_def)
    have l: "length (if_addr i) = 6"
      using inv(2) i(1) by (auto simp: ifs_ok_def list_all_iff dest: sr_get_interface_Some)
    have "update_first (\<lambda>q. req_addr q = req_addr r) f (requests (cache sr)) = xs @ f r # ys" for f
      unfolding r(1) using at(2) by (intro update_first_at) (auto simp: list_all_iff image_iff)
    with sr_handle_arpreq_queue_retry [OF at(1) _ i(2) p i(1) l inv(3)] True
    show ?thesis
      by (auto simp: req_due_def touched_def arp_query_def p i(1) dest!: emits_wire)
  qed
qed

lemma sweep_loop_retries:
  assumes "arp_inv (cache sr)" "ifs_ok (if_list sr)" "sock_ok sr"
    and "list_all (retryable sr) ys" "requests (cache sr) = xs @ ys" "length ys < fuel"
  shows "\<exists>sr'. sweep_loop fuel sr (case ys of [] \<Rightarrow> None | y # _ \<Rightarrow> Some (req_addr y)) = Some sr' \<and>
    requests (cache sr') = xs @ map (touched (clock sr)) ys \<and>
    wire sr' = wire sr @ map (arp_query (if_list sr)) (filter (req_due (clock sr)) ys)"
  using assms
proof (induction ys arbitrary: xs fuel sr)
  case (Cons y ys)
  then obtain n where n: "fuel = Suc n" by (cases fuel) simp_all
  obtain sr1 where h: "sr_handle_arpreq_queue sr (req_addr y) = Some sr1"
    and q: "requests (cache sr1) = xs @ touched (clock sr) y # ys"
    and w: "wire sr1 = wire sr @ (if req_due (clock sr) y then [arp_query (if_list sr) y] else [])"
    using retry_one [OF Cons.prems(1-3,5)] Cons.prems(4) by auto
  note k = sr_handle_arpreq_queue_keeps [OF h]
  note same = only_cache_same [OF k(1)]
  have a: "req_addr (touched (clock sr) y) = req_addr y" by (simp add: touched_def)
  have "req_addr y \<notin> req_addr ` set xs" using req_at_split(2) [OF Cons.prems(1,5)] .
  then have "req_next (req_addr y) (requests (cache sr1)) =
      Some (case ys of [] \<Rightarrow> None | y' # _ \<Rightarrow> Some (req_addr y'))"
    unfolding q using req_next_append [of "touched (clock sr) y" xs ys] a by simp
  moreover have "list_all (retryable sr1) ys"
    using Cons.prems(4) same by (simp add: list_all_iff retryable_def)
  moreover have "sock_ok sr1" using Cons.prems(3) same by (simp add: sock_ok_def)
  ultimately show ?case
    using Cons.IH [of sr1 "xs @ [touched (clock sr) y]" n] Cons.prems k(2) same q h w n by auto
qed simp

lemma sweep_retries:
  assumes "arp_inv (cache sr)" "ifs_ok (if_list sr)" "sock_ok sr"
    and "list_all (retryable sr) (requests (cache sr))"
  shows "\<exists>sr'. sr_arpcache_sweepreqs sr = Some sr' \<and>
    requests (cache sr') = map (touched (clock sr)) (requests (cache sr)) \<and>
    wire sr' = wire sr @ map (arp_query (if_list sr)) (filter (req_due (clock sr)) (requests (cache sr)))"
  unfolding sr_arpcache_sweepreqs_def
  using sweep_loop_retries [OF assms, of "[]" "Suc (length (requests (cache sr)))"] by simp

end
