(* ===== verification/SR_Sessions.thy ===== *)
theory SR_Sessions
  imports SR_Translate
begin

text \<open>
  Exchanges through the NAT: what comes back to an internal host after its packet went out.  These
  join the outbound and the inbound half of \<open>nat_handle_icmp\<close> and \<open>nat_handle_tcp\<close> through the
  translation table's contract.
\<close>

section \<open>ICMP queries\<close>

lemma icmp_query_reply:
  assumes ok: "nat_inv (nat_st sr)" "nat_room (nat_st sr)"
    and p: "ip_plain p src dst n" "8 \<le> n" "is_private_ip (ntohl src)" "\<not> is_private_ip (ntohl dst)"
      "rd16 24 p = Some ident"
    and route: "sr_rt_lookup (routing_table sr) dst = Some (Some r)"
      "sr_get_interface (if_list sr) (rt_interface r) = Some i"
    and out: "nat_handle_icmp sr p = Some (code, p', sr')"
    and q: "ip_plain q src' dst' k" "8 \<le> k" "\<not> is_private_ip (ntohl src')" "rd16 24 q = rd16 24 p'"
  shows "code = 1 \<and> rd32 ip_src p' = Some (if_ip i) \<and>
    (\<exists>q'. nat_handle_icmp sr' q = Some (1, q', sr') \<and> icmp_translated ip_dst src ident k q q')"
proof -
  obtain m nt where m: "nat_translate (clock sr) nat_mapping_icmp (nat_st sr) (ntohl src) (ntohs ident) = (m, nt)"
    by fastforce
  note t = nat_translate_inv [OF ok m]
  from nat_handle_icmp_outbound [OF p(1-4) route p(5) m] out
  have p': "code = 1" "sr' = sr\<lparr>nat_st := nt\<rparr>" "icmp_translated ip_src (if_ip i) (htons (aux_ext m)) n p p'"
    by auto
  then have e: "rd16 24 q = Some (htons (aux_ext m))" "rd32 ip_src p' = Some (if_ip i)"
    using q(4) by (simp_all add: icmp_translated_def)
  have "sr_nat_lookup_external (nat_st sr') (ntohs (htons (aux_ext m))) nat_mapping_icmp = Some m"
    using nat_translate_back [OF ok m] p'(2) by simp
  from nat_handle_icmp_inbound [OF q(1-3) e(1) this] t p'(1) e(2)
  show ?thesis by simp
qed

section \<open>TCP handshakes\<close>

text \<open>
  The first segment from an unmapped internal port creates a mapping and a connection; a SYN with
  ACK from the peer to the allocated port comes back to the port and establishes the connection.
\<close>

lemma tcp_open:
  assumes ok: "nat_inv (nat_st sr)" "nat_room (nat_st sr)"
    and p: "tcp_packet p len tcp n src dst" "is_private_ip (ntohl src)" "\<not> is_private_ip (ntohl dst)"
      "rd16 tcp p = Some sport" "rd16 (tcp + 2) p = Some dport"
    and u: "unsol_readable (tcp div 4) (nat_st sr)"
    and route: "sr_rt_lookup (routing_table sr) dst = Some (Some r)"
      "sr_get_interface (if_list sr) (rt_interface r) = Some i"
    and new: "sr_nat_lookup_internal (nat_st sr) (ntohl src) (ntohs sport) nat_mapping_tcp = None"
  shows "\<exists>p' m c nt. nat_handle_tcp sr p len dir = Some (1, p', sr\<lparr>nat_st := nt\<rparr>) \<and>
    tcp_translated ip_src (if_ip i) tcp (htons (aux_ext m)) tcp n p p' \<and>
    ip_int m = ntohl src \<and> aux_int m = ntohs sport \<and> 1024 \<le> unat (aux_ext m) \<and>
    sr_nat_lookup_external nt (aux_ext m) nat_mapping_tcp = Some m \<and> conns m = [c] \<and>
    conn_at nt (conn_addr c) = Some c \<and> conn_state c = SYN_SENT \<and> peer_ip c = dst \<and> peer_port c = dport \<and>
    aux_ext m = aux_ext (fst (sr_nat_insert_mapping (clock sr) (nat_st sr) (ntohl src) (ntohs sport) nat_mapping_tcp)) \<and>
    aux_ext m \<notin> aux_ext ` set (mappings (nat_st sr))"
proof -
  obtain m nt1 where ins: "sr_nat_insert_mapping (clock sr) (nat_st sr) (ntohl src) (ntohs sport) nat_mapping_tcp = (m, nt1)"
    by fastforce
  note i = insert_mapping_inv [OF ok new ins]
  obtain hl where hl: "ip_hl p = Some hl" "tcp = hl * 4" "5 \<le> hl" using p(1) by (auto simp: tcp_packet_def)
  have "hl * 4 + 8 \<le> length p" using p(1) hl by (auto simp: tcp_packet_def)
  moreover have "unsol_pkt nt1 = unsol_pkt (nat_st sr)"
    using ins by (auto simp: sr_nat_insert_mapping_def find_next_id_def Let_def split: option.splits prod.splits)
  then have "unsol_readable hl nt1" using u hl(2) by (simp add: unsol_readable_def)
  moreover have ext: "sr_nat_lookup_external nt1 (aux_ext m) nat_mapping_tcp = Some m"
    by (simp add: sr_nat_lookup_external_def i(8))
  ultimately obtain c nt where c: "sr_nat_insert_connection (clock sr) nt1 (aux_ext m) p SYN_SENT = Some (Some c, nt)"
    using insert_connection_total [OF hl(1,3)] by blast
  note nc = new_connection [OF i(8,6) c]
  obtain p' where p': "nat_handle_tcp sr p len dir = Some (1, p', sr\<lparr>nat_st := nt\<rparr>)"
      "tcp_translated ip_src (if_ip i) tcp (htons (aux_ext m)) tcp n p p'"
    using nat_handle_tcp_outbound [OF p(1-3) route p(4), of m nt1 c nt dir] new ins c by auto
  have "ip_int m = ntohl src" "aux_int m = ntohs sport" "1024 \<le> unat (aux_ext m)"
    using i(3,4) by (simp_all add: int_key_def ext_id_def)
  moreover have "aux_ext m \<notin> aux_ext ` set (mappings (nat_st sr))"
    using i(7) by (auto simp: ext_id_def)
  moreover have "peer_ip c = dst" "peer_port c = dport"
    using nc(4,5) p(1,5) hl by (auto simp: tcp_packet_def)
  ultimately show ?thesis
    using p' nc(1-3) by (intro exI [of _ p'] exI [of _ "m\<lparr>conns := [c]\<rparr>"] exI [of _ c] exI [of _ nt]) (simp add: ins)
qed

lemma tcp_answered:
  assumes ext: "sr_nat_lookup_external nt port nat_mapping_tcp = Some m" "conns m = [c]"
    and c: "conn_at nt (conn_addr c) = Some c" "conn_state c = SYN_SENT" "peer_ip c = dst" "peer_port c = dport"
    and dst: "\<not> is_private_ip (ntohl dst)"
    and q: "tcp_packet q len' tcp' k dst dst'" "rd16 tcp' q = Some dport" "rd16 (tcp' + 2) q = Some (htons port)"
      "tcp_flags_at tcp' q = Some f" "SYN f" "ACK f"
    and nt: "nat_st sr = nt"
  shows "\<exists>q' sr' c. nat_handle_tcp sr q len' 1 = Some (1, q', sr') \<and>
    tcp_translated ip_dst (htonl (ip_int m)) (tcp' + 2) (htons (aux_int m)) tcp' k q q' \<and>
    c \<in> set (all_conns (nat_st sr')) \<and> conn_state c = ESTAB \<and> peer_ip c = dst \<and> peer_port c = dport"
proof -
  obtain hl where hl: "ip_hl q = Some hl" "tcp' = hl * 4" using q(1) by (auto simp: tcp_packet_def)
  let ?c = "c\<lparr>conn_state := ESTAB, conn_last_updated := clock sr\<rparr>"
  have "determine_state SYN_SENT f = ESTAB" using q(5,6) by (simp add: determine_state_def)
  moreover have "m\<lparr>conns := [c]\<rparr> = m" using ext(2) by simp
  ultimately have upd: "sr_nat_update_connection (clock sr) nt m q len' 1 =
      Some (Some ?c, conn_assign (conn_addr c) (\<lambda>_. ?c) nt)"
    using update_connection_first [OF c(1) hl(1), where f = f and now = "clock sr" and m = m and cs = "[]" and len = len'] q(1,2,4) c(2-4) hl
    by (simp add: tcp_packet_def Let_def)
  have "?c \<in> set (all_conns (conn_assign (conn_addr c) (\<lambda>_. ?c) nt))"
    by (rule conn_assign_there [OF c(1)]) simp
  moreover obtain q' where "nat_handle_tcp sr q len' 1 = Some (1, q', sr\<lparr>nat_st := conn_assign (conn_addr c) (\<lambda>_. ?c) nt\<rparr>)"
      "tcp_translated ip_dst (htonl (ip_int m)) (tcp' + 2) (htons (aux_int m)) tcp' k q q'"
    using nat_handle_tcp_inbound [OF q(1) dst q(4) _ q(3), of sr m ?c] q(5,6) ext(1) upd nt by auto
  ultimately show ?thesis
    using c(3,4) by (intro exI [of _ q'] exI [of _ "sr\<lparr>nat_st := conn_assign (conn_addr c) (\<lambda>_. ?c) nt\<rparr>"] exI [of _ ?c]) simp
qed

lemma tcp_handshake:
  assumes ok: "nat_inv (nat_st sr)" "nat_room (nat_st sr)"
    and p: "tcp_packet p len tcp n src dst" "is_private_ip (ntohl src)" "\<not> is_private_ip (ntohl dst)"
      "rd16 tcp p = Some sport" "rd16 (tcp + 2) p = Some dport"
    and u: "unsol_readable (tcp div 4) (nat_st sr)"
    and route: "sr_rt_lookup (routing_table sr) dst = Some (Some r)"
      "sr_get_interface (if_list sr) (rt_interface r) = Some i"
    and new: "sr_nat_lookup_internal (nat_st sr) (ntohl src) (ntohs sport) nat_mapping_tcp = None"
  shows "\<exists>port p' sr'. nat_handle_tcp sr p len dir = Some (1, p', sr') \<and>
    1024 \<le> unat port \<and> port \<notin> aux_ext ` set (mappings (nat_st sr)) \<and>
    tcp_translated ip_src (if_ip i) tcp (htons port) tcp n p p' \<and>
    (\<forall>q len' tcp' k dst' f. tcp_packet q len' tcp' k dst dst' \<and> rd16 tcp' q = Some dport \<and>
       rd16 (tcp' + 2) q = Some (htons port) \<and> tcp_flags_at tcp' q = Some f \<and> SYN f \<and> ACK f \<longrightarrow>
       (\<exists>q' sr'' c. nat_handle_tcp sr' q len' 1 = Some (1, q', sr'') \<and>
          tcp_translated ip_dst src (tcp' + 2) sport tcp' k q q' \<and>
          c \<in> set (all_conns (nat_st sr'')) \<and> conn_state c = ESTAB \<and> peer_ip c = dst \<and> peer_port c = dport))"
proof -
  obtain p' m c nt where o: "nat_handle_tcp sr p len dir = Some (1, p', sr\<lparr>nat_st := nt\<rparr>)"
      "tcp_translated ip_src (if_ip i) tcp (htons (aux_ext m)) tcp n p p'" "1024 \<le> unat (aux_ext m)"
      "aux_ext m \<notin> aux_ext ` set (mappings (nat_st sr))"
    and m: "ip_int m = ntohl src" "aux_int m = ntohs sport"
      "sr_nat_lookup_external nt (aux_ext m) nat_mapping_tcp = Some m" "conns m = [c]"
    and c: "conn_at nt (conn_addr c) = Some c" "conn_state c = SYN_SENT" "peer_ip c = dst" "peer_port c = dport"
    using tcp_open [OF ok p u route new, of dir] by blast
  have inward: "\<exists>q' sr'' c. nat_handle_tcp (sr\<lparr>nat_st := nt\<rparr>) q len' 1 = Some (1, q', sr'') \<and>
      tcp_translated ip_dst src (tcp' + 2) sport tcp' k q q' \<and>
      c \<in> set (all_conns (nat_st sr'')) \<and> conn_state c = ESTAB \<and> peer_ip c = dst \<and> peer_port c = dport"
    if "tcp_packet q len' tcp' k dst dst'" "rd16 tcp' q = Some dport" "rd16 (tcp' + 2) q = Some (htons (aux_ext m))"
      "tcp_flags_at tcp' q = Some f" "SYN f" "ACK f" for q len' tcp' k dst' f
    using tcp_answered [OF m(3,4) c p(3) that, of "sr\<lparr>nat_st := nt\<rparr>"] m(1,2) by simp
  show ?thesis
    by (rule exI [of _ "aux_ext m"], rule exI [of _ p'], rule exI [of _ "sr\<lparr>nat_st := nt\<rparr>"]) (use o inward in blast)
qed

end
