(* ===== verification/SR_System.thy ===== *)
theory SR_System
  imports SR_Timers SR_Sessions
begin

text \<open>
  The router as a state machine.  A step is one call the running program makes on its state: a frame
  handed to \<open>sr_handlepacket\<close>, or one round of a timer thread; time passes and the socket changes its
  behaviour between steps.  Steps are atomic here, while the threads of the program interleave
  inside them (each table is locked per operation, not per step).
\<close>

section \<open>Steps\<close>

text \<open>
  Any frame may come in any state, as long as it is shorter than 2 GB (the server's messages have at most
  10000 bytes).  A call that has no defined behaviour is not a step.
\<close>

inductive router_step :: "sr_instance \<Rightarrow> sr_instance \<Rightarrow> bool" where
  frame: "length p + 14 < 2 ^ 31 \<Longrightarrow>
    sr_handlepacket sr p (of_nat (length p)) interface = Some sr' \<Longrightarrow> router_step sr sr'"
| arp_timer: "sr_arpcache_timeout sr = Some sr' \<Longrightarrow> router_step sr sr'"
| nat_timer: "sr_nat_timeout sr = Some sr' \<Longrightarrow> router_step sr sr'"
| tick: "clock sr \<le> t \<Longrightarrow> router_step sr (sr\<lparr>clock := t, clock_usec := u\<rparr>)"
| socket: "router_step sr (sr\<lparr>sock_write := w\<rparr>)"

inductive_cases router_stepE: "router_step sr sr'"

text \<open>
  A run starts from \<open>sr_init\<close>, with whatever the memory of \<open>unsol_pkt\<close> holds: a pointer that is
  not valid, or the null pointer.
\<close>

inductive router_boot :: "sr_instance \<Rightarrow> bool" where
  boot: "ifs_ok (if_list sr) \<Longrightarrow> unsol_pkt (nat_st sr) = None \<or> unsol_pkt (nat_st sr) = Some [] \<Longrightarrow>
    router_boot (sr_init sr icmp_to estab_to transitory_to)"

inductive router_reach :: "sr_instance \<Rightarrow> bool" where
  start: "router_boot sr \<Longrightarrow> router_reach sr"
| step: "router_reach sr \<Longrightarrow> router_step sr sr' \<Longrightarrow> router_reach sr'"

text \<open>
  A run in which the NAT's table never holds more mappings than there are identifiers: the relation
  below is the step relation restricted to states that respect this bound.
\<close>

abbreviation fitting_step :: "sr_instance \<Rightarrow> sr_instance \<Rightarrow> bool" where
  "fitting_step sr sr' \<equiv> router_step sr sr' \<and> length (mappings (nat_st sr')) \<le> 64512"

text \<open>What the invariant of the NAT says of the table, for every reader of it.\<close>

lemma nat_inv_tables:
  assumes "nat_inv nt"
  shows "distinct (map aux_ext (mappings nt))" "distinct (map int_key (mappings nt))"
    "\<forall>m \<in> set (mappings nt). 1024 \<le> ext_id m"
    "\<forall>k \<in> {1024..<65536}. used (bitmap nt) k \<longleftrightarrow> k \<in> ext_id ` set (mappings nt)"
proof -
  have t: "pool.tracks (bitmap nt) (map ext_id (mappings nt))" using assms by (simp add: nat_inv_def)
  show "distinct (map aux_ext (mappings nt))" by (rule distinct_aux_ext [OF t])
  show "distinct (map int_key (mappings nt))" using assms by (simp add: nat_inv_def)
  show "\<forall>m \<in> set (mappings nt). 1024 \<le> ext_id m"
    "\<forall>k \<in> {1024..<65536}. used (bitmap nt) k \<longleftrightarrow> k \<in> ext_id ` set (mappings nt)"
    using t by (auto simp: pool.tracks_def)
qed

section \<open>What holds in every run\<close>

lemma router_step_safe:
  assumes "router_step sr sr'" "router_safe sr"
  shows "router_safe sr'"
  using assms
proof induction
  case (frame p sr interface sr')
  then show ?case using sr_handlepacket_keeps(2) by simp
next
  case (arp_timer sr sr')
  note k = sr_arpcache_timeout_keeps [OF arp_timer(1)]
  show ?case
    using k(2) only_cache_same(1,3) [OF k(1)] arp_timer(2) by (simp add: router_safe_def)
next
  case (nat_timer sr sr')
  then show ?case using sr_nat_timeout_keeps(2) by blast
qed (simp_all add: router_safe_def)

lemma router_boot_inv: "router_boot sr \<Longrightarrow> router_inv sr"
  by (induction rule: router_boot.induct) (auto intro!: router_inv_init simp: unsol_small_def)

lemma router_reach_safe: "router_reach sr \<Longrightarrow> router_safe sr"
  by (induction rule: router_reach.induct) (auto intro: router_step_safe router_inv_safe router_boot_inv)

section \<open>What holds while the identifiers last\<close>

lemma router_step_inv:
  assumes "router_step sr sr'" "nat_fits (nat_st sr')" "router_inv sr"
  shows "router_inv sr'"
  using assms
proof induction
  case (frame p sr interface sr')
  then show ?case using sr_handlepacket_keeps(3) by simp
next
  case (arp_timer sr sr')
  note k = sr_arpcache_timeout_keeps [OF arp_timer(1)]
  show ?case
    using k(2) only_cache_same(1,3) [OF k(1)] arp_timer(3) by (simp add: router_inv_def)
next
  case (nat_timer sr sr')
  then show ?case using sr_nat_timeout_keeps(3) by blast
qed (simp_all add: router_inv_def)

lemma fitting_run_inv: "fitting_step\<^sup>*\<^sup>* sr sr' \<Longrightarrow> router_inv sr \<Longrightarrow> router_inv sr'"
  by (induction rule: rtranclp_induct) (auto intro: router_step_inv simp: nat_fits_def)

end
