(* ===== verification/SR_Pipeline.thy ===== *)
theory SR_Pipeline
  imports SR_Timers SR_Sessions
begin

text \<open>
  From a frame on one interface to the frames that leave: \<open>sr_handlepacket\<close> composed with the
  handlers behind it, for the router without NAT and for packets addressed to the router itself.
\<close>

section \<open>Well-formed IP frames\<close>

text \<open>
  A header that passes the checksum gate, and a frame for the interface it arrives on that carries
  such a header.
\<close>

definition header_ok :: "buf \<Rightarrow> nat \<Rightarrow> bool" where
  "header_ok p hl \<longleftrightarrow>
     ip_hl p = Some hl \<and> 5 \<le> hl \<and> hl * 4 \<le> length p \<and>
     valid_sum (take (hl * 4) p) \<and> rd16 ip_sum p \<noteq> Some 0"

definition ip_frame :: "sr_instance \<Rightarrow> buf \<Rightarrow> string \<Rightarrow> sr_if \<Rightarrow> nat \<Rightarrow> bool" where
  "ip_frame sr f iface i hl \<longleftrightarrow>
     sr_get_interface (if_list sr) iface = Some i \<and> length (if_addr i) = 6 \<and> take 6 f = if_addr i \<and>
     rd16 ether_type f = Some (htons ethertype_ip) \<and> 34 < length f \<and> length f \<le> 65549 \<and>
     header_ok (drop 14 f) hl"

definition for_router :: "sr_instance \<Rightarrow> u32 \<Rightarrow> bool" where
  "for_router sr dst \<longleftrightarrow> list_ex (\<lambda>i. if_ip i = dst) (if_list sr) \<or> dst = ip_broadcast_addr"

lemma ip_frame_len:
  assumes "ip_frame sr f iface i hl"
  shows "unat (of_nat (length f) - 14 :: u32) = length (drop 14 f)"
    "20 < length (drop 14 f)" "length (drop 14 f) \<le> 65535"
proof -
  have f: "34 < length f" "length f \<le> 65549" using assms by (simp_all add: ip_frame_def)
  then have "unat (of_nat (length f) :: u32) = 14 + length (drop 14 f)" by (simp add: unat_of_nat)
  from unat_minus [OF this]
  have e: "of_nat (length f) - 14 = (of_nat (length (drop 14 f)) :: u32)" by simp
  show "unat (of_nat (length f) - 14 :: u32) = length (drop 14 f)"
    unfolding e using f by (intro u32_of_nat(1)) simp
  show "20 < length (drop 14 f)" "length (drop 14 f) \<le> 65535" using f by simp_all
qed

lemma ip_frame_handled:
  assumes f: "ip_frame sr f iface i hl" and p: "p = drop 14 f" and len: "len = of_nat (length f) - 14"
    and pr: "rd8 ip_p p = Some protocol" and dst: "rd32 ip_dst p = Some dst"
  shows "sr_handlepacket sr f (of_nat (length f)) iface =
    (if for_router sr dst then handle_ip_to_router sr p len iface (hl * 4) protocol
     else handle_ip_transit sr p len iface protocol)"
proof -
  note l = ip_frame_len [OF f, folded p len]
  have h: "ip_hl p = Some hl" "5 \<le> hl" "hl * 4 \<le> length p" "valid_sum (take (hl * 4) p)"
    "rd16 ip_sum p \<noteq> Some 0" and g: "take 6 f = if_addr i" "rd16 ether_type f = Some (htons ethertype_ip)"
    "sr_get_interface (if_list sr) iface = Some i" "length (if_addr i) = 6" "14 \<le> length f"
    using f by (simp_all add: ip_frame_def header_ok_def p)
  obtain v where v: "rd16 ip_sum p = Some v" "v \<noteq> 0" using h(5) l(2) by (auto simp: rd16_def)
  have "sr_handlepacket sr f (of_nat (length f)) iface = sr_handle_ippacket sr p len iface"
    using sr_handlepacket_dest(2) [OF g(5,3,4)] g(1,2) by (simp add: p len)
  also have "\<dots> = (if for_router sr dst then handle_ip_to_router sr p len iface (hl * 4) protocol
     else handle_ip_transit sr p len iface protocol)"
    using sr_handle_ippacket_gate [of len p hl v protocol dst sr iface] l h(1-4) v pr dst
    by (simp add: for_router_def)
  finally show ?thesis .
qed

section \<open>Transit\<close>

lemma frame_forwarded:
  assumes f: "ip_frame sr f iface i hl" and p: "p = drop 14 f" and len: "len = of_nat (length f) - 14"
    and off: "\<not> nat_enabled sr" and inv: "router_inv sr" "sock_ok sr"
    and dst: "rd32 ip_dst p = Some dst" "\<not> for_router sr dst" and ttl: "p ! ip_ttl \<noteq> 1"
    and route: "sr_rt_lookup (routing_table sr) dst = Some (Some r)"
      "sr_get_interface (if_list sr) (rt_interface r) = Some out"
  shows "\<exists>p' sr'. sr_handlepacket sr f (of_nat (length f)) iface = Some sr' \<and> next_hop_header p p' \<and>
    ip_output sr (rt_gw r) out p' len (rt_interface r) iface sr'"
proof -
  note l = ip_frame_len [OF f, folded p len]
  have h: "ip_hl p = Some hl" "5 \<le> hl" "hl * 4 \<le> length p"
    using f by (simp_all add: ip_frame_def header_ok_def p)
  have t: "rd8 ip_ttl p = Some (p ! ip_ttl)" "rd8 ip_p p = Some (p ! ip_p)"
    using l(2) by (simp_all add: rd8_def)
  have o: "length (if_addr out) = 6"
    using inv(1) route(2) by (auto simp: router_inv_def ifs_ok_def list_all_iff dest: sr_get_interface_Some)
  have "sr_handlepacket sr f (of_nat (length f)) iface = sr_forward_ippacket sr p len iface"
    using ip_frame_handled [OF f p len t(2) dst(1)] dst(2) handle_ip_transit_plain [OF off t(1)] ttl by simp
  moreover have "\<exists>p' sr'. sr_forward_ippacket sr p len iface = Some sr' \<and> next_hop_header p p' \<and>
      ip_output sr (rt_gw r) out p' len (rt_interface r) iface sr'"
    using l inv by (intro sr_forward_ippacket_routed [OF _ _ _ h dst(1) route o]) (simp_all add: router_inv_def)
  ultimately show ?thesis by simp
qed

lemma next_hop_wraps: "next_hop_header p p' \<Longrightarrow> p ! ip_ttl = 0 \<Longrightarrow> p' ! ip_ttl = 255"
  by (simp add: next_hop_header_def)

lemma frame_ttl_expired:
  assumes f: "ip_frame sr f iface i hl" and p: "p = drop 14 f"
    and inv: "router_inv sr" "sock_ok sr"
    and dst: "rd32 ip_dst p = Some dst" "\<not> for_router sr dst" and ttl: "p ! ip_ttl = 1"
    and src: "rd32 ip_src p = Some src" and room: "28 \<le> length p"
  shows "\<exists>m sr'. sr_handlepacket sr f (of_nat (length f)) iface = Some sr' \<and>
    icmp_message (if_ip i) src icmp_type_timeexceeded 0 ([0, 0, 0, 0] @ take 28 p) m \<and>
    ip_output sr src i m 56 iface iface sr'"
proof -
  note l = ip_frame_len [OF f, folded p]
  have t: "rd8 ip_ttl p = Some 1" "rd8 ip_p p = Some (p ! ip_p)"
    using l(2) ttl by (simp_all add: rd8_def)
  have g: "sr_get_interface (if_list sr) iface = Some i" "length (if_addr i) = 6" "arp_inv (cache sr)"
    using f inv by (simp_all add: ip_frame_def router_inv_def)
  have "sr_handlepacket sr f (of_nat (length f)) iface = sr_send_icmp sr p iface icmp_type_timeexceeded 0"
    using ip_frame_handled [OF f p refl t(2) dst(1)] dst(2) t(1) by (simp add: handle_ip_transit_def)
  then show ?thesis using sr_send_icmp_error [OF g inv(2) _ room src] by simp
qed

section \<open>ICMP for the router\<close>

text \<open>An ICMP message for the router whose checksum passes goes on by its type.\<close>

lemma router_icmp:
  assumes len: "length p = unat len" "unat len \<le> 65535" and load: "load + 8 \<le> length p"
    and type: "rd8 (load + icmp_type) p = Some type"
    and valid: "valid_sum (drop load p)" "rd16 (load + icmp_sum) p = Some v" "v \<noteq> 0"
  shows "handle_ip_to_router sr p len iface load ip_protocol_icmp =
    (if type = 8 then sr_send_icmp sr p iface icmp_type_echoreply 0
     else if nat_enabled sr \<and> type = 0 then do {
       (code, packet, sr) \<leftarrow> nat_handle_icmp sr p;
       if code \<noteq> 0 then sr_forward_ippacket sr packet len iface else Some sr
     } else Some sr)"
proof -
  have "unat len = load + (length p - load)" using len(1) load by simp
  from unat_minus [OF this] have "len - of_nat load = of_nat (length p - load)" .
  then have s: "sint (len - of_nat load) = int (length p - load)"
    using u32_of_nat(2) [of "length p - load"] len by simp
  obtain p0 where z: "wr16 (load + 2) 0 p = Some p0" "length p0 = length p"
    using f16.put_total [of "load + 2" p 0] load by auto
  obtain c where c: "cksum (drop load p0) (int (length p - load)) = Some c"
    using cksum_Some [of "int (length p - load)" "drop load p0"] z(2) load by fastforce
  have w: "wr16 2 0 (drop load p) = Some (drop load p0)"
    using wr16_slice [of 2 "length p - load" load p 0 p0] load z by simp
  have r: "rd16 2 (drop load p) = Some v"
    using rd16_slice [of 2 "length p - load" load p] load valid(2) by simp
  have "c = v"
    using cksum_check [OF _ _ _ _ r w c] valid load len by simp
  moreover have "wr16 (load + 2) v p0 = Some p"
    using f16.save_restore [OF _ z(1)] valid(2) by simp
  moreover have "rd_bytes load 8 p = Some (take 8 (drop load p))" using load by (simp add: rd_bytes_def)
  ultimately show ?thesis
    using z(1) c valid(2) type s by (simp add: handle_ip_to_router_def)
qed

lemma frame_echo:
  assumes f: "ip_frame sr f iface i 5" and p: "p = drop 14 f"
    and inv: "router_inv sr" "sock_ok sr"
    and pr: "rd8 ip_p p = Some ip_protocol_icmp" and type: "rd8 20 p = Some 8"
    and addr: "rd32 ip_src p = Some src" "rd32 ip_dst p = Some dst" "for_router sr dst"
    and valid: "valid_sum (drop 20 p)" "rd16 22 p \<noteq> Some 0"
    and total: "rd16 ip_len p = Some t" "unat (ntohs t) = n + 28" "n + 28 \<le> length p"
  shows "\<exists>m sr'. sr_handlepacket sr f (of_nat (length f)) iface = Some sr' \<and>
    icmp_message dst src icmp_type_echoreply 0 (take (n + 4) (drop 24 p)) m \<and>
    ip_output sr src i m (of_nat n + 28) iface iface sr'"
proof -
  note l = ip_frame_len [OF f, folded p]
  obtain v where v: "rd16 22 p = Some v" "v \<noteq> 0" using valid(2) l(2) total(3) by (auto simp: rd16_def)
  have g: "sr_get_interface (if_list sr) iface = Some i" "length (if_addr i) = 6" "arp_inv (cache sr)"
    using f inv by (simp_all add: ip_frame_def router_inv_def)
  have "sr_handlepacket sr f (of_nat (length f)) iface = sr_send_icmp sr p iface icmp_type_echoreply 0"
    using ip_frame_handled [OF f p refl pr addr(2)] addr(3)
      router_icmp [of p "of_nat (length f) - 14" 20 8 v sr iface] l total(3) type valid(1) v
    by simp
  then show ?thesis using sr_send_icmp_echo [OF g inv(2) total addr(1,2), of 0] by simp
qed

section \<open>ARP\<close>

lemma frame_arp_request:
  assumes i: "sr_get_interface (if_list sr) iface = Some i" "length (if_addr i) = 6"
    and f: "14 \<le> length f" "take 6 f = if_addr i \<or> f ! 0 = 255"
      "rd16 ether_type f = Some (htons ethertype_arp)"
      "arp_packet_fields (drop 14 f) arp_op_request sha sip"
    and sock: "sock_ok sr"
  shows "\<exists>req c sr'. sr_arpcache_insert (clock sr) (cache sr) sha sip = Some (req, c) \<and>
    sr_handlepacket sr f (of_nat (length f)) iface = Some sr' \<and>
    emits (sr\<lparr>cache := c\<rparr>) sr' [vns_message iface (ether_frame sha (if_addr i) ethertype_arp
      (arp_payload arp_op_reply (if_addr i) (if_ip i) sha sip))]"
  using sr_handle_arp_request [OF f(4) i sock] sr_handlepacket_dest(3) [OF f(1) i f(2,3)] by simp

section \<open>ICMP through the NAT\<close>

lemma icmp_translated_header:
  assumes "icmp_translated field addr ident n p p'" "ip_hl p = Some 5" "20 \<le> length p"
    and "field = ip_src \<or> field = ip_dst"
  shows "length p' = length p" "ip_hl p' = Some 5" "p' ! ip_ttl = p ! ip_ttl"
    "field = ip_src \<Longrightarrow> rd32 ip_dst p' = rd32 ip_dst p"
proof -
  have a: "agree_off ({10, 11} \<union> {field..<field + 4} \<union> {22..<26}) p p'"
    using assms(1) by (simp add: icmp_translated_def)
  show "length p' = length p" by (rule agree_off_length [OF a])
  show "ip_hl p' = Some 5"
    using agree_off_rd(1) [OF a, of 0] assms(2,4) by (auto simp: ip_hl_def)
  show "p' ! ip_ttl = p ! ip_ttl" using a assms(4) by (auto simp: agree_off_def)
  show "rd32 ip_dst p' = rd32 ip_dst p" if "field = ip_src"
    by (rule agree_off_rd(3) [OF a]) (use that in auto)
qed

lemma frame_nat_query:
  assumes f: "ip_frame sr f iface i 5" and p: "p = drop 14 f" and len: "len = of_nat (length f) - 14"
    and on: "nat_enabled sr" and inv: "router_inv sr" "sock_ok sr"
    and pr: "rd8 ip_p p = Some ip_protocol_icmp" and ttl: "p ! ip_ttl \<noteq> 1"
    and ip: "ip_plain p src dst n" "8 \<le> n" "is_private_ip (ntohl src)" "\<not> is_private_ip (ntohl dst)"
      "\<not> for_router sr dst" "rd16 24 p = Some ident"
    and route: "sr_rt_lookup (routing_table sr) dst = Some (Some r)"
      "sr_get_interface (if_list sr) (rt_interface r) = Some out"
  shows "\<exists>m nt p1 p2 sr'.
    nat_translate (clock sr) nat_mapping_icmp (nat_st sr) (ntohl src) (ntohs ident) = (m, nt) \<and>
    icmp_translated ip_src (if_ip out) (htons (aux_ext m)) n p p1 \<and> next_hop_header p1 p2 \<and>
    sr_handlepacket sr f (of_nat (length f)) iface = Some sr' \<and>
    ip_output (sr\<lparr>nat_st := nt\<rparr>) (rt_gw r) out p2 len (rt_interface r) iface sr'"
proof -
  note l = ip_frame_len [OF f, folded p len]
  obtain m nt where m: "nat_translate (clock sr) nat_mapping_icmp (nat_st sr) (ntohl src) (ntohs ident) = (m, nt)"
    by fastforce
  obtain p1 where p1: "nat_handle_icmp sr p = Some (1, p1, sr\<lparr>nat_st := nt\<rparr>)"
    "icmp_translated ip_src (if_ip out) (htons (aux_ext m)) n p p1"
    using nat_handle_icmp_outbound [OF ip(1-4) route ip(6) m] by blast
  have dst: "rd32 ip_dst p = Some dst" and hl: "ip_hl p = Some 5" using ip(1) by (simp_all add: ip_plain_def)
  have "20 \<le> length p" using l(2) by simp
  note h = icmp_translated_header [OF p1(2) hl this]
  have t: "rd8 ip_ttl p = Some (p ! ip_ttl)" using l(2) by (simp add: rd8_def)
  have "uint (p ! ip_ttl) - 1 \<noteq> 0" using ttl by (metis diff_eq_eq add_0 uint_1 word_uint_eqI)
  then have "sr_handlepacket sr f (of_nat (length f)) iface =
      sr_forward_ippacket (sr\<lparr>nat_st := nt\<rparr>) p1 len iface"
    using ip_frame_handled [OF f p len pr dst] ip(5) t on p1(1) by (simp add: handle_ip_transit_def)
  moreover have o: "length (if_addr out) = 6"
    using inv(1) route(2) by (auto simp: router_inv_def ifs_ok_def list_all_iff dest: sr_get_interface_Some)
  have "\<exists>p2 sr'. sr_forward_ippacket (sr\<lparr>nat_st := nt\<rparr>) p1 len iface = Some sr' \<and> next_hop_header p1 p2 \<and>
      ip_output (sr\<lparr>nat_st := nt\<rparr>) (rt_gw r) out p2 len (rt_interface r) iface sr'"
    using l h dst inv route o
    by (intro sr_forward_ippacket_routed [where hl = 5 and dst = dst]) (simp_all add: router_inv_def sock_ok_def)
  ultimately show ?thesis using m p1(2) by metis
qed

lemma frame_nat_reply:
  assumes f: "ip_frame sr f iface i 5" and p: "p = drop 14 f" and len: "len = of_nat (length f) - 14"
    and on: "nat_enabled sr" and inv: "router_inv sr" "sock_ok sr"
    and pr: "rd8 ip_p p = Some ip_protocol_icmp" and type: "rd8 20 p = Some 0"
    and valid: "valid_sum (drop 20 p)" "rd16 22 p \<noteq> Some 0"
    and ip: "ip_plain p src dst n" "8 \<le> n" "\<not> is_private_ip (ntohl src)" "for_router sr dst"
      "rd16 24 p = Some ident"
    and m: "sr_nat_lookup_external (nat_st sr) (ntohs ident) nat_mapping_icmp = Some m"
    and route: "sr_rt_lookup (routing_table sr) (htonl (ip_int m)) = Some (Some r)"
      "sr_get_interface (if_list sr) (rt_interface r) = Some out"
  shows "\<exists>p1 p2 sr'. icmp_translated ip_dst (htonl (ip_int m)) (htons (aux_int m)) n p p1 \<and>
    next_hop_header p1 p2 \<and> sr_handlepacket sr f (of_nat (length f)) iface = Some sr' \<and>
    ip_output sr (rt_gw r) out p2 len (rt_interface r) iface sr'"
proof -
  note l = ip_frame_len [OF f, folded p len]
  obtain p1 where p1: "nat_handle_icmp sr p = Some (1, p1, sr)"
    "icmp_translated ip_dst (htonl (ip_int m)) (htons (aux_int m)) n p p1"
    using nat_handle_icmp_inbound [OF ip(1-3,5) m] by blast
  have dst: "rd32 ip_dst p = Some dst" and hl: "ip_hl p = Some 5" and room: "28 \<le> length p"
    using ip(1,2) by (simp_all add: ip_plain_def)
  have "20 \<le> length p" using l(2) by simp
  note h = icmp_translated_header [OF p1(2) hl this]
  obtain v where v: "rd16 22 p = Some v" "v \<noteq> 0" using valid(2) room by (auto simp: rd16_def)
  have "sr_handlepacket sr f (of_nat (length f)) iface = sr_forward_ippacket sr p1 len iface"
    using ip_frame_handled [OF f p len pr dst] ip(4)
      router_icmp [of p len 20 0 v sr iface] l room type valid(1) v on p1(1)
    by simp
  moreover have o: "length (if_addr out) = 6"
    using inv(1) route(2) by (auto simp: router_inv_def ifs_ok_def list_all_iff dest: sr_get_interface_Some)
  have "\<exists>p2 sr'. sr_forward_ippacket sr p1 len iface = Some sr' \<and> next_hop_header p1 p2 \<and>
      ip_output sr (rt_gw r) out p2 len (rt_interface r) iface sr'"
    using l h p1(2) inv route o
    by (intro sr_forward_ippacket_routed [where hl = 5 and dst = "htonl (ip_int m)"])
      (simp_all add: router_inv_def sock_ok_def icmp_translated_def)
  ultimately show ?thesis using p1(2) by metis
qed

end
