(* ===== verification/SR_Unsolicited.thy ===== *)
theory SR_Unsolicited
  imports SR_Timers
begin

text \<open>
  The life of an unsolicited packet: segments that the NAT keeps without translating them
  (\<open>sr_nat_insert_unsolicited_packet\<close> as called by \<open>nat_handle_tcp\<close>), and their end in a round of
  \<open>sr_nat_timeout\<close>.
\<close>

section \<open>Recording\<close>

definition recorded :: "int \<Rightarrow> sr_nat \<Rightarrow> buf \<Rightarrow> u32 \<Rightarrow> sr_nat_unsol_pkt list \<Rightarrow> sr_nat" where
  "recorded now nt p len us =
     (if unsol_member p us = Some True then nt
      else nt\<lparr>unsol_pkt := Some (us @ [\<lparr>un_ip_packet = take (unat len) p, un_last_updated = now\<rparr>])\<rparr>)"

lemma recorded_first:
  "unsol_pkt nt = Some [] \<Longrightarrow>
     unsol_pkt (recorded now nt p len []) = Some [\<lparr>un_ip_packet = take (unat len) p, un_last_updated = now\<rparr>]"
  by (simp add: recorded_def)

lemma unsol_member_total:
  assumes "ip_hl p = Some hl" "5 \<le> hl" "hl * 4 + 8 \<le> length p"
    and "list_all (\<lambda>u. hl * 4 + 8 \<le> length (un_ip_packet u)) us"
  shows "\<exists>b. unsol_member p us = Some b"
  using assms(4)
proof (induction us)
  case (Cons u us)
  then obtain b where "same_syn p (un_ip_packet u) = Some b"
    using same_syn_total [OF assms(1-3)] by auto
  with Cons show ?case by auto
qed (auto intro: exI [of _ False])

lemma insert_unsolicited_recorded:
  assumes p: "ip_hl p = Some hl" "5 \<le> hl" "hl * 4 + 8 \<le> length p" "unat len \<le> length p"
    and us: "unsol_pkt nt = Some us" "list_all (\<lambda>u. hl * 4 + 8 \<le> length (un_ip_packet u)) us"
  shows "sr_nat_insert_unsolicited_packet now nt p len = Some (recorded now nt p len us)"
proof -
  obtain b where "unsol_member p us = Some b" using unsol_member_total [OF p(1-3) us(2)] by blast
  then show ?thesis
    using p us by (cases b) (simp_all add: sr_nat_insert_unsolicited_packet_def recorded_def mem)
qed

text \<open>A SYN from outside to a port without a mapping.\<close>

lemma stray_syn_recorded:
  assumes p: "tcp_packet p len tcp n src dst" "\<not> is_private_ip (ntohl src)"
    and f: "tcp_flags_at tcp p = Some f" "SYN f" "\<not> ACK f" and port: "rd16 (tcp + 2) p = Some port"
    and m: "sr_nat_lookup_external (nat_st sr) (ntohs port) nat_mapping_tcp = None"
    and us: "unsol_pkt (nat_st sr) = Some us" "list_all (\<lambda>u. tcp + 8 \<le> length (un_ip_packet u)) us"
  shows "nat_handle_tcp sr p len 1 = Some (-1, p, sr\<lparr>nat_st := recorded (clock sr) (nat_st sr) p len us\<rparr>)"
proof -
  obtain hl where hl: "ip_hl p = Some hl" "tcp = hl * 4" "5 \<le> hl" "hl * 4 + 8 \<le> length p" "unat len \<le> length p"
    using p(1) by (auto simp: tcp_packet_def)
  from insert_unsolicited_recorded [OF hl(1,3-5) us(1)] us(2) hl(2)
  have "sr_nat_insert_unsolicited_packet (clock sr) (nat_st sr) p len =
    Some (recorded (clock sr) (nat_st sr) p len us)" by simp
  then show ?thesis
    using p f port m hl by (auto simp: nat_handle_tcp_def nat_tcp_inbound_def tcp_packet_def Let_def)
qed

text \<open>
  A segment of an internal port that is mapped, to a peer the mapping has no connection with: it is
  recorded as unsolicited and answered with host unreachable.
\<close>

lemma new_peer_refused:
  assumes on: "nat_enabled sr" and ttl: "rd8 ip_ttl p = Some ttl" "ttl \<noteq> 1"
    and p: "tcp_packet p len tcp n src dst" "is_private_ip (ntohl src)" "\<not> is_private_ip (ntohl dst)"
      "rd16 tcp p = Some port"
    and m: "sr_nat_lookup_internal (nat_st sr) (ntohl src) (ntohs port) nat_mapping_tcp = Some m"
      "find_conn (nat_st sr) 0 p tcp (conns m) = Some None"
    and us: "unsol_pkt (nat_st sr) = Some us" "list_all (\<lambda>u. tcp + 8 \<le> length (un_ip_packet u)) us"
  shows "handle_ip_transit sr p len iface ip_protocol_tcp =
    sr_send_icmp (sr\<lparr>nat_st := recorded (clock sr) (nat_st sr) p len us\<rparr>) p iface icmp_type_dstunreachable 1"
proof -
  obtain hl where hl: "ip_hl p = Some hl" "tcp = hl * 4" "5 \<le> hl" "hl * 4 + 8 \<le> length p" "unat len \<le> length p"
    using p(1) by (auto simp: tcp_packet_def)
  from insert_unsolicited_recorded [OF hl(1,3-5) us(1)] us(2) hl(2)
  have "sr_nat_insert_unsolicited_packet (clock sr) (nat_st sr) p len =
    Some (recorded (clock sr) (nat_st sr) p len us)" by simp
  then have "sr_nat_update_connection (clock sr) (nat_st sr) m p len 0 =
    Some (None, recorded (clock sr) (nat_st sr) p len us)"
    using hl m(2) by (simp add: sr_nat_update_connection_def Let_def)
  note h = nat_handle_tcp_new_peer [OF p m(1) this, of 0]
  have "uint ttl - 1 \<noteq> 0" using ttl(2) by (metis diff_eq_eq add_0 uint_1 word_uint_eqI)
  then show ?thesis using h on ttl(1) by (simp add: handle_ip_transit_def)
qed

text \<open>No connection of a mapping has the peer of the segment: the search for one finds nothing.\<close>

lemma find_conn_no_peer:
  assumes inv: "nat_inv nt" and m: "m \<in> set (mappings nt)"
    and p: "rd32 ip_dst p = Some dst" "rd16 (tcp + 2) p = Some dport"
    and peers: "\<forall>c \<in> set (conns m). peer_ip c \<noteq> dst \<or> peer_port c \<noteq> dport"
  shows "find_conn nt 0 p tcp (conns m) = Some None"
proof -
  have at: "conn_at nt (conn_addr c) = Some c" if "c \<in> set (conns m)" for c
    unfolding conn_at_def
    using find_distinct_iff [of conn_addr "all_conns nt" "conn_addr c" c] inv m that
    by (auto simp: nat_inv_def conns_inv_def all_conns_def)
  have "find_conn nt 0 p tcp cs = Some None" if "set cs \<subseteq> set (conns m)" for cs
    using that
  proof (induction cs)
    case (Cons c cs)
    then have "conn_matches 0 p tcp c = Some False"
      using peers p by (auto simp: conn_matches_def and_also_def)
    then show ?case using Cons at by simp
  qed simp
  then show ?thesis by blast
qed

text \<open>The answer itself, which quotes the segment.\<close>

lemma new_peer_answered:
  assumes on: "nat_enabled sr" and ttl: "rd8 ip_ttl p = Some ttl" "ttl \<noteq> 1"
    and p: "tcp_packet p len tcp n src dst" "is_private_ip (ntohl src)" "\<not> is_private_ip (ntohl dst)"
      "rd16 tcp p = Some sport" "rd16 (tcp + 2) p = Some dport"
    and m: "sr_nat_lookup_internal (nat_st sr) (ntohl src) (ntohs sport) nat_mapping_tcp = Some m"
      "\<forall>c \<in> set (conns m). peer_ip c \<noteq> dst \<or> peer_port c \<noteq> dport"
    and us: "unsol_pkt (nat_st sr) = Some us" "list_all (\<lambda>u. tcp + 8 \<le> length (un_ip_packet u)) us"
    and i: "sr_get_interface (if_list sr) iface = Some i"
    and inv: "router_inv sr" "sock_ok sr"
  shows "\<exists>q sr'. handle_ip_transit sr p len iface ip_protocol_tcp = Some sr' \<and>
    icmp_message (if_ip i) src icmp_type_dstunreachable 1 ([0, 0, 0, 0] @ take 28 p) q \<and>
    ip_output (sr\<lparr>nat_st := recorded (clock sr) (nat_st sr) p len us\<rparr>) src i q 56 iface iface sr'"
proof -
  let ?sr = "sr\<lparr>nat_st := recorded (clock sr) (nat_st sr) p len us\<rparr>"
  have "nat_inv (nat_st sr)" using inv(1) by (simp add: router_inv_def nat_ok_def)
  moreover have "m \<in> set (mappings (nat_st sr))"
    using m(1) by (auto simp: sr_nat_lookup_internal_def dest: find_SomeD)
  ultimately have "find_conn (nat_st sr) 0 p tcp (conns m) = Some None"
    using find_conn_no_peer [OF _ _ _ p(5) m(2)] p(1) by (simp add: tcp_packet_def)
  note refused = new_peer_refused [OF on ttl p(1-4) m(1) this us]
  have "length (if_addr i) = 6"
    using inv(1) sr_get_interface_Some [OF i] by (simp add: router_inv_def ifs_ok_def list_all_iff)
  moreover have "28 \<le> length p" "rd32 ip_src p = Some src" using p(1) by (auto simp: tcp_packet_def)
  ultimately obtain q sr' where "sr_send_icmp ?sr p iface 3 1 = Some sr'"
    "icmp_message (if_ip i) src 3 1 ([0, 0, 0, 0] @ take 28 p) q" "ip_output ?sr src i q 56 iface iface sr'"
    using sr_send_icmp_error [of ?sr iface i 3 p src 1] i inv by (auto simp: sock_ok_def router_inv_def)
  then show ?thesis using refused by auto
qed

section \<open>Expiry\<close>

lemma expire_unsol_keeps_young:
  assumes "list_all (\<lambda>u. clock sr - un_last_updated u \<le> 6 \<and> 16 \<le> length (un_ip_packet u)) us"
    and "routing_table sr \<noteq> []"
  shows "expire_unsol sr us = Some (us, sr)"
  using assms(1)
proof (induction us)
  case (Cons u us)
  obtain src where s: "rd32 ip_src (un_ip_packet u) = Some src" using Cons.prems by (simp add: mem)
  obtain lpm where "sr_rt_lookup (routing_table sr) src = Some lpm"
    using assms(2) by (simp add: sr_rt_lookup_def)
  with Cons s show ?case by (cases lpm) simp_all
qed simp

text \<open>
  A round of the timer goes through the whole list.  A packet is given up when it is older than six
  seconds and its source has a route; then it is answered with port unreachable, through the interface
  of that route, and leaves the list.  The answers go out in the order of the list, each in the state
  the one before left.
\<close>

definition unsol_due :: "sr_instance \<Rightarrow> sr_nat_unsol_pkt \<Rightarrow> bool" where
  "unsol_due sr u \<longleftrightarrow> 6 < clock sr - un_last_updated u \<and>
     (\<exists>src r. rd32 ip_src (un_ip_packet u) = Some src \<and> sr_rt_lookup (routing_table sr) src = Some (Some r))"

inductive unsol_answers :: "sr_instance \<Rightarrow> sr_nat_unsol_pkt list \<Rightarrow> sr_instance \<Rightarrow> bool" where
  none: "unsol_answers sr [] sr"
| answer: "rd32 ip_src (un_ip_packet u) = Some src \<Longrightarrow>
    sr_rt_lookup (routing_table sr) src = Some (Some r) \<Longrightarrow>
    sr_get_interface (if_list sr) (rt_interface r) = Some i \<Longrightarrow>
    icmp_message (if_ip i) src icmp_type_dstunreachable 3 ([0, 0, 0, 0] @ take 28 (un_ip_packet u)) m \<Longrightarrow>
    ip_output sr src i m 56 (rt_interface r) (rt_interface r) sr1 \<Longrightarrow> unsol_answers sr1 us sr' \<Longrightarrow>
    unsol_answers sr (u # us) sr'"

inductive_simps unsol_answers_simps: "unsol_answers sr [] sr'" "unsol_answers sr (u # us) sr'"

lemma unsol_due_same:
  "clock sr' = clock sr \<Longrightarrow> routing_table sr' = routing_table sr \<Longrightarrow> unsol_due sr' = unsol_due sr"
  by (simp add: unsol_due_def fun_eq_iff)

lemma expire_unsol_answers:
  assumes "routing_table sr \<noteq> []" "\<forall>u \<in> set us. 28 \<le> length (un_ip_packet u)"
    and "\<forall>r \<in> set (routing_table sr). sr_get_interface (if_list sr) (rt_interface r) \<noteq> None"
    and "ifs_ok (if_list sr)" "arp_inv (cache sr)" "sock_ok sr" "\<forall>u \<in> set us. length (un_ip_packet u) + 14 < 2 ^ 31"
  shows "\<exists>sr'. expire_unsol sr us = Some (filter (\<lambda>u. \<not> unsol_due sr u) us, sr') \<and>
    unsol_answers sr (filter (unsol_due sr) us) sr' \<and> only_cache sr sr'"
  using assms
proof (induction us arbitrary: sr)
  case Nil
  show ?case by (simp add: unsol_answers.none)
next
  case (Cons u us)
  obtain src where src: "rd32 ip_src (un_ip_packet u) = Some src" using Cons.prems(2) by (simp add: mem)
  obtain lpm where lpm: "sr_rt_lookup (routing_table sr) src = Some lpm"
    using Cons.prems(1) by (simp add: sr_rt_lookup_def)
  show ?case
  proof (cases "unsol_due sr u")
    case False
    then have "lpm = None \<or> clock sr - un_last_updated u \<le> 6" using src lpm by (auto simp: unsol_due_def)
    moreover obtain sr' where "expire_unsol sr us = Some (filter (\<lambda>u. \<not> unsol_due sr u) us, sr')"
      "unsol_answers sr (filter (unsol_due sr) us) sr'" "only_cache sr sr'"
      using Cons.IH [of sr] Cons.prems by auto
    ultimately show ?thesis using False src lpm by (cases lpm) auto
  next
    case True
    then obtain r where r: "lpm = Some r" and old: "6 < clock sr - un_last_updated u"
      using src lpm by (auto simp: unsol_due_def)
    have "r \<in> set (routing_table sr)" using lpm r sr_rt_lookup_in_table by blast
    then obtain i where i: "sr_get_interface (if_list sr) (rt_interface r) = Some i"
      using Cons.prems(3) by auto
    have six: "length (if_addr i) = 6"
      using Cons.prems(4) sr_get_interface_Some [OF i] by (simp add: ifs_ok_def list_all_iff)
    obtain m sr1 where s: "sr_send_icmp sr (un_ip_packet u) (rt_interface r) 3 3 = Some sr1"
      and m: "icmp_message (if_ip i) src 3 3 ([0, 0, 0, 0] @ take 28 (un_ip_packet u)) m"
        "ip_output sr src i m 56 (rt_interface r) (rt_interface r) sr1"
      using sr_send_icmp_error [OF i six Cons.prems(5,6) _ _ src, of 3 3] Cons.prems(2) by auto
    note k = sr_send_icmp_keeps [OF s]
    note same = only_cache_same [OF k(1)]
    have due: "unsol_due sr1 = unsol_due sr" using same by (intro unsol_due_same) simp_all
    obtain sr' where e: "expire_unsol sr1 us = Some (filter (\<lambda>u. \<not> unsol_due sr u) us, sr')"
      "unsol_answers sr1 (filter (unsol_due sr) us) sr'" "only_cache sr1 sr'"
      using Cons.IH [of sr1] Cons.prems same k(2) due by (auto simp: sock_ok_def)
    have "unsol_answers sr (u # filter (unsol_due sr) us) sr'"
      using src lpm r i m e(2) by (intro unsol_answers.answer) simp_all
    then show ?thesis using True src lpm r old s e only_cache_trans [OF k(1) e(3)] by auto
  qed
qed

lemma unsolicited_answered:
  assumes us: "unsol_pkt (nat_st sr) = Some us" "\<forall>u \<in> set us. 28 \<le> length (un_ip_packet u)"
    and rt: "routing_table sr \<noteq> []"
      "\<forall>r \<in> set (routing_table sr). sr_get_interface (if_list sr) (rt_interface r) \<noteq> None"
    and inv: "router_safe sr" "sock_ok sr"
  shows "\<exists>sr1. unsol_answers sr (filter (unsol_due sr) us) sr1 \<and>
    sr_nat_timeout sr = Some (sr1\<lparr>nat_st := nat_expire (clock sr)
      ((nat_st sr)\<lparr>unsol_pkt := Some (filter (\<lambda>u. \<not> unsol_due sr u) us)\<rparr>)\<rparr>)"
proof -
  have "\<forall>u \<in> set us. length (un_ip_packet u) + 14 < 2 ^ 31" "ifs_ok (if_list sr)" "arp_inv (cache sr)"
    using inv(1) us(1) by (simp_all add: router_safe_def nat_safe_def unsol_small_def)
  then obtain sr1 where e: "expire_unsol sr us = Some (filter (\<lambda>u. \<not> unsol_due sr u) us, sr1)"
    "unsol_answers sr (filter (unsol_due sr) us) sr1" "only_cache sr sr1"
    using expire_unsol_answers [OF rt(1) us(2) rt(2) _ _ inv(2)] by blast
  note same = only_cache_same [OF e(3)]
  then have "sr_nat_timeout sr = Some (sr1\<lparr>nat_st := nat_expire (clock sr)
      ((nat_st sr)\<lparr>unsol_pkt := Some (filter (\<lambda>u. \<not> unsol_due sr u) us)\<rparr>)\<rparr>)"
    using us(1) e(1) by (simp add: sr_nat_timeout_def)
  with e(2) show ?thesis by blast
qed

end
