(* ===== verification/SR_Examples.thy ===== *)
theory SR_Examples
  imports SR_System SR_Pipeline SR_Unsolicited
begin

text \<open>
  A concrete router for the witnesses: the interfaces of \<open>IP_CONFIG\<close>, the routes of \<open>rtable\<close>, one
  ARP entry, a socket that takes every byte, and a few packets.
\<close>

section \<open>The router\<close>

definition ex_if :: "string \<Rightarrow> u8 \<Rightarrow> u32 \<Rightarrow> sr_if" where
  "ex_if name k ip = \<lparr>if_name = name, if_addr = [2, 0, 0, 0, 0, k], if_ip = ip, if_speed = 0\<rparr>"

definition ex_ifs :: "sr_if list" where
  "ex_ifs = [ex_if ''eth1'' 1 (le32 10 0 1 1), ex_if ''eth2'' 2 (le32 172 64 3 1),
             ex_if ''eth4'' 4 (le32 10 0 1 2)]"

definition ex_route :: "u32 \<Rightarrow> string \<Rightarrow> sr_rt" where
  "ex_route ip name = \<lparr>rt_dest = ip, rt_gw = ip, rt_mask = 0xffffffff, rt_interface = name\<rparr>"

definition client1 :: u32 where "client1 = le32 10 0 1 100"
definition server1 :: u32 where "server1 = le32 172 64 3 21"

definition ex_rt :: "sr_rt list" where
  "ex_rt = [ex_route client1 ''eth1'', ex_route server1 ''eth2'']"

definition ex_nat0 :: sr_nat where
  "ex_nat0 = \<lparr>mappings = [], icmp_query_to = 0, tcp_estab_idle_to = 0, tcp_transitory_to = 0,
              bitmap = [], unsol_pkt = Some [], nat_brk = 0\<rparr>"

definition ex_base :: "bool \<Rightarrow> sr_instance" where
  "ex_base on = \<lparr>user = ''user'', host = ''vrhost'', template = '''', topo_id = 0, if_list = ex_ifs,
     routing_table = ex_rt, cache = \<lparr>entries = [], requests = [], arp_brk = 0\<rparr>, nat_st = ex_nat0,
     nat_enabled = on, logfile = None, clock = 1000, clock_usec = 0, sock_write = int, wire = []\<rparr>"

definition ex_boot :: "bool \<Rightarrow> sr_instance" where
  "ex_boot on = sr_init (ex_base on) 60 7440 300"

definition ex_mac :: buf where "ex_mac = [2, 0, 0, 0, 9, 9]"

definition ex_router :: "bool \<Rightarrow> sr_instance" where
  "ex_router on = (ex_boot on)\<lparr>cache :=
     snd (the (sr_arpcache_insert 1000 (cache (ex_boot on)) ex_mac server1))\<rparr>"

lemma ex_ifs_ok: "ifs_ok ex_ifs"
  by (simp add: ifs_ok_def ex_ifs_def ex_if_def)

lemma ex_boot_start: "router_boot (ex_boot on)"
  unfolding ex_boot_def by (rule boot) (simp_all add: ex_base_def ex_nat0_def ex_ifs_ok)

lemma ex_boot_inv: "router_inv (ex_boot on)"
  by (rule router_boot_inv [OF ex_boot_start])

lemma ex_fields [simp]:
  "if_list (ex_router on) = ex_ifs" "routing_table (ex_router on) = ex_rt"
  "nat_enabled (ex_router on) = on" "clock (ex_router on) = 1000" "sock_ok (ex_router on)"
  "nat_st (ex_router on) = sr_nat_init 60 7440 300 ex_nat0"
  by (simp_all add: ex_router_def ex_boot_def ex_base_def sr_init_def sock_ok_def)

lemma ex_learned: "\<exists>r c. sr_arpcache_insert 1000 (cache (ex_boot on)) ex_mac server1 = Some (r, c)"
  by (rule insert_defined) (simp add: ex_mac_def)

lemma ex_router_inv: "router_inv (ex_router on)"
proof -
  obtain r c where i: "sr_arpcache_insert 1000 (cache (ex_boot on)) ex_mac server1 = Some (r, c)"
    using ex_learned by blast
  have "arp_inv (cache (ex_boot on))" using ex_boot_inv by (simp add: router_inv_def)
  then show ?thesis
    using arp_inv_insert [OF _ i] ex_boot_inv [of on] i
    by (simp add: ex_router_def router_inv_def)
qed

lemma ex_get_interface [simp]:
  "sr_get_interface ex_ifs ''eth1'' = Some (ex_if ''eth1'' 1 (le32 10 0 1 1))"
  "sr_get_interface ex_ifs ''eth2'' = Some (ex_if ''eth2'' 2 (le32 172 64 3 1))"
  "length (if_addr (ex_if n k ip)) = 6" "if_ip (ex_if n k ip) = ip"
  by (simp_all add: sr_get_interface_def ex_ifs_def ex_if_def strn_eq_def)

lemma full_mask: "ip AND 0xffffffff = (ip :: u32)" "unat (ntohl 0xffffffff) = 4294967295"
proof -
  have "(0xffffffff :: u32) = - 1" by simp
  then show "ip AND 0xffffffff = ip" by (simp only: bit.conj_one_right)
qed (simp add: ntohl_def htonl_def le32_def byte_def)

lemma ex_lookup [simp]:
  "sr_rt_lookup ex_rt server1 = Some (Some (ex_route server1 ''eth2''))"
  "sr_rt_lookup ex_rt client1 = Some (Some (ex_route client1 ''eth1''))"
  by (simp_all add: sr_rt_lookup_def ex_rt_def ex_route_def rt_matches_def full_mask client1_def server1_def)

lemma ex_route_sel [simp]: "rt_interface (ex_route ip n) = n" "rt_gw (ex_route ip n) = ip"
  by (simp_all add: ex_route_def)

lemma ex_for_router [simp]:
  "\<not> for_router (ex_router on) server1" "for_router (ex_router on) (le32 10 0 1 1)"
  "for_router (ex_router on) (le32 172 64 3 1)"
proof -
  have b: "ip_broadcast_addr = le32 255 255 255 255" by (simp add: ip_broadcast_addr_def le32_def)
  show "\<not> for_router (ex_router on) server1" "for_router (ex_router on) (le32 10 0 1 1)"
    "for_router (ex_router on) (le32 172 64 3 1)"
    by (simp_all add: for_router_def b ex_ifs_def ex_if_def server1_def)
qed

lemma ex_private [simp]: "is_private_ip (ntohl client1)" "\<not> is_private_ip (ntohl server1)"
  by (simp_all add: client1_def server1_def ntohl_def htonl_le32 is_private_ip_octets)

section \<open>Packets\<close>

text \<open>A UDP datagram from the client to the server, with the given TTL and header checksum.\<close>

definition ex_udp :: "u8 \<Rightarrow> u8 \<Rightarrow> u8 \<Rightarrow> buf" where
  "ex_udp ttl c0 c1 = [69, 0, 0, 28, 0, 1, 0, 0, ttl, 17, c0, c1, 10, 0, 1, 100, 172, 64, 3, 21,
     19, 136, 0, 53, 0, 8, 0, 0]"

text \<open>An echo request from the client to the router and to the server, and the server's reply.\<close>

definition ex_ping :: buf where
  "ex_ping = [69, 0, 0, 30, 0, 1, 0, 0, 64, 1, 100, 122, 10, 0, 1, 100, 10, 0, 1, 1,
     8, 0, 143, 142, 0, 7, 0, 1, 104, 105]"

definition ex_query :: buf where
  "ex_query = [69, 0, 0, 30, 0, 1, 0, 0, 64, 1, 192, 37, 10, 0, 1, 100, 172, 64, 3, 21,
     8, 0, 143, 142, 0, 7, 0, 1, 104, 105]"

definition ex_reply :: buf where
  "ex_reply = [69, 0, 0, 30, 0, 1, 0, 0, 64, 1, 28, 72, 172, 64, 3, 21, 172, 64, 3, 1,
     0, 0, 147, 149, 4, 0, 0, 1, 104, 105]"

text \<open>The first segment of a connection, the peer's answer, and a SYN to a port that is not mapped.\<close>

definition ex_syn :: buf where
  "ex_syn = [69, 0, 0, 40, 0, 1, 0, 0, 64, 6, 192, 22, 10, 0, 1, 100, 172, 64, 3, 21,
     15, 160, 0, 80, 0, 0, 0, 7, 0, 0, 0, 0, 80, 2, 16, 0, 213, 50, 0, 0]"

definition ex_syn_ack :: buf where
  "ex_syn_ack = [69, 0, 0, 40, 0, 1, 0, 0, 64, 6, 28, 57, 172, 64, 3, 21, 172, 64, 3, 1,
     0, 80, 4, 0, 0, 0, 0, 9, 0, 0, 0, 0, 80, 18, 16, 0, 60, 227, 0, 0]"

definition ex_stray_syn :: buf where
  "ex_stray_syn = [69, 0, 0, 40, 0, 1, 0, 0, 64, 6, 28, 57, 172, 64, 3, 21, 172, 64, 3, 1,
     0, 80, 7, 208, 0, 0, 0, 9, 0, 0, 0, 0, 80, 2, 16, 0, 57, 35, 0, 0]"

lemmas ex_packets = ex_udp_def ex_ping_def ex_query_def ex_reply_def ex_syn_def ex_syn_ack_def ex_stray_syn_def

text \<open>A frame for an interface of the router.\<close>

definition ex_frame :: "u8 \<Rightarrow> buf \<Rightarrow> buf" where
  "ex_frame k p = [2, 0, 0, 0, 0, k, 2, 0, 0, 0, 9, 9, 8, 0] @ p"

lemma drop_ex_frame [simp]: "drop 14 (ex_frame k p) = p"
  by (simp add: ex_frame_def)

lemma length_ex_frame [simp]: "length (ex_frame k p) = 14 + length p"
  by (simp add: ex_frame_def)

lemma ex_ip_frame:
  assumes "header_ok p 5" "20 < length p" "length p \<le> 65535"
  shows "ip_frame (ex_router on) (ex_frame 1 p) ''eth1'' (ex_if ''eth1'' 1 (le32 10 0 1 1)) 5"
    "ip_frame (ex_router on) (ex_frame 2 p) ''eth2'' (ex_if ''eth2'' 2 (le32 172 64 3 1)) 5"
  using assms
  by (simp_all add: ip_frame_def)
    (simp_all add: ex_frame_def ex_if_def rd16_def htons_def byte_def le16_def)

lemma ex_headers:
  "header_ok (ex_udp 64 192 23) 5" "header_ok (ex_udp 1 255 23) 5" "header_ok (ex_udp 0 0 24) 5"
  "header_ok ex_ping 5" "header_ok ex_query 5" "header_ok ex_reply 5" "header_ok ex_syn 5"
  "header_ok ex_syn_ack 5" "header_ok ex_stray_syn 5"
  by (simp_all add: header_ok_def valid_sum_def ip_hl_def rd8_def rd16_def le16_def ex_packets)

lemma ex_lengths [simp]:
  "length (ex_udp ttl c0 c1) = 28" "length ex_ping = 30" "length ex_query = 30" "length ex_reply = 30"
  "length ex_syn = 40" "length ex_syn_ack = 40" "length ex_stray_syn = 40"
  by (simp_all add: ex_packets)

text \<open>The fields of the packets.\<close>

lemma ex_query_facts:
  "ip_plain ex_query client1 server1 10" "rd8 ip_p ex_query = Some 1" "ex_query ! ip_ttl = 64"
  "rd16 24 ex_query = Some (le16 0 7)" "ntohs (le16 0 7) = 7"
  by (simp_all add: ip_plain_def ex_query_def ip_hl_def rd8_def rd16_def rd32_def client1_def server1_def
      ntohs_def htons_le16, simp_all add: le16_def)

lemma ex_reply_facts:
  "ip_plain ex_reply server1 (le32 172 64 3 1) 10" "rd8 ip_p ex_reply = Some 1" "rd8 20 ex_reply = Some 0"
  "valid_sum (drop 20 ex_reply)" "rd16 22 ex_reply \<noteq> Some 0" "rd16 24 ex_reply = Some (htons 1024)"
  by (simp_all add: ip_plain_def ex_reply_def ip_hl_def rd8_def rd16_def rd32_def server1_def valid_sum_def
      ntohs_def htons_le16, simp_all add: le16_def htons_def byte_def)

lemma ex_ping_facts:
  "rd8 ip_p ex_ping = Some 1" "rd8 20 ex_ping = Some 8" "rd32 ip_src ex_ping = Some client1"
  "rd32 ip_dst ex_ping = Some (le32 10 0 1 1)" "valid_sum (drop 20 ex_ping)" "rd16 22 ex_ping \<noteq> Some 0"
  "rd16 ip_len ex_ping = Some (le16 0 30)" "unat (ntohs (le16 0 30)) = 2 + 28"
  by (simp_all add: ex_ping_def rd8_def rd16_def rd32_def client1_def valid_sum_def ntohs_def htons_le16,
      simp_all add: le16_def)

lemma ex_udp_facts:
  "rd32 ip_src (ex_udp t a b) = Some client1" "rd32 ip_dst (ex_udp t a b) = Some server1"
  "ex_udp t a b ! ip_ttl = t" "ip_hl (ex_udp t a b) = Some 5"
  by (simp_all add: ex_udp_def rd8_def rd32_def ip_hl_def client1_def server1_def)

lemma ex_tcp_facts:
  "tcp_packet ex_syn 40 20 20 client1 server1"
  "rd16 20 ex_syn = Some (htons 4000)" "rd16 22 ex_syn = Some (htons 80)"
  "tcp_packet ex_syn_ack 40 20 20 server1 (le32 172 64 3 1)"
  "rd16 20 ex_syn_ack = Some (htons 80)" "rd16 22 ex_syn_ack = Some (htons 1024)"
  "tcp_flags_at 20 ex_syn_ack = Some \<lparr>FIN = False, SYN = True, ACK = True\<rparr>"
  "tcp_packet ex_stray_syn 40 20 20 server1 (le32 172 64 3 1)"
  "tcp_flags_at 20 ex_stray_syn = Some \<lparr>FIN = False, SYN = True, ACK = False\<rparr>"
  by (simp_all add: tcp_packet_def ex_packets ip_hl_def rd8_def rd16_def rd32_def client1_def server1_def
      tcp_flags_at_def flags_of_def, simp_all add: le16_def htons_def byte_def)

section \<open>The first mapping\<close>

definition ex_map :: "sr_nat_mapping_type \<Rightarrow> u16 \<Rightarrow> sr_nat_mapping" where
  "ex_map ty aux = \<lparr>map_type = ty, ip_int = ntohl client1, ip_ext = 0, aux_int = aux, aux_ext = 1024,
     map_last_updated = 1000, conns = []\<rparr>"

definition ex_mapped_nat :: "sr_nat_mapping_type \<Rightarrow> u16 \<Rightarrow> sr_nat" where
  "ex_mapped_nat ty aux =
     snd (sr_nat_insert_mapping 1000 (sr_nat_init 60 7440 300 ex_nat0) (ntohl client1) aux ty)"

definition ex_mapped :: "sr_nat_mapping_type \<Rightarrow> u16 \<Rightarrow> sr_instance" where
  "ex_mapped ty aux = (ex_router True)\<lparr>nat_st := ex_mapped_nat ty aux\<rparr>"

lemma ex_first_id: "\<exists>bm. claim_id (replicate 2048 0) = Some (1024, bm)"
proof -
  have t: "pool.tracks (replicate 2048 0) []" by (rule tracks_empty)
  then obtain r bm where c: "claim_id (replicate 2048 0) = Some (r, bm)"
    using pool.tracks_total [OF t] by auto
  note s = claim_id_Some [OF _ c]
  have "\<not> used (replicate 2048 0) 1024" using t by (simp add: pool.tracks_def)
  then have "r = 1024" using s(1) s(4) [of 1024] by fastforce
  with c show ?thesis by blast
qed

lemma ex_insert:
  "sr_nat_insert_mapping 1000 (sr_nat_init 60 7440 300 ex_nat0) (ntohl client1) aux ty =
     (ex_map ty aux, ex_mapped_nat ty aux)"
  "mappings (ex_mapped_nat ty aux) = [ex_map ty aux]"
  using ex_first_id
  by (auto simp: ex_mapped_nat_def ex_map_def sr_nat_insert_mapping_def find_next_id_def sr_nat_init_def Let_def)

lemma ex_nat_ok: "nat_ok (sr_nat_init 60 7440 300 ex_nat0)" "nat_room (sr_nat_init 60 7440 300 ex_nat0)"
  using ex_router_inv [of True] by (simp_all add: router_inv_def nat_room_def sr_nat_init_def)

lemma ex_lookup_none: "sr_nat_lookup_internal (sr_nat_init 60 7440 300 ex_nat0) ip aux ty = None"
  by (simp add: sr_nat_lookup_internal_def sr_nat_init_def)

lemma ex_mapped_fields [simp]:
  "if_list (ex_mapped ty aux) = ex_ifs" "routing_table (ex_mapped ty aux) = ex_rt"
  "nat_enabled (ex_mapped ty aux)" "clock (ex_mapped ty aux) = 1000" "sock_ok (ex_mapped ty aux)"
  "nat_st (ex_mapped ty aux) = ex_mapped_nat ty aux" "cache (ex_mapped ty aux) = cache (ex_router True)"
  "for_router (ex_mapped ty aux) = for_router (ex_router True)"
  "ip_frame (ex_mapped ty aux) = ip_frame (ex_router True)"
  using ex_fields(5) [of True]
  by (auto simp: ex_mapped_def for_router_def ip_frame_def sock_ok_def fun_eq_iff)

lemma ex_mapped_inv: "router_inv (ex_mapped ty aux)"
  using nat_ok_insert_mapping(1) [OF ex_nat_ok ex_lookup_none ex_insert(1)] ex_router_inv [of True]
  by (simp add: router_inv_def)

lemma ex_mapped_lookup:
  "sr_nat_lookup_external (ex_mapped_nat ty aux) 1024 ty' = Some (ex_map ty aux)"
  "sr_nat_lookup_internal (ex_mapped_nat ty aux) (ntohl client1) aux ty' = Some (ex_map ty aux)"
  by (simp_all add: sr_nat_lookup_external_def sr_nat_lookup_internal_def ex_insert(2))
    (simp_all add: ex_map_def)

lemma ex_map_sel [simp]: "ip_int (ex_map ty aux) = ntohl client1" "aux_int (ex_map ty aux) = aux"
  "aux_ext (ex_map ty aux) = 1024" "conns (ex_map ty aux) = []"
  by (simp_all add: ex_map_def)

section \<open>Outbound packets\<close>

lemma ex_inv: "nat_inv (nat_st (ex_router True))" "nat_room (nat_st (ex_router True))"
  "unsol_readable 5 (nat_st (ex_router True))"
  using ex_nat_ok by (simp_all add: nat_ok_def unsol_readable_def) (simp add: sr_nat_init_def ex_nat0_def)

lemma ex_query_out:
  "\<exists>p'. nat_handle_icmp (ex_router True) ex_query = Some (1, p', ex_mapped nat_mapping_icmp 7) \<and>
     icmp_translated ip_src (le32 172 64 3 1) (htons 1024) 10 ex_query p'"
proof -
  let ?sr = "ex_router True"
  have "nat_translate (clock ?sr) nat_mapping_icmp (nat_st ?sr) (ntohl client1) (ntohs (le16 0 7)) =
      (ex_map nat_mapping_icmp 7, ex_mapped_nat nat_mapping_icmp 7)"
    by (simp add: nat_translate_def ex_lookup_none ex_insert(1) ex_query_facts)
  from nat_handle_icmp_outbound [OF ex_query_facts(1) _ _ _ _ _ ex_query_facts(4) this,
      where r = "ex_route server1 ''eth2''" and i = "ex_if ''eth2'' 2 (le32 172 64 3 1)"]
  show ?thesis by (simp add: ex_mapped_def)
qed

lemma ex_syn_out:
  "\<exists>p' nt. nat_handle_tcp (ex_router True) ex_syn 40 0 = Some (1, p', ex_router True\<lparr>nat_st := nt\<rparr>) \<and>
     tcp_translated ip_src (le32 172 64 3 1) 20 (htons 1024) 20 20 ex_syn p'"
  using tcp_open [OF ex_inv(1,2) ex_tcp_facts(1) _ _ ex_tcp_facts(2), where dport = "htons 80"
      and r = "ex_route server1 ''eth2''" and i = "ex_if ''eth2'' 2 (le32 172 64 3 1)" and dir = 0]
    ex_inv(3) ex_tcp_facts(3)
  by (auto simp: ex_lookup_none ex_insert(1))

lemma ex_no_route: "sr_rt_lookup ex_rt (le32 10 0 1 1) = Some None"
  by (simp add: sr_rt_lookup_def ex_rt_def ex_route_def rt_matches_def full_mask client1_def server1_def)

section \<open>ARP\<close>

definition ex_arp :: "u8 \<Rightarrow> buf" where
  "ex_arp op = [0, 1, 8, 0, 6, 4, 0, op, 2, 0, 0, 0, 9, 9, 10, 0, 1, 100, 0, 0, 0, 0, 0, 0, 10, 0, 1, 1]"

definition ex_arp_frame :: "u8 \<Rightarrow> buf" where
  "ex_arp_frame op = [255, 255, 255, 255, 255, 255, 2, 0, 0, 0, 9, 9, 8, 6] @ ex_arp op"

lemma ex_arp_facts:
  "arp_packet_fields (ex_arp 1) arp_op_request ex_mac client1"
  "arp_packet_fields (ex_arp 2) arp_op_reply ex_mac client1"
  "14 \<le> length (ex_arp_frame op)" "length (ex_arp_frame op) = 42" "ex_arp_frame op ! 0 = 255"
  "rd16 ether_type (ex_arp_frame op) = Some (htons ethertype_arp)" "drop 14 (ex_arp_frame op) = ex_arp op"
  by (simp_all add: arp_packet_fields_def ex_arp_frame_def ex_arp_def rd16_def rd32_def rd_bytes_def
      ex_mac_def client1_def, simp_all add: le16_def htons_def byte_def)

text \<open>The router with one packet for the client waiting for an ARP reply.\<close>

definition ex_waiting :: sr_packet where
  "ex_waiting = queued_packet ex_reply 30 ''eth1'' ''eth2''"

definition ex_req :: sr_arpreq where
  "ex_req = (new_req (cache (ex_router False)) client1)\<lparr>req_packets := [ex_waiting]\<rparr>"

definition ex_pending :: sr_instance where
  "ex_pending = (ex_router False)\<lparr>cache := (cache (ex_router False))\<lparr>requests := [ex_req],
     arp_brk := Suc (arp_brk (cache (ex_router False)))\<rparr>\<rparr>"

lemma ex_router_requests: "requests (cache (ex_router on)) = []"
proof -
  obtain r c where i: "sr_arpcache_insert 1000 (cache (ex_boot on)) ex_mac server1 = Some (r, c)"
    using ex_learned by blast
  have "requests (cache (ex_boot on)) = []" by (simp add: ex_boot_def sr_init_def sr_arpcache_init_def)
  then show ?thesis
    using i by (auto simp: ex_router_def sr_arpcache_insert_def Let_def Option.bind_eq_Some_conv split: if_splits)
qed

lemma ex_pending_inv: "arp_inv (cache ex_pending)"
proof -
  have inv: "arp_inv (cache (ex_router False))" using ex_router_inv by (simp add: router_inv_def)
  have "sr_arpcache_queuereq (cache (ex_router False)) client1 ex_reply 30 ''eth1'' ''eth2'' =
      Some (arp_brk (cache (ex_router False)), cache ex_pending)"
    using queuereq_cases [OF inv _ _ ex_waiting_def, of client1]
    by (simp add: ex_router_requests ex_pending_def ex_req_def)
  from arp_inv_queuereq [OF inv _ this] show ?thesis by simp
qed

lemma ex_pending_fields [simp]:
  "if_list ex_pending = ex_ifs" "requests (cache ex_pending) = [ex_req]" "clock ex_pending = 1000"
  "sock_ok ex_pending" "req_ip ex_req = client1" "req_packets ex_req = [ex_waiting]"
  "pkt_iface ex_waiting = ''eth1''" "req_times_sent ex_req = 0" "req_sent ex_req = 0"
  using ex_fields(5) [of False]
  by (simp_all add: ex_pending_def ex_req_def new_req_def ex_waiting_def queued_packet_def sock_ok_def)

definition ex_cache1 :: sr_arpcache where
  "ex_cache1 = \<lparr>entries = [arp_new 1000 ex_mac server1], requests = [], arp_brk = 0\<rparr>"

lemma arp_scan_zero: "arp_scan (replicate n zero_arpentry) ip acc = acc"
  by (induction n) (simp_all add: zero_arpentry_def)

lemma ex_boot_cache: "\<not> list_all ent_valid (entries (cache (ex_boot on)))"
  "sr_arpcache_lookup (cache (ex_boot on)) ip = None" "length ex_mac = 6"
  by (simp_all add: ex_boot_def sr_init_def sr_arpcache_init_def sr_arpcache_lookup_def arp_scan_zero ex_mac_def)
    (simp add: list_all_iff zero_arpentry_def)

text \<open>The pending router's cache has room and does not know the client.\<close>

lemma ex_pending_room:
  "\<not> list_all ent_valid (entries (cache ex_pending))" "sr_arpcache_lookup (cache ex_pending) client1 = None"
proof -
  have b: "entries (cache (ex_boot False)) = zero_arpentry # replicate 99 zero_arpentry"
    by (simp add: ex_boot_def sr_init_def sr_arpcache_init_def flip: replicate_Suc)
  then have "entries (cache ex_pending) = arp_new 1000 ex_mac server1 # replicate 99 zero_arpentry"
    by (simp add: ex_pending_def ex_router_def sr_arpcache_insert_def rd_bytes_def ex_mac_def zero_arpentry_def arp_new_def)
  then show "\<not> list_all ent_valid (entries (cache ex_pending))" "sr_arpcache_lookup (cache ex_pending) client1 = None"
    by (simp_all add: sr_arpcache_lookup_def arp_new_def client1_def server1_def arp_scan_zero le32_def)
      (simp add: list_all_iff zero_arpentry_def)
qed

section \<open>A routing table file\<close>

definition ex_aton :: "string \<Rightarrow> u32 option" where
  "ex_aton s =
     (if s = ''10.0.1.100'' then Some client1 else if s = ''172.64.3.21'' then Some server1
      else if s = ''255.255.255.255'' then Some 0xffffffff else None)"

lemma ex_lines:
  "line_entry ex_aton ''10.0.1.100 10.0.1.100 255.255.255.255 eth1'' = Some (ex_route client1 ''eth1'')"
  "line_entry ex_aton ''172.64.3.21 172.64.3.21 255.255.255.255 eth2'' = Some (ex_route server1 ''eth2'')"
  "ex_rt = [ex_route client1 ''eth1'', ex_route server1 ''eth2'']"
  "scan_words [] ''# comment'' = [''#'', ''comment'']" "ex_aton ''#'' = None"
  by (simp_all add: line_entry_def isspace_def ex_aton_def ex_route_def ex_rt_def)

section \<open>A NAT with every identifier taken\<close>

definition holders :: "nat list \<Rightarrow> sr_nat_mapping list" where
  "holders ks = map (\<lambda>k. \<lparr>map_type = nat_mapping_icmp, ip_int = of_nat k, ip_ext = 0, aux_int = 0,
     aux_ext = of_nat k, map_last_updated = 1000, conns = []\<rparr>) ks"

definition ex_full :: sr_nat where
  "ex_full = (sr_nat_init 60 7440 300 ex_nat0)\<lparr>bitmap := replicate 2048 (- 1),
     mappings := holders [1024..<65536]\<rparr>"

lemma holders_ids: "set ks \<subseteq> {1024..<65536} \<Longrightarrow> map ext_id (holders ks) = ks"
  by (induction ks) (simp_all add: holders_def ext_id_def unat_of_nat)

lemma holders_keys: "distinct ks \<Longrightarrow> set ks \<subseteq> {1024..<65536} \<Longrightarrow> distinct (map int_key (holders ks))"
proof (induction ks)
  case (Cons k ks)
  have "(of_nat k :: u32) \<noteq> of_nat j" if "j \<in> set ks" for j
  proof
    assume "(of_nat k :: u32) = of_nat j"
    then have "unat (of_nat k :: u32) = unat (of_nat j :: u32)" by simp
    moreover have "j < 65536" "k < 65536" "j \<noteq> k" using that Cons.prems by auto
    ultimately show False by (simp add: unat_of_nat)
  qed
  with Cons show ?case by (auto simp: holders_def int_key_def)
qed (simp add: holders_def)

lemma holders_conns: "concat (map conns (holders ks)) = []" "m \<in> set (holders ks) \<Longrightarrow> conns m = []"
  by (auto simp: holders_def)

lemma ex_full_inv: "nat_inv ex_full" "\<not> nat_room ex_full"
proof -
  define ks where "ks = [1024..<65536::nat]"
  have ks: "distinct ks" "set ks = {1024..<65536}" "length ks = 65536 - 1024"
    by (simp_all only: ks_def distinct_upt set_upt length_upt)
  have full: "mappings ex_full = holders ks" "bitmap ex_full = replicate 2048 (- 1)"
    unfolding ex_full_def ks_def [symmetric] by simp_all
  have "length (bitmap ex_full) = 2048" unfolding full by (rule length_replicate)
  moreover have "used (bitmap ex_full) k" if "k < 65536" for k
    unfolding used_def full using word_index [OF that] by simp
  ultimately have "pool.tracks (bitmap ex_full) ks" using ks by (simp add: pool.tracks_def)
  then show "nat_inv ex_full"
    using ks holders_ids [of ks] holders_keys [of ks] holders_conns(2)
    by (simp add: nat_inv_def full(1) conns_inv_def all_conns_def holders_conns(1) del: concat_eq_Nil_conv)
  show "\<not> nat_room ex_full" using ks(3) by (simp add: nat_room_def full(1) holders_def)
qed

section \<open>Packets that are not translated\<close>

text \<open>A segment to an address without a route, and an echo reply whose IP header has options.\<close>

definition ex_syn_away :: buf where
  "ex_syn_away = [69, 0, 0, 40, 0, 1, 0, 0, 64, 6, 192, 22, 10, 0, 1, 100, 8, 8, 8, 8,
     15, 160, 0, 80, 0, 0, 0, 7, 0, 0, 0, 0, 80, 2, 16, 0, 213, 50, 0, 0]"

definition ex_options :: buf where
  "ex_options = [70, 0, 0, 34, 0, 1, 0, 0, 64, 1, 28, 72, 172, 64, 3, 21, 172, 64, 3, 1, 1, 1, 1, 1,
     0, 0, 147, 149, 4, 0, 0, 1, 104, 105]"

lemma ex_away_facts:
  "tcp_packet ex_syn_away 40 20 20 client1 (le32 8 8 8 8)" "rd16 20 ex_syn_away = Some (htons 4000)"
  "\<not> is_private_ip (ntohl (le32 8 8 8 8))" "sr_rt_lookup ex_rt (le32 8 8 8 8) = Some None"
  by (simp_all add: tcp_packet_def ex_syn_away_def ip_hl_def rd8_def rd16_def rd32_def client1_def server1_def
      ntohl_def htonl_le32 is_private_ip_octets sr_rt_lookup_def ex_rt_def ex_route_def rt_matches_def full_mask,
      simp_all add: le16_def htons_def byte_def)

lemma ex_options_facts:
  "ip_hl ex_options = Some 6" "rd16 ip_len ex_options = Some (le16 0 34)" "unat (ntohs (le16 0 34)) = 34"
  "length ex_options = 34" "rd32 ip_src ex_options = Some server1" "rd16 28 ex_options = Some (htons 1024)"
  by (simp_all add: ex_options_def ip_hl_def rd8_def rd16_def rd32_def server1_def ntohs_def htons_le16,
      simp_all add: le16_def htons_def byte_def)

text \<open>The router seven seconds after it recorded a SYN from the server.\<close>

definition ex_stray :: sr_nat_unsol_pkt where
  "ex_stray = \<lparr>un_ip_packet = ex_stray_syn, un_last_updated = 1000\<rparr>"

text \<open>A router with two packets that are due and one that is not.\<close>

definition ex_fresh :: sr_nat_unsol_pkt where
  "ex_fresh = \<lparr>un_ip_packet = ex_syn_ack, un_last_updated = 1005\<rparr>"

definition ex_old :: sr_nat_unsol_pkt where
  "ex_old = \<lparr>un_ip_packet = ex_syn, un_last_updated = 999\<rparr>"

definition ex_mixed :: sr_instance where
  "ex_mixed = (ex_router True)\<lparr>nat_st := (nat_st (ex_router True))
     \<lparr>unsol_pkt := Some [ex_stray, ex_fresh, ex_old]\<rparr>, clock := 1007\<rparr>"

definition ex_recorded :: sr_instance where
  "ex_recorded = (ex_router True)\<lparr>nat_st := (nat_st (ex_router True))\<lparr>unsol_pkt := Some [ex_stray]\<rparr>, clock := 1007\<rparr>"

lemma ex_recorded_fields [simp]:
  "if_list ex_recorded = ex_ifs" "routing_table ex_recorded = ex_rt" "clock ex_recorded = 1007"
  "sock_ok ex_recorded" "cache ex_recorded = cache (ex_router True)"
  "nat_st ex_recorded = (nat_st (ex_router True))\<lparr>unsol_pkt := Some [ex_stray]\<rparr>"
  "un_ip_packet ex_stray = ex_stray_syn" "un_last_updated ex_stray = 1000"
  "unsol_pkt (nat_st (ex_router on)) = Some []" "unsol_pkt (ex_mapped_nat ty aux) = Some []"
  using ex_fields(5) [of True] ex_first_id
  by (auto simp: ex_recorded_def sock_ok_def ex_stray_def sr_nat_init_def ex_nat0_def ex_mapped_nat_def
      sr_nat_insert_mapping_def find_next_id_def Let_def)

lemma ex_stray_facts: "rd32 ip_src ex_stray_syn = Some server1" "rd16 22 ex_stray_syn = Some (htons 2000)"
  by (simp_all add: ex_packets rd16_def rd32_def server1_def, simp_all add: le16_def htons_def byte_def)

lemma ex_mixed_facts:
  "if_list ex_mixed = ex_ifs" "routing_table ex_mixed = ex_rt" "clock ex_mixed = 1007" "sock_ok ex_mixed"
  "unsol_pkt (nat_st ex_mixed) = Some [ex_stray, ex_fresh, ex_old]" "router_safe ex_mixed"
  "unsol_due ex_mixed ex_stray" "\<not> unsol_due ex_mixed ex_fresh" "unsol_due ex_mixed ex_old"
proof -
  have src: "rd32 ip_src ex_syn = Some client1" by (simp add: ex_packets rd32_def client1_def)
  show f: "if_list ex_mixed = ex_ifs" "routing_table ex_mixed = ex_rt" "clock ex_mixed = 1007" "sock_ok ex_mixed"
    "unsol_pkt (nat_st ex_mixed) = Some [ex_stray, ex_fresh, ex_old]"
    using ex_fields(5) [of True] by (simp_all add: ex_mixed_def sock_ok_def)
  have "nat_safe (nat_st (ex_router True))" using ex_nat_ok by (simp add: nat_ok_iff)
  then have "nat_safe (nat_st ex_mixed)"
    by (simp add: ex_mixed_def nat_safe_def unsol_small_def ex_stray_def ex_fresh_def ex_old_def)
  then show "router_safe ex_mixed"
    using router_inv_safe [OF ex_router_inv [of True]] by (simp add: router_safe_def ex_mixed_def)
  show "unsol_due ex_mixed ex_stray" "\<not> unsol_due ex_mixed ex_fresh" "unsol_due ex_mixed ex_old"
    using ex_stray_facts(1) src by (simp_all add: unsol_due_def f ex_stray_def ex_fresh_def ex_old_def)
qed

lemma ex_timeouts: "icmp_query_to (ex_mapped_nat ty aux) = 60"
  using ex_first_id
  by (auto simp: ex_mapped_nat_def sr_nat_insert_mapping_def find_next_id_def Let_def sr_nat_init_def)

lemma ex_syn_facts: "rd8 ip_ttl ex_syn = Some 64" "take 40 ex_syn = ex_syn" "take 40 ex_stray_syn = ex_stray_syn"
  by (simp_all add: rd8_def ex_packets)

lemma ex_lookup_external: "sr_nat_lookup_external (nat_st (ex_router on)) e ty = None"
  by (simp add: sr_nat_lookup_external_def sr_nat_init_def)

end
