(* ===== verification/SR_Sha1.thy ===== *)
theory SR_Sha1
  imports SR_Prelude
begin

text \<open>
  \<open>sha1.c\<close>: the hash the client answers the server's authentication request with, and the proof that
  it computes the function of the standard (FIPS 180) whatever pieces the message is fed in.

  \<open>Message_Block\<close> is an array of 64 bytes and every store into it is checked (\<open>wr8\<close>); the flags are
  booleans and the index, which only ever counts up from zero, is a natural number.
\<close>

section \<open>The context and its operations\<close>

record SHA1Context =
  Message_Digest :: "u32 list"
  Length_Low :: u32
  Length_High :: u32
  Message_Block :: buf
  Message_Block_Index :: nat
  Computed :: bool
  Corrupted :: bool

definition SHA1CircularShift :: "nat \<Rightarrow> u32 \<Rightarrow> u32" where
  "SHA1CircularShift bits word =
     (push_bit bits word AND 0xFFFFFFFF) OR drop_bit (32 - bits) word"

definition SHA1Reset :: "SHA1Context \<Rightarrow> SHA1Context" where
  "SHA1Reset context = context\<lparr>
     Length_Low := 0, Length_High := 0, Message_Block_Index := 0,
     Message_Digest := [0x67452301, 0xEFCDAB89, 0x98BADCFE, 0x10325476, 0xC3D2E1F0],
     Computed := False, Corrupted := False\<rparr>"

text \<open>The word sequence \<open>W\<close>: sixteen words of the block, then sixty-four computed ones.\<close>

definition block_word :: "buf \<Rightarrow> nat \<Rightarrow> u32" where
  "block_word block t =
     push_bit 24 (ucast (block ! (t * 4))) OR push_bit 16 (ucast (block ! (t * 4 + 1))) OR
     push_bit 8 (ucast (block ! (t * 4 + 2))) OR ucast (block ! (t * 4 + 3))"

fun extend_words :: "nat \<Rightarrow> u32 list \<Rightarrow> u32 list" where
  "extend_words 0 W = W"
| "extend_words (Suc n) W =
     (let t = length W
      in extend_words n
           (W @ [SHA1CircularShift 1 (W ! (t - 3) XOR W ! (t - 8) XOR W ! (t - 14) XOR W ! (t - 16))]))"

type_synonym sha1_words = "u32 \<times> u32 \<times> u32 \<times> u32 \<times> u32"

text \<open>One iteration of a round loop, with the loop's own function of \<open>B\<close>, \<open>C\<close>, \<open>D\<close> and constant.\<close>

fun round_step ::
  "(u32 \<Rightarrow> u32 \<Rightarrow> u32 \<Rightarrow> u32) \<Rightarrow> u32 \<Rightarrow> u32 list \<Rightarrow> nat \<Rightarrow> sha1_words \<Rightarrow> sha1_words" where
  "round_step f k W t (A, B, C, D, E) =
     (let temp = (SHA1CircularShift 5 A + f B C D + E + W ! t + k) AND 0xFFFFFFFF
      in (temp, A, SHA1CircularShift 30 B, C, D))"

definition SHA1ProcessMessageBlock :: "SHA1Context \<Rightarrow> SHA1Context" where
  "SHA1ProcessMessageBlock context =
     (let K = [0x5A827999, 0x6ED9EBA1, 0x8F1BBCDC, 0xCA62C1D6];
          W = extend_words 64 (map (block_word (Message_Block context)) [0..<16]);
          H = Message_Digest context;
          s = (H ! 0, H ! 1, H ! 2, H ! 3, H ! 4);
          s = fold (round_step (\<lambda>B C D. (B AND C) OR (NOT B AND D)) (K ! 0) W) [0..<20] s;
          s = fold (round_step (\<lambda>B C D. B XOR C XOR D) (K ! 1) W) [20..<40] s;
          s = fold (round_step (\<lambda>B C D. (B AND C) OR (B AND D) OR (C AND D)) (K ! 2) W) [40..<60] s;
          (A, B, C, D, E) = fold (round_step (\<lambda>B C D. B XOR C XOR D) (K ! 3) W) [60..<80] s
      in context\<lparr>
           Message_Digest := [(H ! 0 + A) AND 0xFFFFFFFF, (H ! 1 + B) AND 0xFFFFFFFF,
             (H ! 2 + C) AND 0xFFFFFFFF, (H ! 3 + D) AND 0xFFFFFFFF, (H ! 4 + E) AND 0xFFFFFFFF],
           Message_Block_Index := 0\<rparr>)"

text \<open>The statement \<open>Message_Block[Message_Block_Index++] = b\<close>, and the loop that stores zeroes.\<close>

definition put_byte :: "u8 \<Rightarrow> SHA1Context \<Rightarrow> SHA1Context option" where
  "put_byte b context =
     do {
       block \<leftarrow> wr8 (Message_Block_Index context) b (Message_Block context);
       Some (context\<lparr>Message_Block := block, Message_Block_Index := Message_Block_Index context + 1\<rparr>)
     }"

function zero_fill :: "nat \<Rightarrow> SHA1Context \<Rightarrow> SHA1Context option" where
  "zero_fill limit context =
     (if Message_Block_Index context < limit
      then case put_byte 0 context of None \<Rightarrow> None | Some c \<Rightarrow> zero_fill limit c
      else Some context)"
  by pat_completeness auto
termination
  by (relation "measure (\<lambda>(limit, c). limit - Message_Block_Index c)")
    (auto simp: put_byte_def Option.bind_eq_Some_conv)

declare zero_fill.simps [simp del]

text \<open>The body of the loop over the message, and the loop.\<close>

definition input_byte :: "u8 \<Rightarrow> SHA1Context \<Rightarrow> SHA1Context option" where
  "input_byte b context =
     do {
       c \<leftarrow> put_byte (b AND 0xFF) context;
       let c = c\<lparr>Length_Low := (Length_Low c + 8) AND 0xFFFFFFFF\<rparr>;
       let c = (if Length_Low c = 0 then
                  let c = c\<lparr>Length_High := (Length_High c + 1) AND 0xFFFFFFFF\<rparr>
                  in if Length_High c = 0 then c\<lparr>Corrupted := True\<rparr> else c
                else c);
       Some (if Message_Block_Index c = 64 then SHA1ProcessMessageBlock c else c)
     }"

fun input_loop :: "nat \<Rightarrow> buf \<Rightarrow> SHA1Context \<Rightarrow> SHA1Context option" where
  "input_loop 0 message_array context = Some context"
| "input_loop (Suc len) message_array context =
     (if Corrupted context then Some context
      else do {
        b \<leftarrow> rd8 0 message_array;
        context \<leftarrow> input_byte b context;
        input_loop len (drop 1 message_array) context
      })"

definition SHA1Input :: "SHA1Context \<Rightarrow> buf \<Rightarrow> u32 \<Rightarrow> SHA1Context option" where
  "SHA1Input context message_array len =
     (if len = 0 then Some context
      else if Computed context \<or> Corrupted context then Some (context\<lparr>Corrupted := True\<rparr>)
      else input_loop (unat len) message_array context)"

definition SHA1PadMessage :: "SHA1Context \<Rightarrow> SHA1Context option" where
  "SHA1PadMessage context =
     do {
       c \<leftarrow> (if 55 < Message_Block_Index context then do {
               c \<leftarrow> put_byte 0x80 context;
               c \<leftarrow> zero_fill 64 c;
               zero_fill 56 (SHA1ProcessMessageBlock c)
             } else do {
               c \<leftarrow> put_byte 0x80 context;
               zero_fill 56 c
             });
       let hi = Length_High c;
       let lo = Length_Low c;
       block \<leftarrow> wr8 56 (ucast (drop_bit 24 hi AND 0xFF)) (Message_Block c);
       block \<leftarrow> wr8 57 (ucast (drop_bit 16 hi AND 0xFF)) block;
       block \<leftarrow> wr8 58 (ucast (drop_bit 8 hi AND 0xFF)) block;
       block \<leftarrow> wr8 59 (ucast (hi AND 0xFF)) block;
       block \<leftarrow> wr8 60 (ucast (drop_bit 24 lo AND 0xFF)) block;
       block \<leftarrow> wr8 61 (ucast (drop_bit 16 lo AND 0xFF)) block;
       block \<leftarrow> wr8 62 (ucast (drop_bit 8 lo AND 0xFF)) block;
       block \<leftarrow> wr8 63 (ucast (lo AND 0xFF)) block;
       Some (SHA1ProcessMessageBlock (c\<lparr>Message_Block := block\<rparr>))
     }"

definition SHA1Result :: "SHA1Context \<Rightarrow> (bool \<times> SHA1Context) option" where
  "SHA1Result context =
     (if Corrupted context then Some (False, context)
      else if Computed context then Some (True, context)
      else do {
        c \<leftarrow> SHA1PadMessage context;
        Some (True, c\<lparr>Computed := True\<rparr>)
      })"

section \<open>The function of the standard\<close>

text \<open>
  FIPS 180 describes SHA-1 as a function of the whole message: pad it to a multiple of 64 bytes, and
  fold the compression function over its blocks.
\<close>

definition be32 :: "buf \<Rightarrow> nat \<Rightarrow> u32" where
  "be32 M i = le32 (M ! (i + 3)) (M ! (i + 2)) (M ! (i + 1)) (M ! i)"

function schedule :: "buf \<Rightarrow> nat \<Rightarrow> u32" where
  "schedule M t =
     (if t < 16 then be32 M (4 * t)
      else word_rotl 1 (schedule M (t - 3) XOR schedule M (t - 8) XOR
                        schedule M (t - 14) XOR schedule M (t - 16)))"
  by pat_completeness auto
termination
  by (relation "measure snd") auto

declare schedule.simps [simp del]

definition sha_f :: "nat \<Rightarrow> u32 \<Rightarrow> u32 \<Rightarrow> u32 \<Rightarrow> u32" where
  "sha_f t x y z =
     (if t < 20 then (x AND y) XOR (NOT x AND z)
      else if 40 \<le> t \<and> t < 60 then (x AND y) XOR (x AND z) XOR (y AND z)
      else x XOR y XOR z)"

definition sha_k :: "nat \<Rightarrow> u32" where
  "sha_k t =
     (if t < 20 then 0x5a827999 else if t < 40 then 0x6ed9eba1 else if t < 60 then 0x8f1bbcdc
      else 0xca62c1d6)"

fun sha_round :: "buf \<Rightarrow> nat \<Rightarrow> sha1_words \<Rightarrow> sha1_words" where
  "sha_round M t (a, b, c, d, e) =
     (word_rotl 5 a + sha_f t b c d + e + sha_k t + schedule M t, a, word_rotl 30 b, c, d)"

fun add5 :: "sha1_words \<Rightarrow> sha1_words \<Rightarrow> sha1_words" where
  "add5 (a, b, c, d, e) (a', b', c', d', e') = (a + a', b + b', c + c', d + d', e + e')"

definition compress :: "sha1_words \<Rightarrow> buf \<Rightarrow> sha1_words" where
  "compress H M = add5 H (fold (sha_round M) [0..<80] H)"

function sha_blocks :: "sha1_words \<Rightarrow> buf \<Rightarrow> sha1_words" where
  "sha_blocks H xs = (if length xs < 64 then H else sha_blocks (compress H (take 64 xs)) (drop 64 xs))"
  by pat_completeness auto
termination
  by (relation "measure (\<lambda>(H, xs). length xs)") auto

declare sha_blocks.simps [simp del]

definition be64 :: "nat \<Rightarrow> buf" where
  "be64 n = map (\<lambda>i. of_nat (n div 256 ^ (7 - i))) [0..<8]"

definition sha_pad :: "buf \<Rightarrow> buf" where
  "sha_pad xs = xs @ [0x80] @ replicate ((119 - length xs mod 64) mod 64) 0 @ be64 (8 * length xs)"

definition sha_init :: sha1_words where
  "sha_init = (0x67452301, 0xefcdab89, 0x98badcfe, 0x10325476, 0xc3d2e1f0)"

definition sha1 :: "buf \<Rightarrow> sha1_words" where
  "sha1 xs = sha_blocks sha_init (sha_pad xs)"

section \<open>One block\<close>

lemma and_u32_full [simp]: "(w :: u32) AND 0xFFFFFFFF = w"
proof -
  have "(0xFFFFFFFF :: u32) = - 1" by simp
  then show ?thesis by (simp only: and.right_neutral)
qed

lemma and_u8_full [simp]: "(w :: u8) AND 0xFF = w"
proof -
  have "(0xFF :: u8) = - 1" by simp
  then show ?thesis by (simp only: and.right_neutral)
qed

lemma shift_rotl:
  assumes "0 < n" "n < 32"
  shows "SHA1CircularShift n w = word_rotl n w"
proof (rule bit_word_eqI)
  fix m assume "m < LENGTH(32)"
  then have m: "m < 32" by simp
  have l: "bit (SHA1CircularShift n w) m \<longleftrightarrow> n \<le> m \<and> bit w (m - n) \<or> bit w (32 - n + m)"
    using m assms by (auto simp: SHA1CircularShift_def bit_simps)
  have r: "bit (word_rotl n w) m \<longleftrightarrow> bit w ((m + (32 - n)) mod 32)"
    using m assms by (simp add: bit_word_rotl_iff)
  show "bit (SHA1CircularShift n w) m \<longleftrightarrow> bit (word_rotl n w) m"
  proof (cases "n \<le> m")
    case True
    have "\<not> bit w (32 - n + m)" using True assms by (auto dest: bit_imp_le_length)
    moreover have "m + (32 - n) = m - n + 32" using True assms by simp
    then have "(m + (32 - n)) mod 32 = m - n" using m by (simp only: mod_add_self2 mod_less)
    ultimately show ?thesis using True by (simp add: l r)
  next
    case False
    then have "(m + (32 - n)) mod 32 = 32 - n + m" using assms by simp
    then show ?thesis using False by (simp only: l r) simp
  qed
qed

lemma choose_or: "(x AND y) OR (NOT x AND z) = (x AND y) XOR (NOT x AND (z :: u32))"
  by (rule bit_word_eqI) (auto simp: bit_simps)

lemma majority_or: "(x AND y) OR (x AND z) OR (y AND z) = (x AND y) XOR (x AND z) XOR (y AND (z :: u32))"
  by (rule bit_word_eqI) (auto simp: bit_simps)

lemma block_word_be32: "block_word M t = be32 M (4 * t)"
  by (simp add: block_word_def be32_def le32_def ac_simps)

lemma extend_words_schedule:
  assumes "16 \<le> length W" "\<forall>t < length W. W ! t = schedule M t"
  shows "\<forall>t < length W + n. extend_words n W ! t = schedule M t"
  using assms
proof (induction n arbitrary: W)
  case (Suc n)
  define w where "w = SHA1CircularShift 1 (W ! (length W - 3) XOR W ! (length W - 8) XOR
    W ! (length W - 14) XOR W ! (length W - 16))"
  have "w = schedule M (length W)"
    using Suc.prems unfolding w_def by (subst schedule.simps) (simp add: shift_rotl)
  then have "\<forall>t < length (W @ [w]). (W @ [w]) ! t = schedule M t"
    using Suc.prems by (auto simp: nth_append less_Suc_eq)
  then have "\<forall>t < length (W @ [w]) + n. extend_words n (W @ [w]) ! t = schedule M t"
    using Suc.prems(1) by (intro Suc.IH) auto
  then show ?case by (simp add: Let_def w_def)
qed simp

lemma words_schedule:
  "t < 80 \<Longrightarrow> extend_words 64 (map (block_word M) [0..<16]) ! t = schedule M t"
  using extend_words_schedule [of "map (block_word M) [0..<16]" M 64]
  by (simp add: block_word_be32 schedule.simps del: upt_conv_Cons upt_rec_numeral)

lemma round_step_sha:
  assumes "W ! t = schedule M t" "k = sha_k t" "\<And>x y z. f x y z = sha_f t x y z"
  shows "round_step f k W t = sha_round M t"
proof (rule ext)
  fix s show "round_step f k W t s = sha_round M t s"
    by (cases s) (simp add: Let_def assms shift_rotl ac_simps)
qed

lemma fold_rounds:
  assumes "\<And>t. i \<le> t \<Longrightarrow> t < j \<Longrightarrow> W ! t = schedule M t \<and> k = sha_k t \<and> (\<forall>x y z. f x y z = sha_f t x y z)"
  shows "fold (round_step f k W) [i..<j] s = fold (sha_round M) [i..<j] s"
  by (rule fold_cong) (use assms in \<open>auto intro!: round_step_sha\<close>)

definition digest_words :: "u32 list \<Rightarrow> sha1_words" where
  "digest_words H = (H ! 0, H ! 1, H ! 2, H ! 3, H ! 4)"

lemma eighty_rounds: "[0..<80] = [0..<20] @ [20..<40] @ [40..<60] @ [60..<80]"
proof -
  have "[0..<20] @ [20..<40] = [0..<40]" "[0..<40] @ [40..<60] = [0..<60]" "[0..<60] @ [60..<80] = [0..<80]"
    using upt_add_eq_append [of 0 20 20] upt_add_eq_append [of 0 40 20] upt_add_eq_append [of 0 60 20]
    by (simp_all del: upt_conv_Cons upt_rec_numeral)
  then show ?thesis by (metis append_assoc)
qed

text \<open>Processing the block is the compression function of the standard.\<close>

lemma process_compress:
  "\<exists>d. SHA1ProcessMessageBlock c = c\<lparr>Message_Digest := d, Message_Block_Index := 0\<rparr> \<and>
     length d = 5 \<and> digest_words d = compress (digest_words (Message_Digest c)) (Message_Block c)"
proof -
  define W where "W = extend_words 64 (map (block_word (Message_Block c)) [0..<16])"
  define M where "M = Message_Block c"
  define H where "H = Message_Digest c"
  have W: "t < 80 \<Longrightarrow> W ! t = schedule M t" for t by (simp add: W_def M_def words_schedule)
  have r1: "fold (round_step (\<lambda>B C D. (B AND C) OR (NOT B AND D)) 0x5A827999 W) [0..<20] s =
      fold (sha_round M) [0..<20] s" for s
    by (rule fold_rounds) (simp add: W sha_k_def sha_f_def choose_or)
  have r2: "fold (round_step (\<lambda>B C D. B XOR C XOR D) 0x6ED9EBA1 W) [20..<40] s =
      fold (sha_round M) [20..<40] s" for s
    by (rule fold_rounds) (simp add: W sha_k_def sha_f_def)
  have r3: "fold (round_step (\<lambda>B C D. (B AND C) OR (B AND D) OR (C AND D)) 0x8F1BBCDC W) [40..<60] s =
      fold (sha_round M) [40..<60] s" for s
    by (rule fold_rounds) (simp add: W sha_k_def sha_f_def majority_or)
  have r4: "fold (round_step (\<lambda>B C D. B XOR C XOR D) 0xCA62C1D6 W) [60..<80] s =
      fold (sha_round M) [60..<80] s" for s
    by (rule fold_rounds) (simp add: W sha_k_def sha_f_def)
  obtain a b c' d e where f: "fold (sha_round M) [0..<80] (digest_words H) = (a, b, c', d, e)"
    by (metis prod_cases5)
  have "fold (sha_round M) [60..<80] (fold (sha_round M) [40..<60] (fold (sha_round M) [20..<40]
      (fold (sha_round M) [0..<20] (H ! 0, H ! 1, H ! 2, H ! 3, H ! 4)))) = (a, b, c', d, e)"
    using f unfolding eighty_rounds digest_words_def fold_append comp_apply .
  then have "SHA1ProcessMessageBlock c = c\<lparr>Message_Digest := [H ! 0 + a, H ! 1 + b, H ! 2 + c', H ! 3 + d,
      H ! 4 + e], Message_Block_Index := 0\<rparr>"
    unfolding SHA1ProcessMessageBlock_def
    by (simp add: Let_def W_def [symmetric] H_def [symmetric] r1 r2 r3 r4 numeral_2_eq_2 [symmetric]
        numeral_3_eq_3 [symmetric] del: upt_conv_Cons upt_rec_numeral fold_simps)
  then show ?thesis
    by (intro exI conjI, assumption)
      (simp_all add: compress_def H_def [symmetric] M_def [symmetric] f, simp add: digest_words_def)
qed

section \<open>Feeding the message\<close>

lemma sha_blocks_append:
  "64 dvd length xs \<Longrightarrow> sha_blocks H (xs @ ys) = sha_blocks (sha_blocks H xs) ys"
proof (induction H xs rule: sha_blocks.induct)
  case (1 H xs)
  show ?case
  proof (cases "xs = []")
    case True
    then show ?thesis by (simp add: sha_blocks.simps [of H "[]"])
  next
    case False
    then have l: "64 \<le> length xs" using 1(2) dvd_imp_le by auto
    then have "64 dvd length (drop 64 xs)" using 1(2) by (simp add: dvd_minus_self)
    then show ?thesis
      using 1(1) l by (subst (1 2) sha_blocks.simps) (simp add: not_less)
  qed
qed

lemma sha_blocks_one: "length b = 64 \<Longrightarrow> sha_blocks H b = compress H b"
  by (subst sha_blocks.simps) (simp add: sha_blocks.simps [of _ "[]"])

text \<open>
  What a context holds: the blocks of the message so far that are processed, and the bytes after them.
\<close>

definition fed :: "SHA1Context \<Rightarrow> buf \<Rightarrow> buf \<Rightarrow> bool" where
  "fed c full tail \<longleftrightarrow>
     length (Message_Block c) = 64 \<and> length (Message_Digest c) = 5 \<and> 64 dvd length full \<and>
     length tail < 64 \<and> Message_Block_Index c = length tail \<and>
     take (length tail) (Message_Block c) = tail \<and>
     digest_words (Message_Digest c) = sha_blocks sha_init full \<and>
     unat (Length_Low c) + 2 ^ 32 * unat (Length_High c) = 8 * (length full + length tail) \<and>
     \<not> Computed c \<and> \<not> Corrupted c"

lemma fed_reset: "length (Message_Block c) = 64 \<Longrightarrow> fed (SHA1Reset c) [] []"
  by (simp add: fed_def SHA1Reset_def digest_words_def sha_init_def sha_blocks.simps)

lemma take_store:
  assumes "i < length b" "take i b = t"
  shows "take (Suc i) (b[i := v]) = t @ [v]"
  using assms by (simp add: take_Suc_conv_app_nth)

lemma process_fed:
  assumes "length (Message_Block c) = 64" "64 dvd length full" "\<not> Computed c" "\<not> Corrupted c"
    and "digest_words (Message_Digest c) = sha_blocks sha_init full"
    and "unat (Length_Low c) + 2 ^ 32 * unat (Length_High c) = 8 * (length full + 64)"
  shows "fed (SHA1ProcessMessageBlock c) (full @ Message_Block c) []"
proof -
  obtain d where "SHA1ProcessMessageBlock c = c\<lparr>Message_Digest := d, Message_Block_Index := 0\<rparr>"
    "length d = 5" "digest_words d = compress (digest_words (Message_Digest c)) (Message_Block c)"
    using process_compress by blast
  then show ?thesis
    using assms by (simp add: fed_def sha_blocks_append sha_blocks_one)
qed

text \<open>The two length words count the bits of the message as one 64-bit number.\<close>

lemma count_bits:
  fixes lo hi :: u32
  assumes "unat lo + 2 ^ 32 * unat hi = 8 * n" "n + 1 < 2 ^ 61"
  shows "if lo + 8 = 0 then hi + 1 \<noteq> 0 \<and> 2 ^ 32 * unat (hi + 1) = 8 * (n + 1)
    else unat (lo + 8) + 2 ^ 32 * unat hi = 8 * (n + 1)"
proof -
  have lo: "unat lo < 2 ^ 32" using unsigned_less [of lo] by simp
  have "8 dvd unat lo + 2 ^ 32 * unat hi" using assms(1) by simp
  then obtain k where "unat lo = 8 * k" by (auto simp: dvd_add_left_iff dvd_mult2 elim: dvdE)
  then have le: "unat lo + 8 \<le> 2 ^ 32" using lo by simp
  have sum8: "unat (lo + 8) = (unat lo + 8) mod 2 ^ 32" by (simp add: unat_word_ariths)
  show ?thesis
  proof (cases "unat lo + 8 = 2 ^ 32")
    case True
    then have z: "lo + 8 = 0" using sum8 by (simp add: unat_eq_zero [symmetric])
    have h: "2 ^ 32 * (unat hi + 1) = 8 * (n + 1)" using True assms(1) by simp
    then have "unat hi + 1 < 2 ^ 32" using assms(2) by simp
    then have u: "unat (hi + 1) = unat hi + 1" by (simp add: unat_word_ariths)
    then have "hi + 1 \<noteq> 0" by (metis Suc_eq_plus1 nat.distinct(1) unat_0)
    then show ?thesis using z u h by simp
  next
    case False
    then have u: "unat (lo + 8) = unat lo + 8" using sum8 le by simp
    then have "lo + 8 \<noteq> 0" by (metis add_is_0 unat_0 zero_neq_numeral)
    then show ?thesis using u assms(1) by simp
  qed
qed

lemma input_byte_fed:
  assumes "fed c full tail" "length full + length tail + 1 < 2 ^ 61"
  shows "\<exists>c' full' tail'. input_byte b c = Some c' \<and> fed c' full' tail' \<and> full' @ tail' = full @ tail @ [b]"
proof -
  define blk where "blk = (Message_Block c)[length tail := b]"
  define c1 where "c1 = c\<lparr>Message_Block := blk, Message_Block_Index := length tail + 1,
    Length_Low := Length_Low c + 8\<rparr>"
  define c2 where "c2 = (if Length_Low c1 = 0 then c1\<lparr>Length_High := Length_High c + 1\<rparr> else c1)"
  have lt: "length tail < 64" and lb: "length blk = 64" using assms(1) by (auto simp: fed_def blk_def)
  have t: "take (length tail + 1) blk = tail @ [b]"
    using assms(1) by (auto simp: fed_def blk_def intro: take_store)
  have bits: "unat (Length_Low c2) + 2 ^ 32 * unat (Length_High c2) = 8 * (length full + length tail + 1)"
    and hi: "Length_Low c1 = 0 \<Longrightarrow> Length_High c + 1 \<noteq> 0"
    using count_bits [of "Length_Low c" "Length_High c" "length full + length tail"] assms
    by (auto simp: fed_def c1_def c2_def split: if_splits)
  have "input_byte b c = Some (if length tail + 1 = 64 then SHA1ProcessMessageBlock c2 else c2)"
    using assms(1) hi lt
    by (simp add: input_byte_def put_byte_def fed_def mem Let_def c1_def c2_def blk_def)
  moreover have "\<exists>full' tail'. fed (if length tail + 1 = 64 then SHA1ProcessMessageBlock c2 else c2) full' tail' \<and>
      full' @ tail' = full @ tail @ [b]"
  proof (cases "length tail + 1 = 64")
    case True
    then have "blk = tail @ [b]" using t lb by simp
    then have "fed (SHA1ProcessMessageBlock c2) (full @ tail @ [b]) []"
      using process_fed [of c2 full] assms(1) bits True lb by (auto simp: fed_def c1_def c2_def)
    then show ?thesis using True by fastforce
  next
    case False
    then have "fed c2 full (tail @ [b])"
      using assms(1) bits t lb lt by (auto simp: fed_def c1_def c2_def)
    then show ?thesis using False by auto
  qed
  ultimately show ?thesis by blast
qed

lemma input_loop_fed:
  assumes "fed c full tail" "length full + length tail + length ys < 2 ^ 61"
  shows "\<exists>c' full' tail'. input_loop (length ys) (ys @ rest) c = Some c' \<and> fed c' full' tail' \<and>
    full' @ tail' = full @ tail @ ys"
  using assms
proof (induction ys arbitrary: c full tail)
  case Nil
  then show ?case by auto
next
  case (Cons b ys)
  obtain c' full' tail' where s: "input_byte b c = Some c'" "fed c' full' tail'"
    "full' @ tail' = full @ tail @ [b]"
    using input_byte_fed [OF Cons.prems(1), of b] Cons.prems(2) by auto
  have "length full' + length tail' = length full + length tail + 1"
    using arg_cong [OF s(3), of length] by simp
  then obtain c'' full'' tail'' where "input_loop (length ys) (ys @ rest) c' = Some c''"
    "fed c'' full'' tail''" "full'' @ tail'' = full' @ tail' @ ys"
    using Cons.IH [OF s(2)] Cons.prems(2) by auto
  moreover have "\<not> Corrupted c" using Cons.prems(1) by (simp add: fed_def)
  ultimately show ?case using s by (auto simp: mem) (metis append.assoc append_Cons append_Nil)
qed

lemma SHA1Input_fed:
  assumes "fed c full tail" "length full + length tail + unat len < 2 ^ 61" "unat len \<le> length m"
  shows "\<exists>c' full' tail'. SHA1Input c m len = Some c' \<and> fed c' full' tail' \<and>
    full' @ tail' = full @ tail @ take (unat len) m"
proof (cases "len = 0")
  case True
  then show ?thesis using assms(1) by (auto simp: SHA1Input_def)
next
  case False
  moreover have "\<not> Computed c" "\<not> Corrupted c" using assms(1) by (auto simp: fed_def)
  ultimately show ?thesis
    using input_loop_fed [OF assms(1), of "take (unat len) m" "drop (unat len) m"] assms(2,3)
    by (simp add: SHA1Input_def)
qed

section \<open>Padding\<close>

lemma zero_fill_eq:
  assumes "Message_Block_Index c \<le> limit" "limit \<le> length (Message_Block c)"
  shows "zero_fill limit c = Some (c\<lparr>Message_Block :=
      take (Message_Block_Index c) (Message_Block c) @ replicate (limit - Message_Block_Index c) 0 @
      drop limit (Message_Block c), Message_Block_Index := limit\<rparr>)"
  using assms
proof (induction limit c rule: zero_fill.induct)
  case (1 limit c)
  show ?case
  proof (cases "Message_Block_Index c < limit")
    case False
    then have "Message_Block_Index c = limit" using 1(2) by simp
    then show ?thesis by (subst zero_fill.simps) simp
  next
    case True
    define i where "i = Message_Block_Index c"
    define c' where "c' = c\<lparr>Message_Block := (Message_Block c)[i := 0], Message_Block_Index := i + 1\<rparr>"
    have p: "put_byte 0 c = Some c'" using True 1(3) by (simp add: put_byte_def mem c'_def i_def)
    have "zero_fill limit c = zero_fill limit c'" using True by (subst zero_fill.simps) (simp add: p)
    then have z: "zero_fill limit c = Some (c'\<lparr>Message_Block := take (i + 1) ((Message_Block c)[i := 0]) @
        replicate (limit - (i + 1)) 0 @ drop limit (Message_Block c), Message_Block_Index := limit\<rparr>)"
      using 1(1) [OF True p] True 1(3) by (simp add: c'_def i_def)
    have "replicate (limit - i) (0 :: u8) = 0 # replicate (limit - (i + 1)) 0"
      using True by (simp add: i_def flip: replicate_Suc)
    moreover have "take (i + 1) ((Message_Block c)[i := 0]) = take i (Message_Block c) @ [0]"
      using take_store [OF _ refl, of i "Message_Block c" 0] True 1(3) by (simp add: i_def)
    ultimately show ?thesis using z by (simp add: c'_def i_def)
  qed
qed

lemma ucast_and_ff: "(ucast ((w :: u32) AND 0xFF) :: u8) = ucast w"
proof (rule bit_word_eqI)
  fix n assume "n < LENGTH(8)"
  moreover have "(mask 8 :: u32) = 0xFF" by (simp add: mask_eq_exp_minus_1)
  then have "bit (0xFF :: u32) n \<longleftrightarrow> possible_bit TYPE(u32) n \<and> n < 8"
    using bit_mask_iff [where m = 8 and n = n and ?'a = u32] by (simp only:)
  ultimately show "bit (ucast (w AND 0xFF) :: u8) n \<longleftrightarrow> bit (ucast w :: u8) n"
    by (auto simp: bit_ucast_iff bit_and_iff)
qed

lemma ucast_drop_bit: "(ucast (drop_bit k (w :: u32)) :: u8) = of_nat (unat w div 2 ^ k)"
  by (metis of_nat_unat unat_drop_bit_eq drop_bit_eq_div)

lemma high_byte:
  fixes lo hi :: u32
  assumes "N = unat lo + 2 ^ 32 * unat hi"
  shows "(ucast (drop_bit k hi) :: u8) = of_nat (N div 2 ^ (32 + k))"
proof -
  have "unat lo < 2 ^ 32" using unsigned_less [of lo, where ?'a = nat] by simp
  then have "N div 2 ^ 32 = unat hi" using assms by simp
  then have "N div 2 ^ (32 + k) = unat hi div 2 ^ k" by (simp add: power_add div_mult2_eq)
  then show ?thesis by (simp add: ucast_drop_bit)
qed

lemma low_byte:
  fixes lo hi :: u32
  assumes "N = unat lo + 2 ^ 32 * unat hi" "k \<le> 24"
  shows "(ucast (drop_bit k lo) :: u8) = of_nat (N div 2 ^ k)"
proof -
  have "(2 :: nat) ^ 32 = 2 ^ k * (2 ^ 8 * 2 ^ (24 - k))"
    using assms(2) by (simp only: power_add [symmetric]) simp
  then have "N = unat lo + 2 ^ k * (2 ^ 8 * (2 ^ (24 - k) * unat hi))"
    using assms(1) by (simp only: mult.assoc)
  then have "N div 2 ^ k = unat lo div 2 ^ k + 2 ^ 8 * (2 ^ (24 - k) * unat hi)" by simp
  moreover have "(of_nat (2 ^ 8 * (2 ^ (24 - k) * unat hi)) :: u8) = 0"
    by (simp only: word_of_nat_eq_0_iff) simp
  ultimately have "(of_nat (N div 2 ^ k) :: u8) = of_nat (unat lo div 2 ^ k)"
    by (simp only: of_nat_add add_0_right)
  then show ?thesis by (simp add: ucast_drop_bit)
qed

lemma be64_words:
  fixes lo hi :: u32
  assumes "N = unat lo + 2 ^ 32 * unat hi"
  shows "be64 N = [ucast (drop_bit 24 hi AND 0xFF), ucast (drop_bit 16 hi AND 0xFF),
    ucast (drop_bit 8 hi AND 0xFF), ucast (hi AND 0xFF), ucast (drop_bit 24 lo AND 0xFF),
    ucast (drop_bit 16 lo AND 0xFF), ucast (drop_bit 8 lo AND 0xFF), ucast (lo AND 0xFF)]"
proof -
  have e: "be64 N = map (\<lambda>k. of_nat (N div 2 ^ k)) [32 + 24, 32 + 16, 32 + 8, 32 + 0, 24, 16, 8, 0]"
    by (simp add: be64_def upt_rec)
  show ?thesis
    using high_byte [OF assms, of 0] low_byte [OF assms, of 0]
    unfolding e list.map ucast_and_ff high_byte [OF assms, symmetric]
    by (simp add: low_byte [OF assms])
qed

lemma be64_length [simp]: "length (be64 n) = 8"
  by (simp add: be64_def)

lemma store_length:
  assumes "length b = 64"
  shows "b[56 := a0, 57 := a1, 58 := a2, 59 := a3, 60 := a4, 61 := a5, 62 := a6, 63 := a7] =
    take 56 b @ [a0, a1, a2, a3, a4, a5, a6, a7]"
proof -
  obtain xs ys where b: "b = xs @ ys" "length xs = 56" "length ys = 8"
    using assms that [of "take 56 b" "drop 56 b"] by simp
  then obtain x0 x1 x2 x3 x4 x5 x6 x7 where "ys = [x0, x1, x2, x3, x4, x5, x6, x7]"
    by (auto simp: length_Suc_conv numeral_eq_Suc)
  then show ?thesis using b(2) by (simp add: b(1) list_update_append)
qed

text \<open>The last block: its first 56 bytes are in place, the length fills the rest.\<close>

lemma finish_block:
  fixes lo hi :: u32
  assumes "length b = 64" "N = unat lo + 2 ^ 32 * unat hi"
  shows "b[56 := ucast (drop_bit 24 hi AND 0xFF), 57 := ucast (drop_bit 16 hi AND 0xFF),
      58 := ucast (drop_bit 8 hi AND 0xFF), 59 := ucast (hi AND 0xFF),
      60 := ucast (drop_bit 24 lo AND 0xFF), 61 := ucast (drop_bit 16 lo AND 0xFF),
      62 := ucast (drop_bit 8 lo AND 0xFF), 63 := ucast (lo AND 0xFF)] = take 56 b @ be64 N"
  by (simp only: store_length [OF assms(1)] be64_words [OF assms(2)])

lemma pad_split:
  assumes "64 dvd length full" "length tail < 64"
  shows "sha_pad (full @ tail) = full @ tail @ [0x80] @
    replicate (if 55 < length tail then 119 - length tail else 55 - length tail) 0 @
    be64 (8 * (length full + length tail))"
proof -
  have "length (full @ tail) mod 64 = length tail" using assms by (auto elim: dvdE)
  moreover have "(119 - length tail) mod 64 =
      (if 55 < length tail then 119 - length tail else 55 - length tail)"
    using assms(2) by (auto simp: mod_if)
  ultimately show ?thesis by (simp add: sha_pad_def)
qed

lemma process_digest:
  assumes "digest_words (Message_Digest c) = sha_blocks sha_init full" "64 dvd length full"
    and "length (Message_Block c) = 64"
  shows "\<exists>d. SHA1ProcessMessageBlock c = c\<lparr>Message_Digest := d, Message_Block_Index := 0\<rparr> \<and>
    length d = 5 \<and> digest_words d = sha_blocks sha_init (full @ Message_Block c)"
  using process_compress [of c] assms by (simp add: sha_blocks_append sha_blocks_one)

text \<open>\<open>0x80\<close> and zeroes up to \<open>limit\<close>.\<close>

lemma mark_and_fill:
  assumes "fed c full tail" "length tail < limit" "limit \<le> 64"
  shows "\<exists>c1 c2. put_byte 0x80 c = Some c1 \<and> zero_fill limit c1 = Some c2 \<and>
    c2 = c\<lparr>Message_Block := Message_Block c2, Message_Block_Index := limit\<rparr> \<and>
    length (Message_Block c2) = 64 \<and>
    take limit (Message_Block c2) = tail @ [0x80] @ replicate (limit - 1 - length tail) 0"
proof -
  define b where "b = (Message_Block c)[length tail := 0x80]"
  define c1 where "c1 = c\<lparr>Message_Block := b, Message_Block_Index := length tail + 1\<rparr>"
  have lb: "length b = 64" and tb: "take (length tail + 1) b = tail @ [0x80]"
    using assms by (auto simp: fed_def b_def intro: take_store)
  have p: "put_byte 0x80 c = Some c1"
    using assms by (simp add: put_byte_def mem fed_def c1_def b_def)
  define c2 where "c2 = c1\<lparr>Message_Block := tail @ [0x80] @
    replicate (limit - 1 - length tail) 0 @ drop limit b, Message_Block_Index := limit\<rparr>"
  have z: "zero_fill limit c1 = Some c2"
    using zero_fill_eq [of c1 limit] assms(2,3) tb by (simp add: c1_def c2_def lb)
  have "c2 = c\<lparr>Message_Block := Message_Block c2, Message_Block_Index := limit\<rparr>"
    by (simp add: c2_def c1_def)
  moreover have "length (Message_Block c2) = 64"
    "take limit (Message_Block c2) = tail @ [0x80] @ replicate (limit - 1 - length tail) 0"
    using assms(2,3) lb by (auto simp: c2_def take_Cons split: nat.split)
  ultimately show ?thesis using p z by blast
qed

lemma SHA1PadMessage_digest:
  assumes "fed c full tail"
  shows "\<exists>c'. SHA1PadMessage c = Some c' \<and> \<not> Corrupted c' \<and> length (Message_Digest c') = 5 \<and>
    digest_words (Message_Digest c') = sha1 (full @ tail)"
proof -
  define N where "N = 8 * (length full + length tail)"
  have N: "N = unat (Length_Low c) + 2 ^ 32 * unat (Length_High c)"
    and dv: "64 dvd length full" and lt: "length tail < 64" and nc: "\<not> Corrupted c"
    and dg: "digest_words (Message_Digest c) = sha_blocks sha_init full"
    and ix: "Message_Block_Index c = length tail"
    using assms by (simp_all add: fed_def N_def)
  have end_block: "\<exists>d. SHA1ProcessMessageBlock (c2\<lparr>Message_Block := take 56 b @ be64 N\<rparr>) =
      c2\<lparr>Message_Block := take 56 b @ be64 N, Message_Digest := d, Message_Block_Index := 0\<rparr> \<and>
      length d = 5 \<and> digest_words d = sha_blocks sha_init (done @ take 56 b @ be64 N)"
    if "digest_words (Message_Digest c2) = sha_blocks sha_init done" "64 dvd length done" "length b = 64"
    for c2 :: SHA1Context and b "done"
    using process_digest [of "c2\<lparr>Message_Block := take 56 b @ be64 N\<rparr>" "done"] that by simp
  show ?thesis
  proof (cases "55 < length tail")
    case False
    obtain c1 c2 where f: "put_byte 0x80 c = Some c1" "zero_fill 56 c1 = Some c2"
      "c2 = c\<lparr>Message_Block := Message_Block c2, Message_Block_Index := 56\<rparr>" "length (Message_Block c2) = 64"
      "take 56 (Message_Block c2) = tail @ [0x80] @ replicate (56 - 1 - length tail) 0"
      using mark_and_fill [OF assms, of 56] False by auto
    have same: "Length_Low c2 = Length_Low c" "Length_High c2 = Length_High c" "\<not> Corrupted c2"
      "digest_words (Message_Digest c2) = sha_blocks sha_init full"
      using nc dg by (subst f(3), simp)+
    obtain d where d: "SHA1ProcessMessageBlock (c2\<lparr>Message_Block := take 56 (Message_Block c2) @ be64 N\<rparr>) =
        c2\<lparr>Message_Block := take 56 (Message_Block c2) @ be64 N, Message_Digest := d, Message_Block_Index := 0\<rparr>"
      "length d = 5"
      "digest_words d = sha_blocks sha_init (full @ take 56 (Message_Block c2) @ be64 N)"
      using end_block [OF same(4) dv f(4)] by blast
    have "SHA1PadMessage c = Some (SHA1ProcessMessageBlock
        (c2\<lparr>Message_Block := take 56 (Message_Block c2) @ be64 N\<rparr>))"
      using False finish_block [OF f(4) N]
      by (simp add: SHA1PadMessage_def ix f(1,2) f(4) mem Let_def same)
    then show ?thesis
      using d False pad_split [OF dv lt] same(3) by (simp add: f(5) sha1_def N_def)
  next
    case True
    obtain c1 c2 where f: "put_byte 0x80 c = Some c1" "zero_fill 64 c1 = Some c2"
      "c2 = c\<lparr>Message_Block := Message_Block c2, Message_Block_Index := 64\<rparr>" "length (Message_Block c2) = 64"
      "take 64 (Message_Block c2) = tail @ [0x80] @ replicate (64 - 1 - length tail) 0"
      using mark_and_fill [OF assms, of 64] lt by auto
    define B where "B = Message_Block c2"
    have B: "B = tail @ [0x80] @ replicate (63 - length tail) 0" "length B = 64"
      using f(4,5) by (simp_all add: B_def)
    have "digest_words (Message_Digest c2) = sha_blocks sha_init full" using dg by (subst f(3)) simp
    then obtain d where d: "SHA1ProcessMessageBlock c2 = c2\<lparr>Message_Digest := d, Message_Block_Index := 0\<rparr>"
      "digest_words d = sha_blocks sha_init (full @ B)"
      using process_digest [of c2 full] dv f(4) unfolding B_def by blast
    define c3 where "c3 = c2\<lparr>Message_Digest := d, Message_Block := replicate 56 0 @ drop 56 B,
      Message_Block_Index := 56\<rparr>"
    have z: "zero_fill 56 (c2\<lparr>Message_Digest := d, Message_Block_Index := 0\<rparr>) = Some c3"
      using zero_fill_eq [of "c2\<lparr>Message_Digest := d, Message_Block_Index := 0\<rparr>" 56] B(2)
      by (simp add: c3_def B_def)
    have lb: "length (Message_Block c3) = 64" using B(2) by (simp add: c3_def)
    have same: "Length_Low c3 = Length_Low c" "Length_High c3 = Length_High c" "\<not> Corrupted c3"
      using nc by (simp_all add: c3_def) (subst f(3), simp)+
    obtain e where e: "SHA1ProcessMessageBlock (c3\<lparr>Message_Block := take 56 (Message_Block c3) @ be64 N\<rparr>) =
        c3\<lparr>Message_Block := take 56 (Message_Block c3) @ be64 N, Message_Digest := e, Message_Block_Index := 0\<rparr>"
      "length e = 5"
      "digest_words e = sha_blocks sha_init ((full @ B) @ take 56 (Message_Block c3) @ be64 N)"
      using end_block [of c3 "full @ B", OF _ _ lb] d(2) dv B(2) by (auto simp: c3_def)
    have "SHA1PadMessage c = Some (SHA1ProcessMessageBlock
        (c3\<lparr>Message_Block := take 56 (Message_Block c3) @ be64 N\<rparr>))"
      using True finish_block [OF lb N]
      by (simp add: SHA1PadMessage_def ix f(1,2) d(1) z lb mem Let_def same)
    moreover have "119 - length tail = (63 - length tail) + 56" using lt by simp
    then have "replicate (119 - length tail) (0 :: u8) = replicate (63 - length tail) 0 @ replicate 56 0"
      by (simp only: replicate_add)
    then have "(full @ B) @ take 56 (Message_Block c3) @ be64 N = sha_pad (full @ tail)"
      using True pad_split [OF dv lt] by (simp add: B(1) c3_def N_def)
    ultimately show ?thesis using e same(3) by (simp add: sha1_def)
  qed
qed

section \<open>The hash of a message in pieces\<close>

text \<open>
  What a client of the hash relies on: a context holds the message it was fed so far, each call adds the
  bytes it is given, and the result is the hash of what the context holds.
\<close>

locale hash_context =
  fixes usable :: "'c \<Rightarrow> bool" and holds :: "'c \<Rightarrow> buf \<Rightarrow> bool" and reset :: "'c \<Rightarrow> 'c"
    and input :: "'c \<Rightarrow> buf \<Rightarrow> nat \<Rightarrow> 'c option" and result :: "'c \<Rightarrow> 'd option"
    and hash :: "buf \<Rightarrow> 'd" and piece :: nat and limit :: nat
  assumes reset_holds: "usable c \<Longrightarrow> holds (reset c) []"
    and input_holds: "holds c xs \<Longrightarrow> n \<le> length m \<Longrightarrow> n < piece \<Longrightarrow> length xs + n < limit \<Longrightarrow>
      \<exists>c'. input c m n = Some c' \<and> holds c' (xs @ take n m)"
    and result_hash: "holds c xs \<Longrightarrow> result c = Some (hash xs)"
begin

lemma two_pieces:
  assumes "usable c" "n \<le> length a" "k \<le> length b" "n < piece" "k < piece" "n + k < limit"
  shows "\<exists>c1 c2. input (reset c) a n = Some c1 \<and> input c1 b k = Some c2 \<and>
    result c2 = Some (hash (take n a @ take k b))"
proof -
  obtain c1 where 1: "input (reset c) a n = Some c1" "holds c1 (take n a)"
    using input_holds [OF reset_holds [OF assms(1)] assms(2,4)] assms(6) by auto
  obtain c2 where "input c1 b k = Some c2" "holds c2 (take n a @ take k b)"
    using input_holds [OF 1(2) assms(3,5)] assms(2,6) by auto
  then show ?thesis using 1 result_hash by blast
qed

lemma feed_holds:
  assumes "holds c xs" "\<forall>m \<in> set ms. length m < piece" "length xs + length (concat ms) < limit"
  shows "\<exists>c'. fold (\<lambda>m oc. Option.bind oc (\<lambda>c. input c m (length m))) ms (Some c) = Some c' \<and>
    holds c' (xs @ concat ms)"
  using assms
proof (induction ms arbitrary: c xs)
  case (Cons m ms)
  then obtain c' where c': "input c m (length m) = Some c'" "holds c' (xs @ m)"
    using input_holds [of c xs "length m" m] by auto
  show ?case using Cons.IH [OF c'(2)] Cons.prems(2,3) c'(1) by simp
qed simp

lemma hash_of_pieces:
  assumes "usable c" "\<forall>m \<in> set ms. length m < piece" "length (concat ms) < limit"
  shows "\<exists>c'. fold (\<lambda>m oc. Option.bind oc (\<lambda>c. input c m (length m))) ms (Some (reset c)) = Some c' \<and>
    result c' = Some (hash (concat ms))"
  using feed_holds [OF reset_holds [OF assms(1)] assms(2)] assms(3) result_hash by fastforce

end

text \<open>The context of \<open>sha1.c\<close> provides it: pieces below 2^32 bytes, messages below 2^61.\<close>

definition sha1_holds :: "SHA1Context \<Rightarrow> buf \<Rightarrow> bool" where
  "sha1_holds c xs \<longleftrightarrow> (\<exists>full tail. fed c full tail \<and> xs = full @ tail)"

definition sha1_input :: "SHA1Context \<Rightarrow> buf \<Rightarrow> nat \<Rightarrow> SHA1Context option" where
  "sha1_input c m n = SHA1Input c m (of_nat n)"

definition sha1_result :: "SHA1Context \<Rightarrow> u32 list option" where
  "sha1_result c = (case SHA1Result c of Some (True, c') \<Rightarrow> Some (Message_Digest c') | _ \<Rightarrow> None)"

definition sha1_digest :: "buf \<Rightarrow> u32 list" where
  "sha1_digest xs = (case sha1 xs of (a, b, c, d, e) \<Rightarrow> [a, b, c, d, e])"

lemma digest_words_list: "length d = 5 \<Longrightarrow> digest_words d = (v, w, x, y, z) \<Longrightarrow> d = [v, w, x, y, z]"
  by (auto simp: digest_words_def length_Suc_conv numeral_eq_Suc)

interpretation sha: hash_context "\<lambda>c. length (Message_Block c) = 64" sha1_holds SHA1Reset sha1_input
  sha1_result sha1_digest "2 ^ 32" "2 ^ 61"
proof
  show "length (Message_Block c) = 64 \<Longrightarrow> sha1_holds (SHA1Reset c) []" for c :: SHA1Context
    using fed_reset by (auto simp: sha1_holds_def)
  show "\<exists>c'. sha1_input c m n = Some c' \<and> sha1_holds c' (xs @ take n m)"
    if h: "sha1_holds c xs" "n \<le> length m" "n < 2 ^ 32" "length xs + n < 2 ^ 61" for c xs n m
  proof -
    have u: "unat (of_nat n :: u32) = n" using h(3) by (simp add: unat_of_nat)
    obtain full tail where f: "fed c full tail" "xs = full @ tail" using h(1) by (auto simp: sha1_holds_def)
    then show ?thesis
      using SHA1Input_fed [OF f(1), of "of_nat n" m] h(2,4)
      by (auto simp: u sha1_input_def sha1_holds_def) (metis append.assoc)
  qed
  show "sha1_result c = Some (sha1_digest xs)" if h: "sha1_holds c xs" for c xs
  proof -
    obtain full tail where f: "fed c full tail" "xs = full @ tail" using h by (auto simp: sha1_holds_def)
    obtain c' where c': "SHA1PadMessage c = Some c'" "length (Message_Digest c') = 5"
      "digest_words (Message_Digest c') = sha1 xs"
      using SHA1PadMessage_digest [OF f(1)] f(2) by blast
    obtain v w x y z where s: "sha1 xs = (v, w, x, y, z)" by (metis prod_cases5)
    have "Message_Digest c' = sha1_digest xs"
      using digest_words_list [OF c'(2) c'(3) [unfolded s]] by (simp add: sha1_digest_def s)
    then show ?thesis using c'(1) f(1) by (simp add: sha1_result_def SHA1Result_def fed_def)
  qed
qed

text \<open>The result as the caller sees it, and the message fed as a list of pieces.\<close>

lemma sha1_result_Some:
  assumes "sha1_result c = Some d"
  shows "\<exists>c'. SHA1Result c = Some (True, c') \<and> Message_Digest c' = d"
  using assms by (auto simp: sha1_result_def split: option.splits prod.splits bool.splits)

fun input_pieces :: "buf list \<Rightarrow> SHA1Context \<Rightarrow> SHA1Context option" where
  "input_pieces [] context = Some context"
| "input_pieces (m # ms) context =
     do {
       context \<leftarrow> SHA1Input context m (of_nat (length m));
       input_pieces ms context
     }"

lemma fold_None: "fold (\<lambda>m oc. Option.bind oc (f m)) ms None = None"
  by (induction ms) simp_all

lemma input_pieces_fold:
  "input_pieces ms c = fold (\<lambda>m oc. Option.bind oc (\<lambda>c. sha1_input c m (length m))) ms (Some c)"
proof (induction ms arbitrary: c)
  case (Cons m ms)
  then show ?case
    by (cases "SHA1Input c m (of_nat (length m))") (simp_all add: sha1_input_def fold_None)
qed simp

lemma sha1_pieces:
  assumes "length (Message_Block c) = 64" "\<forall>m \<in> set ms. length m < 2 ^ 32" "length (concat ms) < 2 ^ 61"
  shows "\<exists>c1 c2. input_pieces ms (SHA1Reset c) = Some c1 \<and> SHA1Result c1 = Some (True, c2) \<and>
    Message_Digest c2 = sha1_digest (concat ms)"
  using sha.hash_of_pieces [OF assms] sha1_result_Some unfolding input_pieces_fold by blast

lemma length_sha1_digest [simp]: "length (sha1_digest xs) = 5"
  by (simp add: sha1_digest_def split: prod.split)

text \<open>Input after the result is an error that the next result reports.\<close>

lemma input_after_result:
  assumes "Computed c" "len \<noteq> 0"
  shows "\<exists>c'. SHA1Input c m len = Some c' \<and> SHA1Result c' = Some (False, c')"
  using assms by (simp add: SHA1Input_def SHA1Result_def)

end
