(* ===== verification/SR_Vns.thy ===== *)
theory SR_Vns
  imports SR_Router SR_Sha1
begin

text \<open>
  The client side of the VNS protocol (\<open>sr_vns_comm.c\<close>, \<open>vnscommand.h\<close>): reading a command from the
  server's byte stream, dispatching it, and the handlers of the commands.

  What the operating system does is part of the state: the pieces the stream arrives in, the file
  \<open>auth_key\<close>, which files can be written and what was written to them, and what uninitialised memory
  holds.  An empty piece is a \<open>recv\<close> that returns 0, as it does at the end of the stream.

  \<open>malloc\<close> succeeds, also for size 0, as it does in the GNU C library.  A string that the code prints or
  passes on as a C string has to end inside its message.
\<close>

section \<open>State\<close>

datatype recv_event = Got buf | Interrupted | Failed

record vns_client =
  router :: sr_instance
  inbox :: "recv_event list"
  auth_key_file :: "buf option"
  stack_bytes :: buf
  sha1_memory :: SHA1Context
  if_memory :: "nat \<Rightarrow> sr_if"
  can_write :: "string \<Rightarrow> bool"
  files :: "(string \<times> buf) list"

text \<open>
  How an operation ends that may wait for the server: it has no defined behaviour, it is still waiting
  when everything that arrives has been read, or it returns.
\<close>

datatype 'a io = Undefined | Waiting | Returns 'a

primrec and_then :: "'a io \<Rightarrow> ('a \<Rightarrow> 'b io) \<Rightarrow> 'b io" where
  "and_then Undefined f = Undefined"
| "and_then Waiting f = Waiting"
| "and_then (Returns a) f = f a"

definition defined :: "'a option \<Rightarrow> 'a io" where
  "defined x = (case x of None \<Rightarrow> Undefined | Some a \<Rightarrow> Returns a)"

section \<open>Messages\<close>

abbreviation (input) VNSOPEN :: u32 where "VNSOPEN \<equiv> 1"
abbreviation (input) VNSCLOSE :: int where "VNSCLOSE \<equiv> 2"
abbreviation (input) VNSBANNER :: int where "VNSBANNER \<equiv> 8"
abbreviation (input) VNSHWINFO :: int where "VNSHWINFO \<equiv> 16"
abbreviation (input) VNS_RTABLE :: int where "VNS_RTABLE \<equiv> 32"
abbreviation (input) VNS_OPEN_TEMPLATE :: u32 where "VNS_OPEN_TEMPLATE \<equiv> 64"
abbreviation (input) VNS_AUTH_REQUEST :: int where "VNS_AUTH_REQUEST \<equiv> 128"
abbreviation (input) VNS_AUTH_REPLY :: u32 where "VNS_AUTH_REPLY \<equiv> 256"
abbreviation (input) VNS_AUTH_STATUS :: int where "VNS_AUTH_STATUS \<equiv> 512"
abbreviation (input) IDSIZE :: nat where "IDSIZE \<equiv> 32"
abbreviation (input) sizeof_c_base :: nat where "sizeof_c_base \<equiv> 8"
abbreviation (input) sizeof_c_packet_ethernet_header :: nat where "sizeof_c_packet_ethernet_header \<equiv> 38"
abbreviation (input) sizeof_c_open :: nat where "sizeof_c_open \<equiv> 108"
abbreviation (input) sizeof_c_open_template :: nat where "sizeof_c_open_template \<equiv> 70"
abbreviation (input) sizeof_c_hw_entry :: nat where "sizeof_c_hw_entry \<equiv> 36"
abbreviation (input) sizeof_c_auth_request :: nat where "sizeof_c_auth_request \<equiv> 8"
abbreviation (input) sizeof_c_auth_reply :: nat where "sizeof_c_auth_reply \<equiv> 12"
abbreviation (input) HWINTERFACE :: u32 where "HWINTERFACE \<equiv> 1"
abbreviation (input) HWETHER :: u32 where "HWETHER \<equiv> 32"
abbreviation (input) HWETHIP :: u32 where "HWETHIP \<equiv> 64"
abbreviation (input) AUTH_KEY_LEN :: nat where "AUTH_KEY_LEN \<equiv> 64"
abbreviation (input) SHA1_LEN :: nat where "SHA1_LEN \<equiv> 20"

text \<open>
  A C string that starts at the head of a buffer: it must end inside it.  \<open>field_str\<close> is the string in
  a \<open>char\<close> array of which at most the array's length is read.
\<close>

definition field_str :: "buf \<Rightarrow> string" where
  "field_str b = map (\<lambda>x. char_of (unat x)) (takeWhile (\<lambda>x. x \<noteq> 0) b)"

definition cstr :: "buf \<Rightarrow> string option" where
  "cstr b = (if 0 \<in> set b then Some (field_str b) else None)"

text \<open>\<open>send\<close> on the server socket: what it returns, and what went out.\<close>

definition sock_send :: "sr_instance \<Rightarrow> buf \<Rightarrow> int \<times> sr_instance" where
  "sock_send sr msg =
     (let ret = sock_write sr (length msg)
      in (ret, if ret = -1 then sr else sr\<lparr>wire := wire sr @ [take (nat ret) msg]\<rparr>))"

section \<open>Handlers of commands\<close>

definition sr_arp_req_not_for_us :: "sr_instance \<Rightarrow> buf \<Rightarrow> u32 \<Rightarrow> string \<Rightarrow> bool option" where
  "sr_arp_req_not_for_us sr packet len interface =
     (let iface = sr_get_interface (if_list sr) interface
      in if unat len < sizeof_sr_ethernet_hdr + sizeof_sr_arp_packet then Some False
      else do {
        iface \<leftarrow> iface;
        type \<leftarrow> rd16 ether_type packet;
        if type \<noteq> htons ethertype_arp then Some False
        else do {
          oper \<leftarrow> rd16 (sizeof_sr_ethernet_hdr + ar_op) packet;
          if oper \<noteq> htons arp_op_request then Some False
          else do {
            tip \<leftarrow> rd32 (sizeof_sr_ethernet_hdr + ar_tip) packet;
            Some (tip \<noteq> if_ip iface)
          }
        }
      })"

text \<open>One entry of the hardware description, and the loop over them.\<close>

definition hw_entry :: "(nat \<Rightarrow> sr_if) \<Rightarrow> buf \<Rightarrow> sr_if list \<Rightarrow> sr_if list option" where
  "hw_entry if_mem entry ifs =
     do {
       key \<leftarrow> rd32 0 entry;
       val \<leftarrow> rd_bytes 4 32 entry;
       if ntohl key = HWINTERFACE then Some (sr_add_interface (if_mem (length ifs)) ifs (field_str val))
       else if ntohl key = HWETHIP then do {
         ip \<leftarrow> rd32 0 val;
         sr_set_ether_ip ifs ip
       }
       else if ntohl key = HWETHER then sr_set_ether_addr ifs val
       else Some ifs
     }"

fun hwinfo_loop :: "(nat \<Rightarrow> sr_if) \<Rightarrow> nat \<Rightarrow> buf \<Rightarrow> sr_if list \<Rightarrow> sr_if list option" where
  "hwinfo_loop if_mem 0 ents ifs = Some ifs"
| "hwinfo_loop if_mem (Suc n) ents ifs =
     do {
       ifs \<leftarrow> hw_entry if_mem ents ifs;
       hwinfo_loop if_mem n (drop sizeof_c_hw_entry ents) ifs
     }"

definition sr_handle_hwinfo :: "vns_client \<Rightarrow> buf \<Rightarrow> (int \<times> vns_client) option" where
  "sr_handle_hwinfo c hwinfo =
     do {
       mLen \<leftarrow> rd32 0 hwinfo;
       let num_entries = sint (ucast ((ucast (ntohl mLen) - 8 :: 64 word) div of_nat sizeof_c_hw_entry) :: u32);
       ifs \<leftarrow> hwinfo_loop (if_memory c) (nat num_entries) (drop 8 hwinfo) (if_list (router c));
       Some (num_entries, c\<lparr>router := (router c)\<lparr>if_list := ifs\<rparr>\<rparr>)
     }"

definition sr_handle_rtable :: "vns_client \<Rightarrow> buf \<Rightarrow> (int \<times> vns_client) option" where
  "sr_handle_rtable c rtable =
     do {
       host_id \<leftarrow> cstr (drop 8 rtable);
       if IDSIZE < length host_id then None
       else if can_write c (''rtable.'' @ host_id) then do {
         mLen \<leftarrow> rd32 0 rtable;
         data \<leftarrow> rd_bytes (8 + IDSIZE) (unat (ntohl mLen - 8 - of_nat IDSIZE)) rtable;
         Some (1, c\<lparr>files := files c @ [(''rtable.'' @ host_id, data)]\<rparr>)
       }
       else Some (0, c)
     }"

text \<open>\<open>fgets\<close>: bytes up to and with the first newline, at most \<open>n\<close> of them.\<close>

fun fgets_bytes :: "nat \<Rightarrow> buf \<Rightarrow> buf" where
  "fgets_bytes 0 file = []"
| "fgets_bytes (Suc n) [] = []"
| "fgets_bytes (Suc n) (b # file) = (if b = 10 then [b] else b # fgets_bytes n file)"

text \<open>The user name is a \<open>char[32]\<close> that \<open>strncpy\<close> filled: it ends inside it only when shorter.\<close>

definition user_str :: "sr_instance \<Rightarrow> string option" where
  "user_str sr = (if length (user sr) < 32 then Some (user sr) else None)"

definition sr_handle_auth_request :: "vns_client \<Rightarrow> buf \<Rightarrow> (int \<times> vns_client) option" where
  "sr_handle_auth_request c req =
     (case auth_key_file c of
        None \<Rightarrow> Some (0, c)
      | Some file \<Rightarrow>
          let line = fgets_bytes AUTH_KEY_LEN file
          in if line = [] then Some (0, c)
          else do {
            let auth_key = line @ [0] @ drop (length line + 1) (stack_bytes c);
            mLen \<leftarrow> rd32 0 req;
            sha1 \<leftarrow> SHA1Input (SHA1Reset (sha1_memory c)) (drop 8 req)
                      (ntohl mLen - of_nat sizeof_c_auth_request);
            sha1 \<leftarrow> SHA1Input sha1 auth_key (of_nat AUTH_KEY_LEN);
            (ok, sha1) \<leftarrow> SHA1Result sha1;
            if \<not> ok then Some (0, c)
            else do {
              username \<leftarrow> user_str (router c);
              let len = sizeof_c_auth_reply + length username + SHA1_LEN;
              let digest = concat (map (\<lambda>i. bytes32 (htonl (Message_Digest sha1 ! i))) [0, 1, 2, 3, 4]);
              let msg = bytes32 (htonl (of_nat len)) @ bytes32 (htonl VNS_AUTH_REPLY) @
                        bytes32 (htonl (of_nat (length username))) @ map of_char username @ digest;
              let (ret, sr) = sock_send (router c) msg;
              Some (if ret = int len then 1 else 0, c\<lparr>router := sr\<rparr>)
            }
          })"

definition sr_handle_auth_status :: "vns_client \<Rightarrow> buf \<Rightarrow> int option" where
  "sr_handle_auth_status c status =
     do {
       auth_ok \<leftarrow> rd8 8 status;
       _ \<leftarrow> user_str (router c);
       if auth_ok \<noteq> 0 then Some (uint auth_ok)
       else do {
         _ \<leftarrow> cstr (drop 9 status);
         Some (uint auth_ok)
       }
     }"

text \<open>\<open>sr_main.c\<close>: every interface the routing table names is in the list.\<close>

fun count_missing :: "sr_if list \<Rightarrow> sr_rt list \<Rightarrow> int" where
  "count_missing ifs [] = 0"
| "count_missing ifs (rt_walker # rest) =
     (if list_ex (\<lambda>if_walker. strn_eq (if_name if_walker) (rt_interface rt_walker) sr_IFACE_NAMELEN) ifs
      then 0 else 1) + count_missing ifs rest"

definition sr_verify_routing_table :: "sr_instance \<Rightarrow> int" where
  "sr_verify_routing_table sr =
     (if if_list sr = [] \<or> routing_table sr = [] then 999
      else count_missing (if_list sr) (routing_table sr))"

section \<open>Reading a command\<close>

text \<open>
  \<open>recv\<close> and \<open>read\<close> with room for \<open>n\<close> bytes: the head of the stream, at most \<open>n\<close> bytes of it.  The
  rest of a piece stays for the next call.
\<close>

fun recv :: "nat \<Rightarrow> recv_event list \<Rightarrow> (recv_event \<times> recv_event list) option" where
  "recv n [] = None"
| "recv n (Got bs # evs) =
     Some (Got (take n bs), if n < length bs then Got (drop n bs) # evs else evs)"
| "recv n (ev # evs) = Some (ev, evs)"

text \<open>A termination measure: the bytes and the events that are left.\<close>

primrec event_size :: "recv_event \<Rightarrow> nat" where
  "event_size (Got bs) = length bs + 1"
| "event_size Interrupted = 1"
| "event_size Failed = 1"

definition inbox_size :: "recv_event list \<Rightarrow> nat" where
  "inbox_size evs = sum_list (map event_size evs)"

lemma recv_smaller:
  assumes "recv n evs = Some (ev, evs')" "0 < n"
  shows "inbox_size evs' < inbox_size evs"
proof (cases "(n, evs)" rule: recv.cases)
  case (2 m bs es)
  then show ?thesis using assms by (auto simp: inbox_size_def split: if_splits)
qed (use assms in \<open>auto simp: inbox_size_def\<close>)

datatype read_result = ReadAll buf "recv_event list" | ReadFailed "recv_event list" | ReadMore

text \<open>
  The two loops that read a fixed number of bytes: an interrupted call is repeated, a failed one ends
  the loop, and any other adds what it read.
\<close>

function read_loop :: "nat \<Rightarrow> buf \<Rightarrow> recv_event list \<Rightarrow> read_result" where
  "read_loop n bytes_read evs =
     (if n \<le> length bytes_read then ReadAll bytes_read evs
      else case recv (n - length bytes_read) evs of
             None \<Rightarrow> ReadMore
           | Some (Interrupted, evs') \<Rightarrow> read_loop n bytes_read evs'
           | Some (Failed, evs') \<Rightarrow> ReadFailed evs'
           | Some (Got bs, evs') \<Rightarrow> read_loop n (bytes_read @ bs) evs')"
  by pat_completeness auto
termination
  by (relation "measure (\<lambda>(n, bytes_read, evs). inbox_size evs)") (auto dest: recv_smaller)

declare read_loop.simps [simp del]

text \<open>The commands; the second result of each is the client afterwards.\<close>

definition packet_command :: "vns_client \<Rightarrow> buf \<Rightarrow> int \<Rightarrow> (int \<times> vns_client) option" where
  "packet_command c command len =
     do {
       iface \<leftarrow> cstr (drop sizeof_c_base command);
       let packet = drop sizeof_c_packet_header command;
       let packet_len = word_of_int (len - int sizeof_c_packet_ethernet_header + int sizeof_sr_ethernet_hdr);
       not_for_us \<leftarrow> sr_arp_req_not_for_us (router c) packet packet_len iface;
       if not_for_us then Some (1, c)
       else do {
         mLen \<leftarrow> rd32 0 command;
         sr \<leftarrow> sr_log_packet (router c) packet (sint (ntohl mLen - of_nat sizeof_c_packet_header));
         sr \<leftarrow> sr_handlepacket sr packet packet_len iface;
         Some (1, c\<lparr>router := sr\<rparr>)
       }
     }"

definition handle_command :: "vns_client \<Rightarrow> buf \<Rightarrow> int \<Rightarrow> int \<Rightarrow> (int \<times> vns_client) option" where
  "handle_command c msg len command =
     (if command = 4 then packet_command c msg len
      else if command = VNSCLOSE then do {
        _ \<leftarrow> cstr (drop sizeof_c_base msg);
        Some (0, c)
      }
      else if command = VNSBANNER then do {
        _ \<leftarrow> cstr (drop sizeof_c_base msg);
        Some (1, c)
      }
      else if command = VNSHWINFO then do {
        (_, c) \<leftarrow> sr_handle_hwinfo c msg;
        Some (if sr_verify_routing_table (router c) \<noteq> 0 then -1 else 1, c)
      }
      else if command = VNS_RTABLE then do {
        (ok, c) \<leftarrow> sr_handle_rtable c msg;
        Some (if ok = 0 then -1 else 1, c)
      }
      else if command = VNS_AUTH_REQUEST then do {
        (ok, c) \<leftarrow> sr_handle_auth_request c msg;
        Some (if ok = 0 then -1 else 1, c)
      }
      else if command = VNS_AUTH_STATUS then do {
        ok \<leftarrow> sr_handle_auth_status c msg;
        Some (if ok = 0 then -1 else 1, c)
      }
      else Some (1, c))"

definition sr_read_from_server_expect :: "vns_client \<Rightarrow> int \<Rightarrow> (int \<times> vns_client) io" where
  "sr_read_from_server_expect c expected_cmd =
     (case read_loop 4 [] (inbox c) of
        ReadMore \<Rightarrow> Waiting
      | ReadFailed evs \<Rightarrow> Returns (-1, c\<lparr>inbox := evs\<rparr>)
      | ReadAll start evs \<Rightarrow>
          and_then (defined (rd32 0 start)) (\<lambda>nlen.
          let len = sint (ntohl nlen)
          in if 10000 < len \<or> len < 0 then Returns (-1, c\<lparr>inbox := evs\<rparr>)
          else if len < 4 then Undefined
          else case read_loop (nat (len - 4)) [] evs of
            ReadMore \<Rightarrow> Waiting
          | ReadFailed evs \<Rightarrow> Returns (-1, c\<lparr>inbox := evs\<rparr>)
          | ReadAll rest evs \<Rightarrow>
              and_then (defined (rd32 4 (start @ rest))) (\<lambda>ntype.
              let command = sint (ntohl ntype); c = c\<lparr>inbox := evs\<rparr>
              in if expected_cmd \<noteq> 0 \<and> command \<noteq> expected_cmd \<and> command \<noteq> VNSCLOSE
                 then Returns (-1, c)
                 else and_then (defined (wr32 4 (ntohl ntype) (start @ rest))) (\<lambda>msg.
                   defined (handle_command c msg len command)))))"

definition sr_read_from_server :: "vns_client \<Rightarrow> (int \<times> vns_client) io" where
  "sr_read_from_server c = sr_read_from_server_expect c 0"

section \<open>Connecting\<close>

text \<open>
  \<open>net\<close> tells which of \<open>gethostbyname\<close>, \<open>socket\<close> and \<open>connect\<close> succeed.  The socket's address
  structure has no part in what follows.
\<close>

record net_env =
  resolves :: bool
  has_socket :: bool
  connects :: bool

definition open_message :: "sr_instance \<Rightarrow> buf" where
  "open_message sr =
     (if 0 < length (template sr)
      then bytes32 (htonl (of_nat sizeof_c_open_template)) @ bytes32 (htonl VNS_OPEN_TEMPLATE) @
           strncpy_bytes (template sr) 30 @ strncpy_bytes (host sr) IDSIZE
      else bytes32 (htonl (of_nat sizeof_c_open)) @ bytes32 (htonl VNSOPEN) @
           bytes16 (htons (topo_id sr)) @ bytes16 0 @ strncpy_bytes (host sr) IDSIZE @
           strncpy_bytes (user sr) IDSIZE @ replicate IDSIZE 0)"

definition sr_connect_to_server :: "net_env \<Rightarrow> vns_client \<Rightarrow> (int \<times> vns_client) io" where
  "sr_connect_to_server net c =
     (if \<not> resolves net \<or> \<not> has_socket net \<or> \<not> connects net then Returns (-1, c)
      else
        and_then (sr_read_from_server_expect c VNS_AUTH_REQUEST) (\<lambda>(r, c).
        if r \<noteq> 1 then Returns (-1, c)
        else and_then (sr_read_from_server_expect c VNS_AUTH_STATUS) (\<lambda>(r, c).
        if r \<noteq> 1 then Returns (-1, c)
        else
          let msg = open_message (router c);
              (ret, sr) = sock_send (router c) msg;
              c = c\<lparr>router := sr\<rparr>
          in if ret \<noteq> int (length msg) then Returns (-1, c)
          else if 0 < length (template (router c)) then
            and_then (sr_read_from_server_expect c VNS_RTABLE) (\<lambda>(r, c).
            if r \<noteq> 1 then Returns (-1, c) else Returns (0, c))
          else Returns (0, c))))"

section \<open>Reading does not depend on the pieces\<close>

text \<open>The bytes of the stream, however they are cut up and interrupted.\<close>

primrec event_bytes :: "recv_event \<Rightarrow> buf" where
  "event_bytes (Got bs) = bs"
| "event_bytes Interrupted = []"
| "event_bytes Failed = []"

definition stream :: "recv_event list \<Rightarrow> buf" where
  "stream evs = concat (map event_bytes evs)"

lemma recv_stream:
  assumes "recv n evs = Some (ev, evs')"
  shows "stream evs = event_bytes ev @ stream evs'" "length (event_bytes ev) \<le> n"
    "set evs' \<subseteq> set evs \<union> range Got" "ev = Failed \<Longrightarrow> Failed \<in> set evs"
proof -
  have "stream evs = event_bytes ev @ stream evs' \<and> length (event_bytes ev) \<le> n \<and>
    set evs' \<subseteq> set evs \<union> range Got \<and> (ev = Failed \<longrightarrow> Failed \<in> set evs)"
    using assms by (cases "(n, evs)" rule: recv.cases) (auto simp: stream_def split: if_splits)
  then show "stream evs = event_bytes ev @ stream evs'" "length (event_bytes ev) \<le> n"
    "set evs' \<subseteq> set evs \<union> range Got" "ev = Failed \<Longrightarrow> Failed \<in> set evs" by auto
qed

lemma recv_None: "recv n evs = None \<Longrightarrow> stream evs = []"
  by (cases "(n, evs)" rule: recv.cases) (simp_all add: stream_def)

lemma read_loop_complete:
  assumes "Failed \<notin> set evs" "length got \<le> n" "n \<le> length got + length (stream evs)"
  shows "\<exists>evs'. read_loop n got evs = ReadAll (take n (got @ stream evs)) evs' \<and>
    stream evs' = drop n (got @ stream evs) \<and> Failed \<notin> set evs'"
  using assms
proof (induction n got evs rule: read_loop.induct)
  case (1 n got evs)
  show ?case
  proof (cases "n \<le> length got")
    case True
    then show ?thesis using 1(3,4) by (subst read_loop.simps) simp
  next
    case False
    then obtain ev evs' where r: "recv (n - length got) evs = Some (ev, evs')"
      using 1(5) recv_None by (cases "recv (n - length got) evs") auto
    note s = recv_stream [OF r]
    have nf: "Failed \<notin> set evs'" using s(3) 1(3) by auto
    show ?thesis
    proof (cases ev)
      case (Got bs)
      with r have r: "recv (n - length got) evs = Some (Got bs, evs')" by simp
      show ?thesis
        using 1(1) [OF False r refl refl nf] s(1,2) 1(5) False Got
        by (subst read_loop.simps) (simp add: r)
    next
      case Interrupted
      with r have r: "recv (n - length got) evs = Some (Interrupted, evs')" by simp
      show ?thesis
        using 1(2) [OF False r refl refl nf 1(4)] s(1) 1(5) False Interrupted
        by (subst read_loop.simps) (simp add: r)
    next
      case Failed
      then show ?thesis using s(4) 1(3) by simp
    qed
  qed
qed

lemma read_loop_partial:
  assumes "Failed \<notin> set evs" "length got + length (stream evs) < n"
  shows "read_loop n got evs = ReadMore"
  using assms
proof (induction n got evs rule: read_loop.induct)
  case (1 n got evs)
  have False: "\<not> n \<le> length got" using 1(4) by simp
  show ?case
  proof (cases "recv (n - length got) evs")
    case None
    then show ?thesis using False by (subst read_loop.simps) simp
  next
    case (Some x)
    obtain ev evs' where x: "x = (ev, evs')" by (cases x)
    note r = Some [unfolded x]
    note s = recv_stream [OF r]
    have nf: "Failed \<notin> set evs'" using s(3) 1(3) by auto
    show ?thesis
    proof (cases ev)
      case (Got bs)
      with r have r: "recv (n - length got) evs = Some (Got bs, evs')" by simp
      show ?thesis
        using 1(1) [OF False r refl refl nf] s(1) 1(4) False Got by (subst read_loop.simps) (simp add: r)
    next
      case Interrupted
      with r have r: "recv (n - length got) evs = Some (Interrupted, evs')" by simp
      show ?thesis
        using 1(2) [OF False r refl refl nf] s(1) 1(4) False Interrupted by (subst read_loop.simps) (simp add: r)
    next
      case Failed
      then show ?thesis using s(4) 1(3) by simp
    qed
  qed
qed

text \<open>A read that got all its bytes: it took each of them in turn.\<close>

lemma read_loop_all_induct:
  assumes "read_loop n got evs = ReadAll b evs'" and base: "n \<le> length b \<Longrightarrow> P b evs'"
    and got: "\<And>got evs bs es. length got < n \<Longrightarrow> recv (n - length got) evs = Some (Got bs, es) \<Longrightarrow>
      P (got @ bs) es \<Longrightarrow> P got evs"
    and intr: "\<And>got evs es. length got < n \<Longrightarrow> recv (n - length got) evs = Some (Interrupted, es) \<Longrightarrow>
      P got es \<Longrightarrow> P got evs"
  shows "P got evs"
  using assms(1) base got intr
proof (induction n got evs rule: read_loop.induct)
  case (1 n got evs)
  show ?case
  proof (cases "n \<le> length got")
    case True
    then show ?thesis using 1(3,4) by (subst (asm) read_loop.simps) simp
  next
    case False
    with 1(3) obtain ev es where r: "recv (n - length got) evs = Some (ev, es)"
      by (subst (asm) read_loop.simps) (auto split: option.splits)
    show ?thesis
    proof (cases ev)
      case (Got bs)
      with r have r: "recv (n - length got) evs = Some (Got bs, es)" by simp
      have "read_loop n (got @ bs) es = ReadAll b evs'"
        using 1(3) False by (subst (asm) read_loop.simps) (simp add: r)
      then have "P (got @ bs) es" using 1(1) [OF False r refl refl] 1(4-6) by blast
      then show ?thesis using 1(5) [OF _ r] False by simp
    next
      case Interrupted
      with r have r: "recv (n - length got) evs = Some (Interrupted, es)" by simp
      have "read_loop n got es = ReadAll b evs'"
        using 1(3) False by (subst (asm) read_loop.simps) (simp add: r)
      then have "P got es" using 1(2) [OF False r refl refl] 1(4-6) by blast
      then show ?thesis using 1(6) [OF _ r] False by simp
    next
      case Failed
      with r have r: "recv (n - length got) evs = Some (Failed, es)" by simp
      then show ?thesis using 1(3) False by (subst (asm) read_loop.simps) simp
    qed
  qed
qed

lemma read_loop_length:
  assumes "read_loop n got evs = ReadAll b evs'" "length got \<le> n"
  shows "length b = n"
proof -
  have "length got \<le> n \<longrightarrow> length b = n"
    by (rule read_loop_all_induct [OF assms(1)]) (auto dest: recv_stream(2))
  then show ?thesis using assms(2) by blast
qed

lemma read_loop_size:
  assumes "read_loop n got evs = ReadAll b evs'"
  shows "inbox_size evs' \<le> inbox_size evs" "length got < n \<Longrightarrow> inbox_size evs' < inbox_size evs"
proof -
  have "inbox_size evs' \<le> inbox_size evs \<and> (length got < n \<longrightarrow> inbox_size evs' < inbox_size evs)"
    by (rule read_loop_all_induct [OF assms]) (auto dest: recv_smaller)
  then show "inbox_size evs' \<le> inbox_size evs" "length got < n \<Longrightarrow> inbox_size evs' < inbox_size evs"
    by auto
qed

text \<open>A command on the wire, and as the handlers see it: its type in host order.\<close>

definition wire_command :: "u32 \<Rightarrow> buf \<Rightarrow> buf" where
  "wire_command ty body = bytes32 (htonl (of_nat (length body + 8))) @ bytes32 (htonl ty) @ body"

definition host_command :: "u32 \<Rightarrow> buf \<Rightarrow> buf" where
  "host_command ty body = bytes32 (htonl (of_nat (length body + 8))) @ bytes32 ty @ body"

lemma rd32_bytes32: "rd32 0 (bytes32 w @ b) = Some w"
  by (simp add: rd32_def nth_append bytes32_def)

lemma rd32_second: "length a = 4 \<Longrightarrow> rd32 4 (a @ bytes32 w @ b) = Some w"
  by (simp add: rd32_def nth_append bytes32_def)

lemma wr32_second: "length a = 4 \<Longrightarrow> wr32 4 v (a @ bytes32 w @ b) = Some (a @ bytes32 v @ b)"
  by (simp add: wr32_def bytes32_def list_update_append numeral_eq_Suc)

lemma read_expect_command:
  assumes "stream (inbox c) = wire_command ty body @ rest" "length body + 8 \<le> 10000"
    and "Failed \<notin> set (inbox c)" "e = 0 \<or> sint ty = e \<or> sint ty = VNSCLOSE"
  shows "\<exists>evs. stream evs = rest \<and> Failed \<notin> set evs \<and>
    sr_read_from_server_expect c e =
      defined (handle_command (c\<lparr>inbox := evs\<rparr>) (host_command ty body) (int (length body) + 8) (sint ty))"
proof -
  define n where "n = length body + 8"
  define hdr where "hdr = bytes32 (htonl (of_nat n))"
  have lh: "length hdr = 4" by (simp add: hdr_def)
  have s: "stream (inbox c) = hdr @ bytes32 (htonl ty) @ body @ rest"
    using assms(1) by (simp add: wire_command_def hdr_def n_def)
  obtain evs1 where r1: "read_loop 4 [] (inbox c) = ReadAll hdr evs1"
    "stream evs1 = bytes32 (htonl ty) @ body @ rest" "Failed \<notin> set evs1"
    using read_loop_complete [OF assms(3), of "[]" 4] lh by (auto simp: s)
  have l: "nat (int n - 4) = length (bytes32 (htonl ty) @ body)" by (simp add: n_def)
  obtain evs where r2: "read_loop (length (bytes32 (htonl ty) @ body)) [] evs1 =
      ReadAll (bytes32 (htonl ty) @ body) evs"
    "stream evs = rest" "Failed \<notin> set evs"
    using read_loop_complete [OF r1(3), of "[]" "length (bytes32 (htonl ty) @ body)"] by (auto simp: r1(2))
  have u: "unat (of_nat n :: u32) = n" using assms(2) using unat_of_nat [of n, where ?'a = 32] by (simp add: n_def del: of_nat_add)
  have i: "sint (of_nat n :: u32) = int n"
    using sint_small [of "of_nat n"] assms(2) by (simp add: u n_def [symmetric])
  have h: "rd32 0 hdr = Some (htonl (of_nat n))" using rd32_bytes32 [of _ "[]"] by (simp add: hdr_def)
  have "sr_read_from_server_expect c e = defined (handle_command (c\<lparr>inbox := evs\<rparr>) (hdr @ bytes32 ty @ body) (int n) (sint ty))"
    using assms(2,4) r2(1)
    by (simp add: sr_read_from_server_expect_def r1(1) i l Let_def h
        rd32_second [OF lh] wr32_second [OF lh] defined_def [where x = "Some _"] del: length_append of_nat_add)
      (auto simp: n_def)
  then show ?thesis using r2 by (auto simp: host_command_def hdr_def n_def add.commute)
qed

lemma read_from_server_command:
  assumes "stream (inbox c) = wire_command ty body @ rest" "length body + 8 \<le> 10000"
    and "Failed \<notin> set (inbox c)"
  shows "\<exists>evs. stream evs = rest \<and> Failed \<notin> set evs \<and>
    sr_read_from_server c =
      defined (handle_command (c\<lparr>inbox := evs\<rparr>) (host_command ty body) (int (length body) + 8) (sint ty))"
  unfolding sr_read_from_server_def using read_expect_command [OF assms, of 0] by simp

text \<open>
  Part of a command, in whatever pieces and followed by however many empty reads: the loops go on, the
  end of the stream included.
\<close>

lemma read_from_server_partial:
  assumes "stream (inbox c) = take k (wire_command ty body)" "k < length body + 8"
    and "length body + 8 \<le> 10000" "Failed \<notin> set (inbox c)"
  shows "sr_read_from_server c = Waiting"
proof -
  define n where "n = length body + 8"
  define hdr where "hdr = bytes32 (htonl (of_nat n))"
  have lh: "length hdr = 4" by (simp add: hdr_def)
  have s: "stream (inbox c) = take k (hdr @ bytes32 (htonl ty) @ body)"
    using assms(1) by (simp add: wire_command_def hdr_def n_def)
  show ?thesis
  proof (cases "k < 4")
    case True
    then have "read_loop 4 [] (inbox c) = ReadMore"
      using s lh by (intro read_loop_partial [OF assms(4)]) simp
    then show ?thesis by (simp add: sr_read_from_server_def sr_read_from_server_expect_def)
  next
    case False
    then obtain evs where r1: "read_loop 4 [] (inbox c) = ReadAll hdr evs"
      "stream evs = take (k - 4) (bytes32 (htonl ty) @ body)" "Failed \<notin> set evs"
      using read_loop_complete [OF assms(4), of "[]" 4] lh by (auto simp: s)
    have r2: "read_loop (nat (int n - 4)) [] evs = ReadMore"
      using assms(2) False r1(2) by (intro read_loop_partial [OF r1(3)]) (simp add: n_def nat_diff_distrib)
    have u: "unat (of_nat n :: u32) = n"
      using assms(3) unat_of_nat [of n, where ?'a = 32] by (simp add: n_def del: of_nat_add)
    have i: "sint (of_nat n :: u32) = int n"
      using sint_small [of "of_nat n"] assms(3) by (simp add: u n_def [symmetric])
    have h: "rd32 0 hdr = Some (htonl (of_nat n))" using rd32_bytes32 [of _ "[]"] by (simp add: hdr_def)
    have "4 \<le> n" "n \<le> 10000" using assms(3) by (simp_all add: n_def)
    then show ?thesis
      using r2 by (simp add: sr_read_from_server_def sr_read_from_server_expect_def r1(1) i h Let_def
          defined_def [where x = "Some _"])
  qed
qed

text \<open>The length field: more than 10000 ends the session, less than 8 overruns the buffer.\<close>

lemma read_from_server_length:
  assumes "stream (inbox c) = bytes32 (htonl n) @ rest" "Failed \<notin> set (inbox c)"
  shows "10000 < unat n \<Longrightarrow> \<exists>evs. sr_read_from_server c = Returns (-1, c\<lparr>inbox := evs\<rparr>)"
    and "unat n < 8 \<Longrightarrow> unat n - 4 \<le> length rest \<Longrightarrow> sr_read_from_server c = Undefined"
proof -
  obtain evs where r1: "read_loop 4 [] (inbox c) = ReadAll (bytes32 (htonl n)) evs"
    "stream evs = rest" "Failed \<notin> set evs"
    using read_loop_complete [OF assms(2), of "[]" 4] by (auto simp: assms(1))
  have h: "rd32 0 (bytes32 (htonl n)) = Some (htonl n)" using rd32_bytes32 [of _ "[]"] by simp
  note defs = sr_read_from_server_def sr_read_from_server_expect_def r1(1) h Let_def
    defined_def [where x = "Some _"] defined_def [where x = None]
  {
    assume n: "10000 < unat n"
    have "sint n < 0 \<or> 10000 < sint n"
    proof (cases "unat n < 2 ^ 31")
      case True
      then have "sint n = int (unat n)" by (rule sint_small)
      then show ?thesis using n by linarith
    next
      case False
      have "unat n < 2 ^ 32" using unsigned_less [of n, where ?'a = nat] by simp
      then have "unat n div 2 ^ 31 = 1" using False by (simp add: div_nat_eqI)
      then have "unat (drop_bit 31 n) = unat (1 :: u32)"
        unfolding unat_drop_bit_eq drop_bit_eq_div [of 31 "unat n"] by simp
      then have "drop_bit 31 n = 1" by (simp only: word_unat_eq_iff)
      then have "bit n 31" by (simp add: bit_iff_odd_drop_bit)
      then show ?thesis using bit_last_iff [of n] by simp
    qed
    then show "\<exists>evs. sr_read_from_server c = Returns (-1, c\<lparr>inbox := evs\<rparr>)" by (auto simp: defs)
  }
  define k where "k = unat n"
  assume "unat n < 8" "unat n - 4 \<le> length rest"
  then have n: "k < 8" "k - 4 \<le> length rest" and i: "sint n = int k"
    using sint_small [of n] by (simp_all add: k_def)
  show "sr_read_from_server c = Undefined"
  proof (cases "k < 4")
    case True
    then show ?thesis using i by (simp add: defs)
  next
    case False
    obtain body evs' where r2: "read_loop (k - 4) [] evs = ReadAll body evs'" "length body = k - 4"
      using read_loop_complete [OF r1(3), of "[]" "k - 4"] n(2) r1(2) by auto
    have "nat (int k - 4) = k - 4" by (simp add: nat_diff_distrib)
    moreover have "rd32 4 (bytes32 (htonl n) @ body) = None"
      using r2(2) n(1) False by (intro rd_None) simp
    ultimately show ?thesis using i r2(1) n False by (simp add: defs)
  qed
qed

end
