(* ===== verification/SR_Commands.thy ===== *)
theory SR_Commands
  imports SR_Vns
begin

text \<open>
  What the handlers of the VNS commands do: the hardware description builds the interface list, the
  authentication request is answered with the salted hash of the key, and ARP requests for other
  routers are filtered.
\<close>

section \<open>Hardware description\<close>

text \<open>The message a server sends for a list of interfaces: name, address and IP of each.\<close>

definition pad32 :: "buf \<Rightarrow> buf" where
  "pad32 b = b @ replicate (32 - length b) 0"

definition hw_item :: "u32 \<Rightarrow> buf \<Rightarrow> buf" where
  "hw_item key v = bytes32 (htonl key) @ pad32 v"

fun iface_items :: "string \<times> buf \<times> u32 \<Rightarrow> buf" where
  "iface_items (name, mac, ip) =
     hw_item 1 (map of_char name) @ hw_item 32 mac @ hw_item 64 (bytes32 ip)"

fun iface_ok :: "string \<times> buf \<times> u32 \<Rightarrow> bool" where
  "iface_ok (name, mac, ip) \<longleftrightarrow> length name \<le> 32 \<and> CHR 0x00 \<notin> set name \<and> length mac = 6"

definition hw_message :: "(string \<times> buf \<times> u32) list \<Rightarrow> buf" where
  "hw_message l = host_command 16 (concat (map iface_items l))"

text \<open>The interfaces it describes; the speed is what the memory held.\<close>

fun described :: "(nat \<Rightarrow> sr_if) \<Rightarrow> nat \<Rightarrow> (string \<times> buf \<times> u32) list \<Rightarrow> sr_if list" where
  "described if_mem k [] = []"
| "described if_mem k ((name, mac, ip) # l) =
     \<lparr>if_name = name, if_addr = mac, if_ip = ip, if_speed = if_speed (if_mem k)\<rparr> #
     described if_mem (k + 1) l"

lemma unat_of_char: "unat (of_char c :: u8) = of_char c"
proof -
  have "unat (of_nat (of_char c) :: u8) = of_char c" by (simp add: unat_of_nat take_bit_eq_mod)
  then show ?thesis by (simp only: of_nat_of_char)
qed

lemma field_str_chars:
  "CHR 0x00 \<notin> set name \<Longrightarrow> field_str (map of_char name @ replicate n 0) = name"
proof (induction name)
  case Nil
  then show ?case by (cases n) (simp_all add: field_str_def)
next
  case (Cons ch name)
  have "(of_char ch :: u8) \<noteq> 0"
  proof
    assume "(of_char ch :: u8) = 0"
    then have "(of_char ch :: nat) = of_char (CHR 0x00)"
      using unat_of_char [of ch] by (simp add: of_char_def)
    then have "ch = CHR 0x00" by (rule of_char_eqI)
    then show False using Cons.prems by simp
  qed
  then show ?case using Cons by (simp add: field_str_def unat_of_char)
qed

lemma length_pad32: "length b \<le> 32 \<Longrightarrow> length (pad32 b) = 32"
  by (simp add: pad32_def)

lemma length_hw_item: "length v \<le> 32 \<Longrightarrow> length (hw_item key v) = 36"
  by (simp add: hw_item_def length_pad32)

lemma length_iface_items: "iface_ok x \<Longrightarrow> length (iface_items x) = 108"
  by (cases x) (auto simp: length_hw_item)

lemma length_items: "\<forall>x \<in> set l. iface_ok x \<Longrightarrow> length (concat (map iface_items l)) = 108 * length l"
  by (induction l) (simp_all add: length_iface_items)

lemma hw_entry_item:
  assumes "length v \<le> 32"
  shows "hw_entry g (hw_item key v @ rest) ifs =
    (if key = 1 then Some (sr_add_interface (g (length ifs)) ifs (field_str (pad32 v)))
     else if key = 64 then do { ip \<leftarrow> rd32 0 (pad32 v); sr_set_ether_ip ifs ip }
     else if key = 32 then sr_set_ether_addr ifs (pad32 v)
     else Some ifs)"
proof -
  have "rd32 0 (hw_item key v @ rest) = Some (htonl key)"
    by (simp add: hw_item_def rd32_bytes32)
  moreover have "rd_bytes 4 32 (hw_item key v @ rest) = Some (pad32 v)"
    using length_pad32 [OF assms] by (simp add: rd_bytes_def hw_item_def)
  ultimately show ?thesis by (simp add: hw_entry_def)
qed

lemma hwinfo_interface:
  assumes "iface_ok (name, mac, ip)"
  shows "hwinfo_loop g (Suc (Suc (Suc n))) (iface_items (name, mac, ip) @ rest) ifs =
    hwinfo_loop g n rest (ifs @ described g (length ifs) [(name, mac, ip)])"
proof -
  have m: "length mac = 6" and nm: "length name \<le> 32" "field_str (pad32 (map of_char name)) = name"
    using assms field_str_chars by (auto simp: pad32_def)
  have mac: "sr_set_ether_addr ifs' (pad32 mac) = sr_set_ether_addr ifs' mac" for ifs'
    using m by (simp add: sr_set_ether_addr_def mem pad32_def)
  have ip: "rd32 0 (pad32 (bytes32 ip)) = Some ip" by (simp add: pad32_def rd32_bytes32)
  have "\<exists>l1. sr_set_ether_addr (sr_add_interface (g (length ifs)) ifs name) mac = Some l1 \<and> l1 \<noteq> []"
    using m by (simp add: sr_set_ether_addr_def sr_add_interface_def mem Let_def)
  then obtain l1 where l1: "sr_set_ether_addr (sr_add_interface (g (length ifs)) ifs name) mac = Some l1"
    "l1 \<noteq> []"
    by blast
  then obtain l2 where l2: "sr_set_ether_ip l1 ip = Some l2" by (auto simp: sr_set_ether_ip_def)
  have "l2 = ifs @ described g (length ifs) [(name, mac, ip)]"
    using configure_interface [OF m l1(1) l2] nm(1) by simp
  then show ?thesis
    using m nm by (simp add: hw_entry_item mac ip l1(1) l2 length_hw_item)
qed

lemma described_append:
  "described g k (xs @ ys) = described g k xs @ described g (k + length xs) ys"
  by (induction g k xs rule: described.induct) simp_all

lemma length_described: "length (described g k l) = length l"
  by (induction g k l rule: described.induct) simp_all

lemma hwinfo_loop_builds:
  assumes "\<forall>x \<in> set l. iface_ok x"
  shows "hwinfo_loop g (3 * length l) (concat (map iface_items l)) ifs =
    Some (ifs @ described g (length ifs) l)"
  using assms
proof (induction l arbitrary: ifs)
  case (Cons x l)
  obtain name mac ip where x: "x = (name, mac, ip)" by (cases x)
  have ok: "iface_ok (name, mac, ip)" using Cons.prems by (simp add: x)
  have "hwinfo_loop g (Suc (Suc (Suc (3 * length l))))
      (iface_items (name, mac, ip) @ concat (map iface_items l)) ifs =
    Some (ifs @ described g (length ifs) ((name, mac, ip) # l))"
    unfolding hwinfo_interface [OF ok] using Cons.IH Cons.prems by simp
  moreover have "3 * length (x # l) = Suc (Suc (Suc (3 * length l)))" by simp
  ultimately show ?case by (simp only: x list.map concat.simps)
qed simp

text \<open>The number of entries, as the code computes it.\<close>

lemma entry_count:
  assumes "8 + 108 * k < 2 ^ 31"
  shows "sint (ucast ((ucast (of_nat (108 * k + 8) :: u32) - 8 :: 64 word) div 36) :: u32) = int (3 * k)"
proof -
  have u: "unat (of_nat (108 * k + 8) :: u32) = 108 * k + 8"
    using assms unat_of_nat [of "108 * k + 8", where ?'a = 32] by (simp del: of_nat_add of_nat_mult)
  have "(ucast (of_nat (108 * k + 8) :: u32) :: 64 word) = of_nat (108 * k + 8)"
    by (metis u of_nat_unat)
  then have m: "(ucast (of_nat (108 * k + 8) :: u32) - 8 :: 64 word) = of_nat (108 * k)"
    by simp
  have "unat (of_nat (108 * k) :: 64 word) = 108 * k"
    using assms unat_of_nat [of "108 * k", where ?'a = 64] by (simp del: of_nat_mult)
  then have "unat ((of_nat (108 * k) :: 64 word) div 36) = 3 * k" by (simp add: unat_div)
  then have d: "(of_nat (108 * k) :: 64 word) div 36 = of_nat (3 * k)"
    by (metis of_nat_unat ucast_id)
  have v: "unat (of_nat (3 * k) :: u32) = 3 * k"
    using assms unat_of_nat [of "3 * k", where ?'a = 32] by (simp del: of_nat_mult)
  have "(ucast (of_nat (3 * k) :: 64 word) :: u32) = of_nat (3 * k)"
    by (metis \<open>unat (of_nat (108 * k) div 36) = 3 * k\<close> d of_nat_unat)
  moreover have "sint (of_nat (3 * k) :: u32) = int (unat (of_nat (3 * k) :: u32))"
    by (rule sint_small) (use v assms in simp)
  ultimately show ?thesis unfolding m d using v by (simp only:)
qed

lemma hwinfo_builds:
  assumes "\<forall>x \<in> set l. iface_ok x" "8 + 108 * length l < 2 ^ 31"
  shows "sr_handle_hwinfo c (hw_message l) = Some (int (3 * length l), c\<lparr>router := (router c)\<lparr>if_list :=
    if_list (router c) @ described (if_memory c) (length (if_list (router c))) l\<rparr>\<rparr>)"
proof -
  have r: "rd32 0 (hw_message l) = Some (htonl (of_nat (108 * length l + 8)))"
    by (simp add: hw_message_def host_command_def rd32_bytes32 length_items [OF assms(1)] del: of_nat_add of_nat_mult)
  have d: "drop 8 (hw_message l) = concat (map iface_items l)"
    by (simp add: hw_message_def host_command_def)
  show ?thesis
    unfolding sr_handle_hwinfo_def r
    using hwinfo_loop_builds [OF assms(1)] entry_count [OF assms(2)] by (simp add: d del: of_nat_add of_nat_mult)
qed

text \<open>The routing table is accepted when every route names an interface.\<close>

lemma count_missing_ge: "0 \<le> count_missing ifs rt"
  by (induction ifs rt rule: count_missing.induct) simp_all

lemma count_missing_zero:
  "count_missing ifs rt = 0 \<longleftrightarrow>
    (\<forall>r \<in> set rt. \<exists>i \<in> set ifs. strn_eq (if_name i) (rt_interface r) 32)"
proof (induction ifs rt rule: count_missing.induct)
  case (2 ifs r rest)
  then show ?case using count_missing_ge [of ifs rest] by (auto simp: list_ex_iff)
qed simp

lemma verify_routing_table:
  "sr_verify_routing_table sr = 0 \<longleftrightarrow> if_list sr \<noteq> [] \<and> routing_table sr \<noteq> [] \<and>
    (\<forall>r \<in> set (routing_table sr). \<exists>i. sr_get_interface (if_list sr) (rt_interface r) = Some i)"
proof -
  have "(\<exists>i \<in> set ifs. strn_eq (if_name i) n 32) \<longleftrightarrow> (\<exists>i. sr_get_interface ifs n = Some i)" for ifs n
    unfolding sr_get_interface_def
    by (metis find_None_iff find_SomeD not_None_eq)
  then show ?thesis by (auto simp: sr_verify_routing_table_def count_missing_zero)
qed

section \<open>Authentication\<close>

text \<open>The digest as it is sent, and the 64 bytes of the key array that are hashed.\<close>

definition sha1_bytes :: "buf \<Rightarrow> buf" where
  "sha1_bytes xs = concat (map (\<lambda>w. bytes32 (htonl w)) (sha1_digest xs))"

definition key_bytes :: "buf \<Rightarrow> buf \<Rightarrow> buf" where
  "key_bytes memory kf =
     (let line = fgets_bytes 64 kf in take 64 (line @ [0] @ drop (length line + 1) memory))"

definition auth_reply :: "string \<Rightarrow> buf \<Rightarrow> buf" where
  "auth_reply name digest = bytes32 (htonl (of_nat (32 + length name))) @ bytes32 (htonl 256) @
     bytes32 (htonl (of_nat (length name))) @ map of_char name @ digest"

lemma fgets_length: "length (fgets_bytes n kf) \<le> n"
  by (induction n kf rule: fgets_bytes.induct) simp_all

lemma fgets_prefix: "10 \<notin> set (take n kf) \<Longrightarrow> fgets_bytes n kf = take n kf"
  by (induction n kf rule: fgets_bytes.induct) auto

lemma key_bytes_full:
  assumes "64 \<le> length kf" "10 \<notin> set (take 64 kf)"
  shows "key_bytes memory kf = take 64 kf"
  using assms by (simp add: key_bytes_def fgets_prefix Let_def)

lemma length_sha1_bytes: "length (sha1_bytes xs) = 20"
  by (simp add: sha1_bytes_def length_concat o_def sum_list_triv)

lemma sha1_two:
  assumes "length (Message_Block c) = 64" "length a + 64 < 2 ^ 32" "64 \<le> length b"
  shows "\<exists>c1 c2 c3. SHA1Input (SHA1Reset c) a (of_nat (length a)) = Some c1 \<and>
    SHA1Input c1 b 64 = Some c2 \<and> SHA1Result c2 = Some (True, c3) \<and>
    Message_Digest c3 = sha1_digest (a @ take 64 b)"
proof -
  have "length a < 2 ^ 32" "length a + 64 < 2 ^ 61" using assms(2) by simp_all
  from sha.two_pieces [of c "length a" a 64 b, OF assms(1) _ assms(3) this(1) _ this(2)]
  show ?thesis using sha1_result_Some by (fastforce simp: sha1_input_def)
qed

lemma digest_bytes:
  assumes "d = sha1_digest xs"
  shows "concat (map (\<lambda>i. bytes32 (htonl (d ! i))) [0, 1, 2, 3, 4]) = sha1_bytes xs"
proof -
  obtain v w x y z where d: "d = [v, w, x, y, z]"
    using length_sha1_digest [of xs] assms
    by (auto simp: length_Suc_conv numeral_eq_Suc simp del: length_sha1_digest)
  have "sha1_bytes xs = concat (map (\<lambda>w. bytes32 (htonl w)) d)" by (simp only: sha1_bytes_def assms)
  then show ?thesis by (simp add: d)
qed

lemma auth_request_answered:
  assumes "auth_key_file c = Some kf" "kf \<noteq> []" "length (stack_bytes c) = 65"
    and "length (Message_Block (sha1_memory c)) = 64" "length (user (router c)) < 32"
    and "rd32 0 req = Some (htonl (of_nat (length req)))" "8 \<le> length req" "length req + 64 < 2 ^ 32"
    and "sock_ok (router c)"
  shows "sr_handle_auth_request c req = Some (1, c\<lparr>router := (router c)\<lparr>wire := wire (router c) @
    [auth_reply (user (router c)) (sha1_bytes (drop 8 req @ key_bytes (stack_bytes c) kf))]\<rparr>\<rparr>)"
proof -
  define line where "line = fgets_bytes 64 kf"
  have ne: "line \<noteq> []" using assms(2) by (cases kf) (simp_all add: line_def numeral_eq_Suc)
  define key where "key = line @ [0] @ drop (length line + 1) (stack_bytes c)"
  have lk: "64 \<le> length key" using assms(3) by (simp add: key_def)
  have tk: "take 64 key = key_bytes (stack_bytes c) kf" by (simp add: key_def key_bytes_def line_def Let_def)
  have len: "(of_nat (length req) - 8 :: u32) = of_nat (length (drop 8 req))"
    using assms(7) by (simp add: of_nat_diff)
  obtain c1 c2 c3 where s: "SHA1Input (SHA1Reset (sha1_memory c)) (drop 8 req) (of_nat (length req) - 8) = Some c1"
    "SHA1Input c1 key 64 = Some c2" "SHA1Result c2 = Some (True, c3)"
    "Message_Digest c3 = sha1_digest (drop 8 req @ take 64 key)"
  proof -
    have "length (drop 8 req) + 64 < 2 ^ 32" using assms(8) by simp
    from sha1_two [OF assms(4) this lk] that show ?thesis unfolding len by blast
  qed
  define name where "name = user (router c)"
  define msg where "msg = auth_reply name (sha1_bytes (drop 8 req @ key_bytes (stack_bytes c) kf))"
  have lm: "length msg = 32 + length name" by (simp add: msg_def auth_reply_def length_sha1_bytes)
  have send: "sock_send (router c) msg = (int (length msg), (router c)\<lparr>wire := wire (router c) @ [msg]\<rparr>)"
    using assms(9) by (simp add: sock_send_def sock_ok_def)
  have s2: "SHA1Input c1 (line @ 0 # drop (Suc (length line)) (stack_bytes c)) 64 = Some c2"
    using s(2) by (simp add: key_def)
  have "sr_handle_auth_request c req =
      (let (ret, sr) = sock_send (router c) msg
       in Some (if ret = int (12 + length name + 20) then 1 else 0, c\<lparr>router := sr\<rparr>))"
    using ne assms(5)
    by (simp add: sr_handle_auth_request_def assms(1) line_def [symmetric] Let_def
        assms(6) s(1,3) s2 digest_bytes [OF s(4), unfolded One_nat_def] tk user_str_def name_def [symmetric] msg_def auth_reply_def
        del: list.map concat.simps)
  then show ?thesis by (simp add: send lm) (simp add: msg_def name_def)
qed

section \<open>ARP requests for other routers\<close>

text \<open>The handlers never see an ARP request for an address that is not the interface's.\<close>

lemma foreign_arp_dropped:
  assumes "cstr (drop 8 msg) = Some iface" "sr_get_interface (if_list (router c)) iface = Some i"
    and "42 \<le> unat (word_of_int (len - 24) :: u32)"
    and "rd16 12 (drop 24 msg) = Some (htons ethertype_arp)" "rd16 20 (drop 24 msg) = Some (htons arp_op_request)"
    and "rd32 38 (drop 24 msg) = Some tip" "tip \<noteq> if_ip i"
  shows "packet_command c msg len = Some (1, c)"
proof -
  have "len - 38 + 14 = len - 24" by simp
  then show ?thesis
    using assms by (simp add: packet_command_def sr_arp_req_not_for_us_def Let_def)
qed

end
