(* ===== verification/SR_Main.thy ===== *)
theory SR_Main
  imports SR_Commands SR_System
begin

text \<open>
  \<open>sr_main.c\<close>: the command line, the start of the program and its main loop.

  \<open>getopt\<close> is the C library's: its results are a list of option letters with their arguments.  The
  files of the machine, \<open>inet_aton\<close>, what \<open>getpwuid\<close> returns and how the network calls end are
  arguments of the definitions that use them.
\<close>

section \<open>The command line\<close>

record main_options =
  opt_host :: string
  opt_user :: "string option"
  opt_server :: string
  opt_rtable :: string
  opt_template :: "string option"
  opt_port :: u32
  opt_topo :: u32
  opt_logfile :: "string option"
  opt_icmp_query_to :: u32
  opt_tcp_estab_idle_to :: u32
  opt_tcp_transitory_to :: u32
  opt_nat_enabled :: bool

definition default_options :: main_options where
  "default_options = \<lparr>opt_host = ''vrhost'', opt_user = None, opt_server = ''localhost'',
     opt_rtable = ''rtable'', opt_template = None, opt_port = 8888, opt_topo = 0, opt_logfile = None,
     opt_icmp_query_to = DEFAULT_ICMP_QUERY_TO, opt_tcp_estab_idle_to = DEFAULT_TCP_ESTABLISHED_TO,
     opt_tcp_transitory_to = DEFAULT_TCP_TRANSITORY_TO, opt_nat_enabled = False\<rparr>"

text \<open>
  \<open>atoi\<close>: white space, a sign, digits; not defined when the value does not fit an \<open>int\<close>.
\<close>

definition isdigit :: "char \<Rightarrow> bool" where
  "isdigit ch \<longleftrightarrow> ch \<in> set ''0123456789''"

definition digit_value :: "char \<Rightarrow> int" where
  "digit_value ch = of_char ch - 48"

definition digits_value :: "string \<Rightarrow> int" where
  "digits_value s = foldl (\<lambda>v ch. 10 * v + digit_value ch) 0 (takeWhile isdigit s)"

definition atoi :: "string \<Rightarrow> int option" where
  "atoi s =
     (let s = dropWhile isspace s;
          v = (case s of
                 ch # t \<Rightarrow> if ch = CHR ''-'' then - digits_value t
                           else if ch = CHR ''+'' then digits_value t else digits_value s
               | [] \<Rightarrow> 0)
      in if - (2 ^ 31) \<le> v \<and> v < 2 ^ 31 then Some v else None)"

text \<open>
  One option of the \<open>switch\<close>: the last three cases have no \<open>break\<close>, so each falls into the next.
\<close>

definition main_option :: "char \<Rightarrow> string \<Rightarrow> main_options \<Rightarrow> main_options option" where
  "main_option ch optarg opts =
     (if ch = CHR ''p'' then map_option (\<lambda>v. opts\<lparr>opt_port := word_of_int v\<rparr>) (atoi optarg)
      else if ch = CHR ''t'' then map_option (\<lambda>v. opts\<lparr>opt_topo := word_of_int v\<rparr>) (atoi optarg)
      else if ch = CHR ''v'' then Some (opts\<lparr>opt_host := optarg\<rparr>)
      else if ch = CHR ''u'' then Some (opts\<lparr>opt_user := Some optarg\<rparr>)
      else if ch = CHR ''s'' then Some (opts\<lparr>opt_server := optarg\<rparr>)
      else if ch = CHR ''l'' then Some (opts\<lparr>opt_logfile := Some optarg\<rparr>)
      else if ch = CHR ''r'' then Some (opts\<lparr>opt_rtable := optarg\<rparr>)
      else if ch = CHR ''T'' then Some (opts\<lparr>opt_template := Some optarg\<rparr>)
      else if ch = CHR ''n'' then Some (opts\<lparr>opt_nat_enabled := True\<rparr>)
      else if ch = CHR ''I'' then
        map_option (\<lambda>v. opts\<lparr>opt_icmp_query_to := word_of_int v, opt_tcp_estab_idle_to := word_of_int v,
                            opt_tcp_transitory_to := word_of_int v\<rparr>) (atoi optarg)
      else if ch = CHR ''E'' then
        map_option (\<lambda>v. opts\<lparr>opt_tcp_estab_idle_to := word_of_int v,
                            opt_tcp_transitory_to := word_of_int v\<rparr>) (atoi optarg)
      else if ch = CHR ''R'' then
        map_option (\<lambda>v. opts\<lparr>opt_tcp_transitory_to := word_of_int v\<rparr>) (atoi optarg)
      else Some opts)"

text \<open>The loop over the options; \<open>-h\<close> ends the program with status 0 (\<open>Inl\<close>).\<close>

fun option_loop :: "(char \<times> string) list \<Rightarrow> main_options \<Rightarrow> (int + main_options) option" where
  "option_loop [] opts = Some (Inr opts)"
| "option_loop ((ch, optarg) # rest) opts =
     (if ch = CHR ''h'' then Some (Inl 0)
      else do {
        opts \<leftarrow> main_option ch optarg opts;
        option_loop rest opts
      })"

text \<open>
  \<open>getopt\<close> only returns letters of the option string it is given, \<open>"hs:v:p:u:t:r:l:T:n"\<close>, and \<open>?\<close>.  The
  letters of the three timeouts are not among them: the timeouts keep their defaults.
\<close>

lemma main_option_keeps_timeouts:
  assumes "main_option ch optarg opts = Some opts'" "ch \<in> set ''svputrlTn?''"
  shows "opt_icmp_query_to opts' = opt_icmp_query_to opts"
    "opt_tcp_estab_idle_to opts' = opt_tcp_estab_idle_to opts"
    "opt_tcp_transitory_to opts' = opt_tcp_transitory_to opts"
  using assms by (auto simp: main_option_def split: if_splits)

lemma options_keep_timeouts:
  assumes "option_loop args opts = Some (Inr opts')" "fst ` set args \<subseteq> set ''hsvputrlTn?''"
  shows "opt_icmp_query_to opts' = opt_icmp_query_to opts \<and>
    opt_tcp_estab_idle_to opts' = opt_tcp_estab_idle_to opts \<and>
    opt_tcp_transitory_to opts' = opt_tcp_transitory_to opts"
  using assms
proof (induction args opts rule: option_loop.induct)
  case (2 ch optarg rest opts)
  show ?case
  proof (cases "ch = CHR ''h''")
    case False
    then obtain o1 where o: "main_option ch optarg opts = Some o1" "option_loop rest o1 = Some (Inr opts')"
      using 2(2) by (auto simp: Option.bind_eq_Some_conv)
    have "ch \<in> set ''svputrlTn?''" using 2(3) False by auto
    then show ?thesis
      using main_option_keeps_timeouts [OF o(1)] 2(1) [OF False o] 2(3) by auto
  qed (use 2(2) in simp)
qed simp

section \<open>The start of the program\<close>

definition sr_init_instance :: "sr_instance \<Rightarrow> bool \<Rightarrow> sr_instance" where
  "sr_init_instance sr enabled =
     sr\<lparr>user := '''', host := '''', topo_id := 0, if_list := [], routing_table := [], logfile := None,
        nat_enabled := enabled\<rparr>"

definition sr_set_user :: "sr_instance \<Rightarrow> string option \<Rightarrow> sr_instance" where
  "sr_set_user sr pw_name =
     (case pw_name of
        None \<Rightarrow> sr\<lparr>user := strncpy ''something_silly'' 32\<rparr>
      | Some name \<Rightarrow> sr\<lparr>user := strncpy name 32\<rparr>)"

lemma fgets_nonempty: "0 < n \<Longrightarrow> b \<noteq> [] \<Longrightarrow> fgets_bytes n b \<noteq> []"
  by (cases "(n, b)" rule: fgets_bytes.cases) simp_all

text \<open>The lines \<open>fgets\<close> reads from a file, with a buffer of \<open>BUFSIZ\<close> bytes.\<close>

function file_lines :: "buf \<Rightarrow> string list" where
  "file_lines b =
     (if b = [] then []
      else let line = fgets_bytes 8191 b in field_str line # file_lines (drop (length line) b))"
  by pat_completeness auto
termination
proof (relation "measure length")
  fix b :: buf and line
  assume b: "b \<noteq> []" "line = fgets_bytes 8191 b"
  then have "0 < length line" by (simp add: fgets_nonempty)
  then show "(drop (length line) b, b) \<in> measure length" using b(1) by simp
qed simp

declare file_lines.simps [simp del]

text \<open>A file as the program sees it: what the session wrote, or what was there.\<close>

definition open_file :: "(string \<Rightarrow> buf option) \<Rightarrow> vns_client \<Rightarrow> string \<Rightarrow> string list option" where
  "open_file disk c name =
     map_option file_lines
       (case map_of (rev (files c)) name of Some data \<Rightarrow> Some data | None \<Rightarrow> disk name)"

definition sr_load_rt_wrap ::
  "(string \<Rightarrow> u32 option) \<Rightarrow> (string \<Rightarrow> buf option) \<Rightarrow> vns_client \<Rightarrow> string \<Rightarrow> (int + vns_client) option" where
  "sr_load_rt_wrap inet_aton disk c rtable =
     do {
       (ret, rt) \<leftarrow> sr_load_rt inet_aton (open_file disk c rtable) (routing_table (router c));
       Some (if ret \<noteq> 0 then Inl 1
             else Inr (c\<lparr>router := (router c)\<lparr>routing_table := rt\<rparr>\<rparr>))
     }"

text \<open>What \<open>main\<close> takes from its surroundings.\<close>

record main_env =
  to_addr :: "string \<Rightarrow> u32 option"
  disk :: "string \<Rightarrow> buf option"
  pw_name :: "string option"
  net :: net_env

text \<open>
  \<open>main\<close> up to the connection: the routing table or the template, then the names and the log.  \<open>Inl\<close>
  is an exit status.
\<close>

definition main_table :: "main_env \<Rightarrow> main_options \<Rightarrow> vns_client \<Rightarrow> (int + vns_client) option" where
  "main_table env opts c =
     (case opt_template opts of
        None \<Rightarrow> sr_load_rt_wrap (to_addr env) (disk env) (c\<lparr>router := (router c)\<lparr>template := ''''\<rparr>\<rparr>)
                  (opt_rtable opts)
      | Some t \<Rightarrow> Some (Inr (c\<lparr>router := (router c)\<lparr>template := strncpy t 30\<rparr>\<rparr>)))"

definition main_names :: "main_env \<Rightarrow> main_options \<Rightarrow> vns_client \<Rightarrow> int + vns_client" where
  "main_names env opts c =
     (let sr = (router c)\<lparr>topo_id := ucast (opt_topo opts), host := strncpy (opt_host opts) 32\<rparr>;
          sr = (case opt_user opts of None \<Rightarrow> sr_set_user sr (pw_name env)
                                    | Some u \<Rightarrow> sr\<lparr>user := strncpy u 32\<rparr>)
      in case opt_logfile opts of
           None \<Rightarrow> Inr (c\<lparr>router := sr\<rparr>)
         | Some name \<Rightarrow>
             (case sr_dump_open (name = ''-'' \<or> can_write c name) 0 (word_of_int PACKET_DUMP_SIZE) of
                None \<Rightarrow> Inl 1
              | Some fp \<Rightarrow> Inr (c\<lparr>router := sr\<lparr>logfile := Some fp\<rparr>\<rparr>)))"

definition main_setup :: "main_env \<Rightarrow> main_options \<Rightarrow> vns_client \<Rightarrow> (int + vns_client) option" where
  "main_setup env opts c =
     do {
       res \<leftarrow> main_table env opts (c\<lparr>router := sr_init_instance (router c) (opt_nat_enabled opts)\<rparr>);
       Some (case res of Inl status \<Rightarrow> Inl status | Inr c \<Rightarrow> main_names env opts c)
     }"

text \<open>The connection, the table again, and \<open>sr_init\<close>.\<close>

definition main_connect :: "main_env \<Rightarrow> main_options \<Rightarrow> vns_client \<Rightarrow> (int + vns_client) io" where
  "main_connect env opts c =
     and_then (sr_connect_to_server (net env) c) (\<lambda>(r, c).
       if r = -1 then Returns (Inl 1)
       else and_then (defined (
         if opt_template opts \<noteq> None \<and> opt_rtable opts = ''rtable.vrhost''
         then sr_load_rt_wrap (to_addr env) (disk env) c ''rtable.vrhost''
         else sr_load_rt_wrap (to_addr env) (disk env) c (opt_rtable opts))) (\<lambda>res.
       case res of
         Inl status \<Rightarrow> Returns (Inl status)
       | Inr c \<Rightarrow> Returns (Inr (c\<lparr>router := sr_init (router c) (opt_icmp_query_to opts)
                   (opt_tcp_estab_idle_to opts) (opt_tcp_transitory_to opts)\<rparr>))))"

definition main_start :: "main_env \<Rightarrow> (char \<times> string) list \<Rightarrow> vns_client \<Rightarrow> (int + vns_client) io" where
  "main_start env args c =
     and_then (defined (option_loop args default_options)) (\<lambda>res.
     case res of
       Inl status \<Rightarrow> Returns (Inl status)
     | Inr opts \<Rightarrow>
         and_then (defined (main_setup env opts c)) (\<lambda>res.
         case res of
           Inl status \<Rightarrow> Returns (Inl status)
         | Inr c \<Rightarrow> main_connect env opts c))"

end
