(* ===== verification/SR_Client.thy ===== *)
theory SR_Client
  imports SR_Main
begin

text \<open>
  A session of the client: what each command may change, the main loop, and the invariant of the
  router's tables in every state a session reaches, whatever the server sends and in whatever pieces.
\<close>

section \<open>What a command may change\<close>

lemma auth_request_keeps:
  assumes "sr_handle_auth_request c req = Some (r, c')"
  shows "\<exists>w. c' = c\<lparr>router := (router c)\<lparr>wire := w\<rparr>\<rparr>"
proof -
  have same: "c = c\<lparr>router := (router c)\<lparr>wire := wire (router c)\<rparr>\<rparr>" by simp
  from assms have "c' = c \<or> (\<exists>w. c' = c\<lparr>router := (router c)\<lparr>wire := w\<rparr>\<rparr>)"
    by (auto simp: sr_handle_auth_request_def sock_send_def Let_def Option.bind_eq_Some_conv
        split: option.splits if_splits prod.splits)
  then show ?thesis using same by metis
qed

lemma rtable_keeps:
  assumes "sr_handle_rtable c m = Some (r, c')"
  shows "\<exists>f. c' = c\<lparr>files := f\<rparr>"
proof -
  have same: "c = c\<lparr>files := files c\<rparr>" by simp
  from assms have "c' = c \<or> (\<exists>f. c' = c\<lparr>files := f\<rparr>)"
    by (auto simp: sr_handle_rtable_def Let_def Option.bind_eq_Some_conv split: if_splits)
  then show ?thesis using same by metis
qed

definition memory_ok :: "(nat \<Rightarrow> sr_if) \<Rightarrow> bool" where
  "memory_ok g \<longleftrightarrow> (\<forall>n. length (if_addr (g n)) = 6)"

lemma ifs_ok_last: "ifs_ok ifs \<Longrightarrow> ifs \<noteq> [] \<Longrightarrow> ifs_ok (butlast ifs) \<and> length (if_addr (last ifs)) = 6"
  by (auto simp: ifs_ok_def list_all_iff dest: in_set_butlastD)

lemma hw_entry_keeps:
  assumes "hw_entry g e ifs = Some ifs'" "memory_ok g" "ifs_ok ifs"
  shows "ifs_ok ifs'"
  using assms ifs_ok_last [OF assms(3)]
  by (auto simp: hw_entry_def sr_add_interface_def sr_set_ether_ip_def sr_set_ether_addr_def Let_def
      Option.bind_eq_Some_conv rd_bytes_def memory_ok_def ifs_ok_def split: if_splits)

lemma hwinfo_loop_keeps:
  "hwinfo_loop g n ents ifs = Some ifs' \<Longrightarrow> memory_ok g \<Longrightarrow> ifs_ok ifs \<Longrightarrow> ifs_ok ifs'"
  by (induction g n ents ifs rule: hwinfo_loop.induct)
    (auto simp: Option.bind_eq_Some_conv dest: hw_entry_keeps)

lemma hwinfo_keeps:
  assumes "sr_handle_hwinfo c m = Some (r, c')"
  shows "\<exists>ifs. c' = c\<lparr>router := (router c)\<lparr>if_list := ifs\<rparr>\<rparr> \<and>
    (memory_ok (if_memory c) \<longrightarrow> ifs_ok (if_list (router c)) \<longrightarrow> ifs_ok ifs)"
  using assms hwinfo_loop_keeps
  by (auto simp: sr_handle_hwinfo_def Let_def Option.bind_eq_Some_conv)

lemma packet_keeps:
  assumes "packet_command c m len = Some (r, c')"
  shows "\<exists>sr. c' = c\<lparr>router := sr\<rparr> \<and> only_tables (router c) sr \<and>
    (router_safe (router c) \<longrightarrow> length m < 2 ^ 30 \<longrightarrow> router_safe sr) \<and>
    (router_inv (router c) \<longrightarrow> nat_fits (nat_st sr) \<longrightarrow> length m < 2 ^ 30 \<longrightarrow> router_inv sr)"
proof -
  from assms consider "c' = c"
    | sr1 sr2 n k iface where "sr_log_packet (router c) (drop 24 m) n = Some sr1"
      "sr_handlepacket sr1 (drop 24 m) k iface = Some sr2" "c' = c\<lparr>router := sr2\<rparr>"
    by (auto simp: packet_command_def Let_def Option.bind_eq_Some_conv split: if_splits)
  then show ?thesis
  proof cases
    case 1
    have "c = c\<lparr>router := router c\<rparr>" by simp
    then show ?thesis using 1 only_tables_refl by blast
  next
    case 2
    have o: "only_output (router c) sr1" using sr_log_packet_output [OF 2(1)] by (rule emits_only_output)
    have t: "only_tables (router c) sr1" using o only_cache_output only_tables_cache by blast
    have inv: "router_inv sr1 \<longleftrightarrow> router_inv (router c)" "router_safe sr1 \<longleftrightarrow> router_safe (router c)"
      using only_output_same [OF o] by (simp_all add: router_inv_def router_safe_def)
    show ?thesis
      using 2(3) only_tables_trans [OF t sr_handlepacket_keeps(1) [OF 2(2)]]
        sr_handlepacket_keeps(2,3) [OF 2(2)] inv by auto
  qed
qed

lemma handle_command_keeps:
  assumes "handle_command c m len command = Some (r, c')"
  shows "inbox c' = inbox c" "if_memory c' = if_memory c"
    "memory_ok (if_memory c) \<Longrightarrow> router_safe (router c) \<Longrightarrow> length m < 2 ^ 30 \<Longrightarrow> router_safe (router c')"
    "memory_ok (if_memory c) \<Longrightarrow> router_inv (router c) \<Longrightarrow> nat_fits (nat_st (router c')) \<Longrightarrow>
      length m < 2 ^ 30 \<Longrightarrow> router_inv (router c')"
    "command \<in> {VNS_AUTH_REQUEST, VNS_AUTH_STATUS, VNS_RTABLE, VNSCLOSE} \<Longrightarrow>
      if_list (router c') = if_list (router c) \<and> nat_st (router c') = nat_st (router c)"
proof -
  consider (packet) "packet_command c m len = Some (r, c')" "command = 4"
    | (same) "c' = c"
    | (hwinfo) k where "sr_handle_hwinfo c m = Some (k, c')" "command = VNSHWINFO"
    | (rtable) k where "sr_handle_rtable c m = Some (k, c')"
    | (auth) k where "sr_handle_auth_request c m = Some (k, c')"
    using assms by (auto simp: handle_command_def Option.bind_eq_Some_conv split: if_splits)
  then have "inbox c' = inbox c \<and> if_memory c' = if_memory c \<and>
    (memory_ok (if_memory c) \<longrightarrow> router_safe (router c) \<longrightarrow> length m < 2 ^ 30 \<longrightarrow> router_safe (router c')) \<and>
    (memory_ok (if_memory c) \<longrightarrow> router_inv (router c) \<longrightarrow> nat_fits (nat_st (router c')) \<longrightarrow>
      length m < 2 ^ 30 \<longrightarrow> router_inv (router c')) \<and>
    (command \<in> {VNS_AUTH_REQUEST, VNS_AUTH_STATUS, VNS_RTABLE, VNSCLOSE} \<longrightarrow>
      if_list (router c') = if_list (router c) \<and> nat_st (router c') = nat_st (router c))"
  proof cases
    case packet
    then show ?thesis using packet_keeps [OF packet(1)] by auto
  next
    case hwinfo
    then show ?thesis using hwinfo_keeps [OF hwinfo(1)] by (auto simp: router_inv_def router_safe_def)
  next
    case rtable
    then show ?thesis using rtable_keeps [OF rtable] by auto
  next
    case auth
    then show ?thesis using auth_request_keeps [OF auth] by (auto simp: router_inv_def router_safe_def)
  qed simp
  then show "inbox c' = inbox c" "if_memory c' = if_memory c"
    "memory_ok (if_memory c) \<Longrightarrow> router_safe (router c) \<Longrightarrow> length m < 2 ^ 30 \<Longrightarrow> router_safe (router c')"
    "memory_ok (if_memory c) \<Longrightarrow> router_inv (router c) \<Longrightarrow> nat_fits (nat_st (router c')) \<Longrightarrow>
      length m < 2 ^ 30 \<Longrightarrow> router_inv (router c')"
    "command \<in> {VNS_AUTH_REQUEST, VNS_AUTH_STATUS, VNS_RTABLE, VNSCLOSE} \<Longrightarrow>
      if_list (router c') = if_list (router c) \<and> nat_st (router c') = nat_st (router c)"
    by blast+
qed

lemma and_then_Returns: "and_then x f = Returns b \<longleftrightarrow> (\<exists>a. x = Returns a \<and> f a = Returns b)"
  by (cases x) simp_all

lemma defined_Returns [simp]: "defined x = Returns a \<longleftrightarrow> x = Some a"
  by (simp add: defined_def split: option.split)

text \<open>A call that returns has failed to read or was refused, or has handled one command.\<close>

lemma read_expect_cases:
  assumes "sr_read_from_server_expect c expected = Returns (r, c')"
  shows "(r = -1 \<and> (\<exists>evs. c' = c\<lparr>inbox := evs\<rparr>)) \<or>
    (\<exists>evs msg len command. inbox_size evs < inbox_size (inbox c) \<and> length msg \<le> 10000 \<and>
       (expected \<noteq> 0 \<longrightarrow> command = expected \<or> command = VNSCLOSE) \<and>
       handle_command (c\<lparr>inbox := evs\<rparr>) msg len command = Some (r, c'))"
proof (cases "r = -1 \<and> (\<exists>evs. c' = c\<lparr>inbox := evs\<rparr>)")
  case False
  from assms obtain start evs1 nlen where 1: "read_loop 4 [] (inbox c) = ReadAll start evs1"
    "rd32 0 start = Some nlen"
    using False by (auto simp: sr_read_from_server_expect_def and_then_Returns split: read_result.splits)
  define n where "n = sint (ntohl nlen)"
  have n: "4 \<le> n" "n \<le> 10000"
    using assms False by (auto simp: sr_read_from_server_expect_def and_then_Returns 1 Let_def n_def
        defined_def split: if_splits)
  then obtain rest evs2 ntype where 2: "read_loop (nat (n - 4)) [] evs1 = ReadAll rest evs2"
    "rd32 4 (start @ rest) = Some ntype"
    using assms False
    by (auto simp: sr_read_from_server_expect_def and_then_Returns 1 Let_def n_def [symmetric]
        split: read_result.splits)
  define command where "command = sint (ntohl ntype)"
  have e: "expected = 0 \<or> command = expected \<or> command = VNSCLOSE"
    using assms False n
    by (auto simp: sr_read_from_server_expect_def and_then_Returns 1 2 Let_def n_def [symmetric]
        command_def [symmetric] split: if_splits)
  obtain msg where 3: "wr32 4 (ntohl ntype) (start @ rest) = Some msg"
    "handle_command (c\<lparr>inbox := evs2\<rparr>) msg n command = Some (r, c')"
    using assms False n e
    by (auto simp: sr_read_from_server_expect_def and_then_Returns 1 2 Let_def n_def [symmetric]
        command_def [symmetric] split: if_splits)
  have "length msg = length start + length rest" using 3(1) by (auto simp: wr32_def split: if_splits)
  then have "length msg \<le> 10000"
    using read_loop_length [OF 1(1)] read_loop_length [OF 2(1)] n by simp
  moreover have "inbox_size evs2 < inbox_size (inbox c)"
    using read_loop_size [OF 1(1)] read_loop_size [OF 2(1)] by simp
  ultimately show ?thesis using e 3(2) by blast
qed simp

section \<open>The main loop\<close>

text \<open>
  \<open>while(sr_read_from_server(&sr) == 1);\<close>.  Every command takes at least its length field from the
  stream, so on what has arrived the loop ends: it returns, waits for more, or is not defined.
\<close>

lemma read_returns_smaller:
  assumes "sr_read_from_server c = Returns (1, c')"
  shows "inbox_size (inbox c') < inbox_size (inbox c)"
  using read_expect_cases [OF assms [unfolded sr_read_from_server_def]] handle_command_keeps(1) by fastforce

function main_loop :: "vns_client \<Rightarrow> vns_client io" where
  "main_loop c =
     (case sr_read_from_server c of
        Undefined \<Rightarrow> Undefined
      | Waiting \<Rightarrow> Waiting
      | Returns (r, c') \<Rightarrow> if r = 1 then main_loop c' else Returns c')"
  by pat_completeness auto
termination
  by (relation "measure (\<lambda>c. inbox_size (inbox c))") (auto dest: read_returns_smaller)

declare main_loop.simps [simp del]

section \<open>Sessions\<close>

text \<open>
  A session starts where \<open>main\<close> enters its loop.  Then commands are read, more bytes arrive, and the
  timer threads and the clock take their steps.
\<close>

inductive client_step :: "vns_client \<Rightarrow> vns_client \<Rightarrow> bool" where
  command: "sr_read_from_server c = Returns (r, c') \<Longrightarrow> client_step c c'"
| arrival: "client_step c (c\<lparr>inbox := inbox c @ evs\<rparr>)"
| timer: "sr_arpcache_timeout (router c) = Some sr \<or> sr_nat_timeout (router c) = Some sr \<Longrightarrow>
    client_step c (c\<lparr>router := sr\<rparr>)"
| tick: "clock (router c) \<le> t \<Longrightarrow> client_step c (c\<lparr>router := (router c)\<lparr>clock := t, clock_usec := u\<rparr>\<rparr>)"
| socket: "client_step c (c\<lparr>router := (router c)\<lparr>sock_write := w\<rparr>\<rparr>)"

inductive client_start :: "vns_client \<Rightarrow> bool" where
  started: "memory_ok (if_memory c0) \<Longrightarrow>
    unsol_pkt (nat_st (router c0)) = None \<or> unsol_pkt (nat_st (router c0)) = Some [] \<Longrightarrow>
    main_start env args c0 = Returns (Inr c) \<Longrightarrow> client_start c"

text \<open>Before the loop: no interface yet, and the NAT's memory as it was.\<close>

definition at_start :: "vns_client \<Rightarrow> vns_client \<Rightarrow> bool" where
  "at_start c0 c \<longleftrightarrow> if_list (router c) = [] \<and> nat_st (router c) = nat_st (router c0) \<and>
     if_memory c = if_memory c0"

text \<open>An operation all of whose results leave the client as at the start.\<close>

definition stays :: "vns_client \<Rightarrow> (int \<times> vns_client) io \<Rightarrow> bool" where
  "stays c0 x \<longleftrightarrow> (\<forall>r c. x = Returns (r, c) \<longrightarrow> at_start c0 c)"

lemma stays_Returns: "at_start c0 c \<Longrightarrow> stays c0 (Returns (r, c))"
  by (simp add: stays_def)

lemma stays_bind:
  assumes "stays c0 x" "\<And>r c. at_start c0 c \<Longrightarrow> stays c0 (f (r, c))"
  shows "stays c0 (and_then x f)"
  using assms by (cases x) (auto simp: stays_def)

lemma expect_stays:
  assumes "at_start c0 c" "e \<in> {VNS_AUTH_REQUEST, VNS_AUTH_STATUS, VNS_RTABLE}"
  shows "stays c0 (sr_read_from_server_expect c e)"
  unfolding stays_def
proof (intro allI impI)
  fix r c' assume r: "sr_read_from_server_expect c e = Returns (r, c')"
  consider evs where "c' = c\<lparr>inbox := evs\<rparr>"
    | evs msg len command where "handle_command (c\<lparr>inbox := evs\<rparr>) msg len command = Some (r, c')"
      "command = e \<or> command = VNSCLOSE"
    using read_expect_cases [OF r] assms(2) by auto
  then show "at_start c0 c'"
  proof cases
    case 2
    have "command \<in> {VNS_AUTH_REQUEST, VNS_AUTH_STATUS, VNS_RTABLE, VNSCLOSE}"
      using 2(2) assms(2) by auto
    then show ?thesis
      using handle_command_keeps(2,5) [OF 2(1)] assms(1) by (simp add: at_start_def)
  qed (use assms(1) in \<open>simp add: at_start_def\<close>)
qed

lemma sock_send_start:
  "at_start c0 c \<Longrightarrow> at_start c0 (c\<lparr>router := snd (sock_send (router c) msg)\<rparr>)"
  by (simp add: sock_send_def at_start_def Let_def)

lemma sock_send_stays:
  assumes "at_start c0 c" "\<And>sr ret. at_start c0 (c\<lparr>router := sr\<rparr>) \<Longrightarrow> stays c0 (f ret sr)"
  shows "stays c0 (let (ret, sr) = sock_send (router c) msg in f ret sr)"
  using assms sock_send_start [OF assms(1)] by (metis case_prod_beta)

lemma connect_stays:
  assumes "at_start c0 c"
  shows "stays c0 (sr_connect_to_server nw c)"
proof -
  have "stays c0 (let (ret, sr) = sock_send (router c) msg; c = c\<lparr>router := sr\<rparr>
      in if ret \<noteq> int (length msg) then Returns (-1, c)
      else if 0 < length (template (router c)) then
        and_then (sr_read_from_server_expect c VNS_RTABLE) (\<lambda>(r, c).
        if r \<noteq> 1 then Returns (-1, c) else Returns (0, c))
      else Returns (0, c))"
    if "at_start c0 c" for c msg
    using that by (intro sock_send_stays) (auto simp: Let_def intro!: stays_Returns stays_bind expect_stays)
  then have "stays c0 (let msg = open_message (router c); (ret, sr) = sock_send (router c) msg;
      c = c\<lparr>router := sr\<rparr>
      in if ret \<noteq> int (length msg) then Returns (-1, c)
      else if 0 < length (template (router c)) then
        and_then (sr_read_from_server_expect c VNS_RTABLE) (\<lambda>(r, c).
        if r \<noteq> 1 then Returns (-1, c) else Returns (0, c))
      else Returns (0, c))"
    if "at_start c0 c" for c
    using that by (simp only: Let_def)
  then show ?thesis
    unfolding sr_connect_to_server_def using assms
    by (auto simp del: Let_def intro!: stays_Returns stays_bind expect_stays)
qed

lemma load_rt_keeps:
  assumes "sr_load_rt_wrap at dk c name = Some (Inr c')" "at_start c0 c"
  shows "at_start c0 c'"
  using assms by (auto simp: sr_load_rt_wrap_def Option.bind_eq_Some_conv at_start_def split: if_splits)

lemma case_sum_eq:
  "(case x of Inl a \<Rightarrow> f a | Inr b \<Rightarrow> g b) = y \<longleftrightarrow>
    (\<exists>a. x = Inl a \<and> f a = y) \<or> (\<exists>b. x = Inr b \<and> g b = y)"
  by (cases x) auto

lemma setup_start:
  assumes "main_setup env opts c = Some (Inr c')"
  shows "at_start c c'"
proof -
  define c0 where "c0 = c\<lparr>router := sr_init_instance (router c) (opt_nat_enabled opts)\<rparr>"
  have c0: "at_start c c0" by (simp add: at_start_def c0_def sr_init_instance_def)
  obtain c1 where t: "main_table env opts c0 = Some (Inr c1)" and n: "main_names env opts c1 = Inr c'"
    using assms by (auto simp: main_setup_def Option.bind_eq_Some_conv c0_def case_sum_eq)
  have "at_start c c1"
  proof (cases "opt_template opts")
    case None
    have "at_start c (c0\<lparr>router := (router c0)\<lparr>template := []\<rparr>\<rparr>)" using c0 by (simp add: at_start_def)
    then show ?thesis using load_rt_keeps t None by (simp add: main_table_def)
  next
    case (Some n)
    then show ?thesis using t c0 by (auto simp: main_table_def at_start_def)
  qed
  then show ?thesis
    using n by (auto simp: main_names_def at_start_def sr_set_user_def Let_def split: option.splits)
qed

lemma start_init:
  assumes "main_start env args c0 = Returns (Inr c)"
  shows "\<exists>c1 a b d. at_start c0 c1 \<and> c = c1\<lparr>router := sr_init (router c1) a b d\<rparr>"
proof -
  obtain opts c1 where s: "main_setup env opts c0 = Some (Inr c1)"
    and m: "main_connect env opts c1 = Returns (Inr c)"
    using assms by (auto simp: main_start_def and_then_Returns case_sum_eq)
  obtain r c2 where k: "sr_connect_to_server (net env) c1 = Returns (r, c2)"
    and l: "\<exists>c3 name. sr_load_rt_wrap (to_addr env) (disk env) c2 name = Some (Inr c3) \<and>
      c = c3\<lparr>router := sr_init (router c3) (opt_icmp_query_to opts) (opt_tcp_estab_idle_to opts)
        (opt_tcp_transitory_to opts)\<rparr>"
    using m by (auto simp: main_connect_def and_then_Returns case_sum_eq split: if_splits)
  have "at_start c0 c2" using connect_stays [OF setup_start [OF s]] k by (simp add: stays_def)
  then show ?thesis using l load_rt_keeps by blast
qed

section \<open>The invariant of a session\<close>

lemma client_start_inv:
  assumes "client_start c"
  shows "router_inv (router c) \<and> memory_ok (if_memory c)"
  using assms
proof cases
  case (started c0 env args)
  obtain c1 a b d where c: "at_start c0 c1" "c = c1\<lparr>router := sr_init (router c1) a b d\<rparr>"
    using start_init [OF started(3)] by blast
  have "unsol_small (nat_st (router c1))"
    using c(1) started(2) by (auto simp: at_start_def unsol_small_def)
  then have "router_inv (router c)"
    using c by (simp add: at_start_def ifs_ok_def router_inv_init)
  then show ?thesis using c started(1) by (simp add: at_start_def)
qed

text \<open>A step handles one command, is a step of the router, or concerns the stream only.\<close>

lemma client_step_cases:
  assumes "client_step c c'"
  obtains (command) evs msg len command r where "length msg < 2 ^ 30"
      "handle_command (c\<lparr>inbox := evs\<rparr>) msg len command = Some (r, c')"
  | (stream) evs where "c' = c\<lparr>inbox := evs\<rparr>"
  | (router) sr where "router_step (router c) sr" "c' = c\<lparr>router := sr\<rparr>"
  using assms
proof cases
  case (command r)
  from read_expect_cases [OF command [unfolded sr_read_from_server_def]] that(1,2) show thesis by fastforce
next
  case (timer sr)
  then show thesis using that(3) router_step.intros(2,3) by blast
next
  case tick
  then show thesis using that(3) router_step.tick by blast
next
  case socket
  then show thesis using that(3) router_step.socket by blast
qed (use that(2) in blast)

lemma client_step_safe:
  assumes "client_step c c'" "router_safe (router c)" "memory_ok (if_memory c)"
  shows "router_safe (router c') \<and> memory_ok (if_memory c')"
  using assms(1)
proof (cases rule: client_step_cases)
  case (command evs msg len command r)
  then show ?thesis using handle_command_keeps(2,3) [OF command(2)] assms(2,3) by simp
qed (use assms router_step_safe in auto)

lemma client_step_inv:
  assumes "client_step c c'" "nat_fits (nat_st (router c'))" "router_inv (router c)" "memory_ok (if_memory c)"
  shows "router_inv (router c')"
  using assms(1)
proof (cases rule: client_step_cases)
  case (command evs msg len command r)
  then show ?thesis using handle_command_keeps(4) [OF command(2)] assms(2-4) by simp
qed (use assms router_step_inv in auto)

lemma client_run_safe:
  "client_step\<^sup>*\<^sup>* c c' \<Longrightarrow> router_safe (router c) \<and> memory_ok (if_memory c) \<Longrightarrow>
     router_safe (router c') \<and> memory_ok (if_memory c')"
  by (induction rule: rtranclp_induct) (use client_step_safe in blast)+

text \<open>A run of the whole program in which the table never outgrows the identifiers.\<close>

abbreviation fitting_client_step :: "vns_client \<Rightarrow> vns_client \<Rightarrow> bool" where
  "fitting_client_step c c' \<equiv> client_step c c' \<and> length (mappings (nat_st (router c'))) \<le> 64512"

lemma fitting_client_inv:
  "fitting_client_step\<^sup>*\<^sup>* c c' \<Longrightarrow> router_inv (router c) \<and> memory_ok (if_memory c) \<Longrightarrow>
     router_inv (router c') \<and> memory_ok (if_memory c')"
proof (induction rule: rtranclp_induct)
  case (step a b)
  then have a: "client_step a b" "nat_fits (nat_st (router b))" "router_inv (router a)" "memory_ok (if_memory a)"
    by (simp_all add: nat_fits_def)
  then show ?case
    using client_step_inv [OF a] client_step_safe [OF a(1) router_inv_safe [OF a(3)] a(4)] by blast
qed simp

section \<open>Commands from the stream\<close>

lemma rd32_host: "rd32 0 (host_command ty body) = Some (htonl (of_nat (length (host_command ty body))))"
  by (simp add: host_command_def rd32_bytes32 add.commute)

lemma drop_host: "drop 8 (host_command ty body) = body"
  by (simp add: host_command_def)

lemma length_host: "length (host_command ty body) = length body + 8"
  by (simp add: host_command_def)

text \<open>An authentication request, handled: the reply goes out, nothing else changes.\<close>

lemma auth_command:
  assumes "auth_key_file c = Some kf" "64 \<le> length kf" "10 \<notin> set (take 64 kf)"
    and "length (stack_bytes c) = 65" "length (Message_Block (sha1_memory c)) = 64"
    and "length (user (router c)) < 32" "length salt + 8 \<le> 10000" "sock_ok (router c)"
  shows "handle_command c (host_command 128 salt) len 128 = Some (1, c\<lparr>router := (router c)\<lparr>wire :=
    wire (router c) @ [auth_reply (user (router c)) (sha1_bytes (salt @ take 64 kf))]\<rparr>\<rparr>)"
proof -
  have "kf \<noteq> []" using assms(2) by auto
  from auth_request_answered [OF assms(1) this assms(4-6) rd32_host _ _ assms(8)]
  show ?thesis
    using assms(7) key_bytes_full [OF assms(2,3)] by (simp add: handle_command_def length_host drop_host)
qed

lemma auth_status_command:
  assumes "ok \<noteq> 0" "length (user (router c)) < 32"
  shows "handle_command c (host_command 512 [ok]) len 512 = Some (1, c)"
proof -
  have "rd8 8 (host_command 512 [ok]) = Some ok"
    by (simp add: host_command_def rd8_def nth_append)
  moreover have "uint ok \<noteq> 0" using assms(1) by (simp add: uint_0_iff)
  ultimately show ?thesis
    using assms by (simp add: handle_command_def sr_handle_auth_status_def user_str_def)
qed

text \<open>A hardware description, handled: the interfaces are appended and the routing table checked.\<close>

lemma hwinfo_command:
  assumes "\<forall>x \<in> set l. iface_ok x" "8 + 108 * length l < 2 ^ 31"
    and "sr = (router c)\<lparr>if_list := if_list (router c) @
      described (if_memory c) (length (if_list (router c))) l\<rparr>"
  shows "handle_command c (host_command 16 (concat (map iface_items l))) len 16 =
    Some (if sr_verify_routing_table sr = 0 then 1 else -1, c\<lparr>router := sr\<rparr>)"
  using hwinfo_builds [OF assms(1,2)] assms(3) by (simp add: handle_command_def hw_message_def)

end
