(* ===== verification/SR_ClientExamples.thy ===== *)
theory SR_ClientExamples
  imports SR_Client SR_Examples
begin

text \<open>
  A concrete client for the witnesses: the server's authentication request and status arrive in two
  pieces with an interruption between them, the key file holds 64 bytes, and every other file is empty.
\<close>

definition ex_salt :: buf where "ex_salt = [1, 2, 3, 4]"
definition ex_key :: buf where "ex_key = replicate 64 97"

definition ex_sha1 :: SHA1Context where
  "ex_sha1 = \<lparr>Message_Digest = [], Length_Low = 0, Length_High = 0, Message_Block = replicate 64 0,
              Message_Block_Index = 0, Computed = False, Corrupted = False\<rparr>"

definition ex_client :: "recv_event list \<Rightarrow> vns_client" where
  "ex_client evs = \<lparr>router = ex_base False, inbox = evs, auth_key_file = Some ex_key,
     stack_bytes = replicate 65 0, sha1_memory = ex_sha1, if_memory = \<lambda>_. ex_if '''' 0 0,
     can_write = \<lambda>_. True, files = []\<rparr>"

text \<open>A message in two pieces.\<close>

definition in_pieces :: "buf \<Rightarrow> recv_event list" where
  "in_pieces b = [Got (take 3 b), Interrupted, Got [], Got (drop 3 b)]"

lemma in_pieces: "stream (in_pieces b) = b" "Failed \<notin> set (in_pieces b)"
  by (simp_all add: in_pieces_def stream_def)

lemma ex_key_facts: "length ex_key = 64" "10 \<notin> set (take 64 ex_key)" "take 64 ex_key = ex_key"
  by (simp_all add: ex_key_def)

lemma ex_client_fields [simp]:
  "router (ex_client evs) = ex_base False" "inbox (ex_client evs) = evs"
  "auth_key_file (ex_client evs) = Some ex_key" "length (stack_bytes (ex_client evs)) = 65"
  "length (Message_Block (sha1_memory (ex_client evs))) = 64" "memory_ok (if_memory (ex_client evs))"
  "files (ex_client evs) = []" "if_memory (ex_client evs) n = ex_if '''' 0 0"
  by (simp_all add: ex_client_def ex_sha1_def memory_ok_def)

lemma ex_base_fields [simp]:
  "user (ex_base on) = ''user''" "sock_ok (ex_base on)" "template (ex_base on) = ''''"
  "if_list (ex_base on) = ex_ifs" "routing_table (ex_base on) = ex_rt" "wire (ex_base on) = []"
  by (simp_all add: ex_base_def sock_ok_def)

section \<open>A session from the start\<close>

definition ex_env :: main_env where
  "ex_env = \<lparr>to_addr = ex_aton, disk = \<lambda>_. Some [], pw_name = Some ''user'',
             net = \<lparr>resolves = True, has_socket = True, connects = True\<rparr>\<rparr>"

definition ex_greeting :: buf where
  "ex_greeting = wire_command 128 ex_salt @ wire_command 512 [1]"

definition ex_start :: vns_client where
  "ex_start = ex_client (in_pieces ex_greeting)"

lemma ex_load: "sr_load_rt_wrap (to_addr ex_env) (disk ex_env) c name = Some (Inr c)"
  if "files c = []"
  using that by (simp add: sr_load_rt_wrap_def open_file_def ex_env_def sr_load_rt_def file_lines.simps)

lemma ex_session: "\<exists>c. main_start ex_env [] ex_start = Returns (Inr c)"
proof -
  obtain c1 where s: "main_setup ex_env default_options ex_start = Some (Inr c1)"
    and f: "files c1 = []" "inbox c1 = in_pieces ex_greeting" "auth_key_file c1 = Some ex_key"
      "length (stack_bytes c1) = 65" "length (Message_Block (sha1_memory c1)) = 64"
      "user (router c1) = ''user''" "template (router c1) = ''''" "sock_ok (router c1)"
    using ex_load
    by (auto simp: main_setup_def main_table_def main_names_def default_options_def ex_start_def
        sr_set_user_def ex_env_def sr_init_instance_def strncpy_def sock_ok_def ex_base_def)
  obtain evs1 where e1: "stream evs1 = wire_command 512 [1]" "Failed \<notin> set evs1"
    "sr_read_from_server_expect c1 128 =
      defined (handle_command (c1\<lparr>inbox := evs1\<rparr>) (host_command 128 ex_salt) (int (length ex_salt) + 8) 128)"
    using read_expect_command [of c1 128 ex_salt "wire_command 512 [1]" 128] f(2) in_pieces
    by (auto simp: ex_greeting_def ex_salt_def)
  define sr2 where "sr2 = (router c1)\<lparr>wire := wire (router c1) @
    [auth_reply ''user'' (sha1_bytes (ex_salt @ ex_key))]\<rparr>"
  define c2 where "c2 = c1\<lparr>inbox := evs1, router := sr2\<rparr>"
  have r1: "sr_read_from_server_expect c1 128 = Returns (1, c2)"
    using auth_command [of "c1\<lparr>inbox := evs1\<rparr>" ex_key ex_salt] f ex_key_facts e1(3)
    by (simp add: ex_salt_def c2_def sr2_def)
  obtain evs2 where e2: "sr_read_from_server_expect c2 512 =
      defined (handle_command (c2\<lparr>inbox := evs2\<rparr>) (host_command 512 [1]) (int (length [1 :: u8]) + 8) 512)"
    using read_expect_command [of c2 512 "[1]" "[]" 512] e1(1,2) by (auto simp: c2_def)
  define c3 where "c3 = c2\<lparr>inbox := evs2\<rparr>"
  have r2: "sr_read_from_server_expect c2 512 = Returns (1, c3)"
    using auth_status_command [of 1 c3] f(6) e2 by (simp add: c3_def c2_def sr2_def)
  define c4 where "c4 = c3\<lparr>router := snd (sock_send (router c3) (open_message (router c3)))\<rparr>"
  have c3: "template (router c3) = []" "sock_write (router c3) = int" "files c3 = []"
    using f by (simp_all add: c3_def c2_def sr2_def sock_ok_def)
  then have "sr_connect_to_server (net ex_env) c1 = Returns (0, c4)" "files c4 = []"
    by (simp_all add: sr_connect_to_server_def ex_env_def r1 r2 sock_send_def c4_def Let_def)
  then have "\<exists>c. main_connect ex_env default_options c1 = Returns (Inr c)"
    using ex_load by (simp add: main_connect_def default_options_def defined_def)
  then show ?thesis using s by (simp add: main_start_def defined_def)
qed

definition ex_running :: vns_client where
  "ex_running = (case main_start ex_env [] ex_start of Returns (Inr c) \<Rightarrow> c | _ \<Rightarrow> ex_start)"

lemma ex_running_start: "client_start ex_running"
proof -
  obtain c where "main_start ex_env [] ex_start = Returns (Inr c)" using ex_session by blast
  moreover have "unsol_pkt (nat_st (router ex_start)) = Some []"
    by (simp add: ex_start_def ex_base_def ex_nat0_def)
  ultimately show ?thesis
    using client_start.started [of ex_start ex_env "[]" c] by (simp add: ex_running_def ex_start_def)
qed

end
