(* ===== verification/SR_Locks.thy ===== *)
theory SR_Locks
  imports SR_Prelude
begin

text \<open>
  Threads and locks.  Three threads run the router: the main thread handles frames, and two timer
  threads make a round every second.  They share the ARP cache and the NAT tables, each with a
  recursive mutex.  A function is modelled by its lock skeleton, the locks it takes and releases on
  each of its paths, branches that depend on data being choices; the threads interleave their lock
  operations, and a thread waits when another one owns the mutex.
\<close>

section \<open>Recursive mutexes\<close>

datatype thread = Main | Arp_timer | Nat_timer

datatype mutex_id = Nat_lock | Cache_lock

text \<open>A mutex is free, or owned by a thread that has taken it once or more.\<close>

type_synonym mutex = "(thread \<times> nat) option"

fun mutex_free_for :: "thread \<Rightarrow> mutex \<Rightarrow> bool" where
  "mutex_free_for t None = True"
| "mutex_free_for t (Some (u, n)) = (t = u)"

fun mutex_count :: "mutex \<Rightarrow> thread \<Rightarrow> nat" where
  "mutex_count None t = 0"
| "mutex_count (Some (u, n)) t = (if t = u then n else 0)"

fun mutex_lock :: "thread \<Rightarrow> mutex \<Rightarrow> mutex" where
  "mutex_lock t None = Some (t, 1)"
| "mutex_lock t (Some (u, n)) = Some (u, n + 1)"

fun mutex_unlock :: "mutex \<Rightarrow> mutex" where
  "mutex_unlock None = None"
| "mutex_unlock (Some (u, n)) = (if n \<le> 1 then None else Some (u, n - 1))"

lemma mutex_free_iff: "mutex_free_for t m \<longleftrightarrow> m = None \<or> (\<exists>n. m = Some (t, n))"
  by (cases "(t, m)" rule: mutex_free_for.cases) auto

lemma mutex_count_lock:
  "mutex_free_for t m \<Longrightarrow> mutex_count (mutex_lock t m) u = mutex_count m u + (if u = t then 1 else 0)"
  by (cases "(t, m)" rule: mutex_lock.cases) auto

lemma mutex_count_unlock:
  "0 < mutex_count m t \<Longrightarrow> mutex_count (mutex_unlock m) u = mutex_count m u - (if u = t then 1 else 0)"
  by (cases m rule: mutex_unlock.cases) (auto split: if_splits)

section \<open>Lock skeletons\<close>

datatype lock_op = Lock mutex_id | Unlock mutex_id

datatype skel = Nop | Op lock_op | Then skel skel | Either skel skel | Repeat skel

text \<open>The sequences of lock operations a skeleton can make.\<close>

inductive path :: "skel \<Rightarrow> lock_op list \<Rightarrow> bool" where
  nop: "path Nop []"
| op: "path (Op a) [a]"
| seq: "path c as \<Longrightarrow> path d bs \<Longrightarrow> path (Then c d) (as @ bs)"
| left: "path c as \<Longrightarrow> path (Either c d) as"
| right: "path d bs \<Longrightarrow> path (Either c d) bs"
| stop: "path (Repeat c) []"
| again: "path c as \<Longrightarrow> path (Repeat c) bs \<Longrightarrow> path (Repeat c) (as @ bs)"

text \<open>A piece of code between \<open>pthread_mutex_lock\<close> and \<open>pthread_mutex_unlock\<close>.\<close>

definition locked :: "mutex_id \<Rightarrow> skel \<Rightarrow> skel" where
  "locked l c = Then (Op (Lock l)) (Then c (Op (Unlock l)))"

subsection \<open>\<open>sr_arpcache.c\<close>\<close>

definition sr_arpcache_lookup_locks :: skel where
  "sr_arpcache_lookup_locks = locked Cache_lock Nop"

definition sr_arpcache_queuereq_locks :: skel where
  "sr_arpcache_queuereq_locks = locked Cache_lock Nop"

definition sr_arpcache_insert_locks :: skel where
  "sr_arpcache_insert_locks = locked Cache_lock Nop"

definition sr_arpreq_destroy_locks :: skel where
  "sr_arpreq_destroy_locks = locked Cache_lock Nop"

subsection \<open>\<open>sr_nat.c\<close>\<close>

definition sr_nat_lookup_external_locks :: skel where
  "sr_nat_lookup_external_locks = locked Nat_lock Nop"

definition sr_nat_lookup_internal_locks :: skel where
  "sr_nat_lookup_internal_locks = locked Nat_lock Nop"

definition sr_nat_insert_mapping_locks :: skel where
  "sr_nat_insert_mapping_locks = locked Nat_lock Nop"

definition sr_nat_remove_unsolicited_packet_locks :: skel where
  "sr_nat_remove_unsolicited_packet_locks = locked Nat_lock Nop"

definition sr_nat_insert_unsolicited_packet_locks :: skel where
  "sr_nat_insert_unsolicited_packet_locks = locked Nat_lock Nop"

text \<open>Two operations call others that take the lock again.\<close>

definition sr_nat_insert_connection_locks :: skel where
  "sr_nat_insert_connection_locks =
     locked Nat_lock (Either sr_nat_remove_unsolicited_packet_locks Nop)"

definition sr_nat_update_connection_locks :: skel where
  "sr_nat_update_connection_locks =
     locked Nat_lock (Either Nop sr_nat_insert_unsolicited_packet_locks)"

subsection \<open>\<open>sr_router.c\<close>\<close>

text \<open>Building and sending packets takes no lock; resolving the next hop does.\<close>

definition sr_send_icmp_locks :: skel where
  "sr_send_icmp_locks = Then sr_arpcache_lookup_locks (Either Nop sr_arpcache_queuereq_locks)"

definition sr_forward_ippacket_locks :: skel where
  "sr_forward_ippacket_locks =
     Either (Then sr_arpcache_lookup_locks (Either Nop sr_arpcache_queuereq_locks)) sr_send_icmp_locks"

definition sr_handle_arp_locks :: skel where
  "sr_handle_arp_locks =
     Either Nop
      (Either sr_arpcache_insert_locks
        (Then sr_arpcache_insert_locks (Either sr_arpreq_destroy_locks Nop)))"

definition nat_handle_icmp_locks :: skel where
  "nat_handle_icmp_locks =
     Either Nop
      (Either (Then sr_nat_lookup_internal_locks (Either Nop sr_nat_insert_mapping_locks))
        sr_nat_lookup_external_locks)"

definition nat_handle_tcp_locks :: skel where
  "nat_handle_tcp_locks =
     Either Nop
      (Either
        (Then sr_nat_lookup_internal_locks
          (Either (Then sr_nat_insert_mapping_locks sr_nat_insert_connection_locks)
            sr_nat_update_connection_locks))
        (Then sr_nat_lookup_external_locks
          (Either sr_nat_update_connection_locks
            (Either sr_nat_insert_unsolicited_packet_locks Nop))))"

text \<open>A packet for the router: ICMP, TCP and UDP, any other protocol.\<close>

definition handle_ip_to_router_locks :: skel where
  "handle_ip_to_router_locks =
     Either
      (Either Nop
        (Either sr_send_icmp_locks (Then nat_handle_icmp_locks (Either sr_forward_ippacket_locks Nop))))
      (Either
        (Either
          (Then nat_handle_tcp_locks (Either sr_forward_ippacket_locks (Either Nop sr_send_icmp_locks)))
          sr_send_icmp_locks)
        sr_send_icmp_locks)"

text \<open>A packet in transit: expired, ICMP or TCP with NAT, any other.\<close>

definition handle_ip_transit_locks :: skel where
  "handle_ip_transit_locks =
     Either sr_send_icmp_locks
      (Either (Then nat_handle_icmp_locks sr_forward_ippacket_locks)
        (Either (Then nat_handle_tcp_locks (Either sr_send_icmp_locks sr_forward_ippacket_locks))
          sr_forward_ippacket_locks))"

definition sr_handle_ippacket_locks :: skel where
  "sr_handle_ippacket_locks = Either Nop (Either handle_ip_to_router_locks handle_ip_transit_locks)"

definition sr_handlepacket_locks :: skel where
  "sr_handlepacket_locks = Either Nop (Either sr_handle_arp_locks sr_handle_ippacket_locks)"

subsection \<open>The timer threads\<close>

definition sr_handle_arpreq_queue_locks :: skel where
  "sr_handle_arpreq_queue_locks =
     Either Nop (Either (Then (Repeat sr_send_icmp_locks) sr_arpreq_destroy_locks) Nop)"

definition sr_arpcache_sweepreqs_locks :: skel where
  "sr_arpcache_sweepreqs_locks = Repeat sr_handle_arpreq_queue_locks"

definition sr_arpcache_timeout_locks :: skel where
  "sr_arpcache_timeout_locks = locked Cache_lock sr_arpcache_sweepreqs_locks"

definition sr_nat_timeout_locks :: skel where
  "sr_nat_timeout_locks = locked Nat_lock (Repeat (Either sr_send_icmp_locks Nop))"

lemmas lock_skeletons =
  locked_def sr_arpcache_lookup_locks_def sr_arpcache_queuereq_locks_def sr_arpcache_insert_locks_def
  sr_arpreq_destroy_locks_def sr_nat_lookup_external_locks_def sr_nat_lookup_internal_locks_def
  sr_nat_insert_mapping_locks_def sr_nat_remove_unsolicited_packet_locks_def
  sr_nat_insert_unsolicited_packet_locks_def sr_nat_insert_connection_locks_def
  sr_nat_update_connection_locks_def sr_send_icmp_locks_def sr_forward_ippacket_locks_def
  sr_handle_arp_locks_def nat_handle_icmp_locks_def nat_handle_tcp_locks_def
  handle_ip_to_router_locks_def handle_ip_transit_locks_def sr_handle_ippacket_locks_def
  sr_handlepacket_locks_def sr_handle_arpreq_queue_locks_def sr_arpcache_sweepreqs_locks_def
  sr_arpcache_timeout_locks_def sr_nat_timeout_locks_def

text \<open>What one frame or one round of a thread's loop does.\<close>

fun thread_round :: "thread \<Rightarrow> skel" where
  "thread_round Main = sr_handlepacket_locks"
| "thread_round Arp_timer = sr_arpcache_timeout_locks"
| "thread_round Nat_timer = sr_nat_timeout_locks"

section \<open>The discipline\<close>

text \<open>
  How often a thread holds each mutex.  The discipline: unlock only what is held, take the NAT's
  mutex before the cache's and never while holding only the cache's.
\<close>

record held =
  nat_held :: nat
  cache_held :: nat

definition no_locks :: held where
  "no_locks = \<lparr>nat_held = 0, cache_held = 0\<rparr>"

fun held_of :: "held \<Rightarrow> mutex_id \<Rightarrow> nat" where
  "held_of h Nat_lock = nat_held h"
| "held_of h Cache_lock = cache_held h"

fun obey :: "lock_op \<Rightarrow> held \<Rightarrow> held option" where
  "obey (Lock Nat_lock) h =
     (if cache_held h = 0 \<or> 0 < nat_held h then Some (h\<lparr>nat_held := nat_held h + 1\<rparr>) else None)"
| "obey (Lock Cache_lock) h = Some (h\<lparr>cache_held := cache_held h + 1\<rparr>)"
| "obey (Unlock Nat_lock) h =
     (if 0 < nat_held h then Some (h\<lparr>nat_held := nat_held h - 1\<rparr>) else None)"
| "obey (Unlock Cache_lock) h =
     (if 0 < cache_held h then Some (h\<lparr>cache_held := cache_held h - 1\<rparr>) else None)"

fun obey_all :: "lock_op list \<Rightarrow> held \<Rightarrow> held option" where
  "obey_all [] h = Some h"
| "obey_all (a # as) h = Option.bind (obey a h) (obey_all as)"

text \<open>The check of a skeleton: all its paths obey and end holding the same locks.\<close>

fun check :: "skel \<Rightarrow> held \<Rightarrow> held option" where
  "check Nop h = Some h"
| "check (Op a) h = obey a h"
| "check (Then c d) h = Option.bind (check c h) (check d)"
| "check (Either c d) h = (if check c h = check d h then check c h else None)"
| "check (Repeat c) h = (if check c h = Some h then Some h else None)"

lemma obey_all_append: "obey_all (as @ bs) h = Option.bind (obey_all as h) (obey_all bs)"
proof (induction as arbitrary: h)
  case (Cons a as)
  then show ?case by (cases "obey a h") simp_all
qed simp

lemma path_obeys: "path c as \<Longrightarrow> check c h = Some h' \<Longrightarrow> obey_all as h = Some h'"
proof (induction arbitrary: h h' rule: path.induct)
  case (op a)
  then show ?case by (cases "obey a h") simp_all
next
  case (seq c as d bs)
  then show ?case by (cases "check c h") (simp_all add: obey_all_append)
next
  case (again c as bs)
  then have "check c h = Some h" "h' = h" by (simp_all split: if_splits)
  with again show ?case by (simp add: obey_all_append)
next
  case (left c as d)
  then have "check c h = Some h'" by (simp split: if_splits)
  with left.IH show ?case .
next
  case (right d bs c)
  then have "check d h = Some h'" by (simp split: if_splits)
  with right.IH show ?case .
qed (simp_all split: if_splits)

section \<open>Interleaving\<close>

text \<open>
  What each thread still has to do of its round, and the two mutexes.  A thread that has finished
  starts its next round on any path; a thread at a lock operation takes it when the mutex is free or
  its own.
\<close>

record config =
  todo :: "thread \<Rightarrow> lock_op list"
  owner :: "mutex_id \<Rightarrow> mutex"

definition quiet :: config where
  "quiet = \<lparr>todo = (\<lambda>_. []), owner = (\<lambda>_. None)\<rparr>"

inductive op_step :: "thread \<Rightarrow> config \<Rightarrow> config \<Rightarrow> bool" where
  acquire: "todo c t = Lock l # ops \<Longrightarrow> mutex_free_for t (owner c l) \<Longrightarrow>
    op_step t c (c\<lparr>todo := (todo c)(t := ops), owner := (owner c)(l := mutex_lock t (owner c l))\<rparr>)"
| release: "todo c t = Unlock l # ops \<Longrightarrow> 0 < mutex_count (owner c l) t \<Longrightarrow>
    op_step t c (c\<lparr>todo := (todo c)(t := ops), owner := (owner c)(l := mutex_unlock (owner c l))\<rparr>)"

inductive thread_step :: "(thread \<Rightarrow> skel) \<Rightarrow> config \<Rightarrow> config \<Rightarrow> bool" for rounds where
  round: "todo c t = [] \<Longrightarrow> path (rounds t) ops \<Longrightarrow>
    thread_step rounds c (c\<lparr>todo := (todo c)(t := ops)\<rparr>)"
| operation: "op_step t c c' \<Longrightarrow> thread_step rounds c c'"

inductive lock_reach :: "(thread \<Rightarrow> skel) \<Rightarrow> config \<Rightarrow> bool" for rounds where
  start: "lock_reach rounds quiet"
| step: "lock_reach rounds c \<Longrightarrow> thread_step rounds c c' \<Longrightarrow> lock_reach rounds c'"

inductive_cases op_stepE: "op_step t c c'"
inductive_cases thread_stepE: "thread_step rounds c c'"

definition holds :: "config \<Rightarrow> thread \<Rightarrow> held" where
  "holds c t = \<lparr>nat_held = mutex_count (owner c Nat_lock) t,
                cache_held = mutex_count (owner c Cache_lock) t\<rparr>"

lemma holds_todo [simp]: "holds (c\<lparr>todo := x\<rparr>) = holds c"
  by (simp add: holds_def fun_eq_iff)

definition config_inv :: "config \<Rightarrow> bool" where
  "config_inv c \<longleftrightarrow> (\<forall>t. obey_all (todo c t) (holds c t) = Some no_locks) \<and>
     (\<forall>l t n. owner c l = Some (t, n) \<longrightarrow> 0 < n)"

section \<open>Deadlock freedom\<close>

lemma config_invD:
  assumes "config_inv c"
  shows "obey_all (todo c t) (holds c t) = Some no_locks" "owner c l = Some (t, n) \<Longrightarrow> 0 < n"
  using assms by (simp_all add: config_inv_def)

lemma held_of_holds: "held_of (holds c t) l = mutex_count (owner c l) t"
  by (cases l) (simp_all add: holds_def)

lemma obey_effect:
  "obey (Lock l) h = Some h' \<Longrightarrow> held_of h' k = held_of h k + (if k = l then 1 else 0)"
  "obey (Unlock l) h = Some h' \<Longrightarrow> held_of h' k = held_of h k - (if k = l then 1 else 0)"
  by (cases l; cases k; auto split: if_splits)+

lemma held_eqI: "(\<And>l. held_of h l = held_of h' l) \<Longrightarrow> h = h'"
  using held_of.simps by (metis (full_types) held.equality old.unit.exhaust)

lemma op_step_holds:
  assumes "op_step t c c'"
  obtains a ops where "todo c t = a # ops" "todo c' = (todo c)(t := ops)"
    "\<And>h. obey a (holds c t) = Some h \<Longrightarrow> holds c' t = h" "\<And>u. u \<noteq> t \<Longrightarrow> holds c' u = holds c u"
  using assms
proof cases
  case (acquire l ops)
  have n: "mutex_count (owner c' k) u = mutex_count (owner c k) u + (if k = l \<and> u = t then 1 else 0)" for k u
    using acquire by (simp add: mutex_count_lock)
  show thesis
  proof (rule that [OF acquire(2)])
    show "todo c' = (todo c)(t := ops)" using acquire by simp
    show "holds c' t = h" if "obey (Lock l) (holds c t) = Some h" for h
      by (rule held_eqI) (simp add: held_of_holds n obey_effect(1) [OF that])
    show "holds c' u = holds c u" if "u \<noteq> t" for u
      using that by (intro held_eqI) (simp add: held_of_holds n)
  qed
next
  case (release l ops)
  have n: "mutex_count (owner c' k) u = mutex_count (owner c k) u - (if k = l \<and> u = t then 1 else 0)" for k u
    using release by (simp add: mutex_count_unlock)
  show thesis
  proof (rule that [OF release(2)])
    show "todo c' = (todo c)(t := ops)" using release by simp
    show "holds c' t = h" if "obey (Unlock l) (holds c t) = Some h" for h
      by (rule held_eqI) (simp add: held_of_holds n obey_effect(2) [OF that])
    show "holds c' u = holds c u" if "u \<noteq> t" for u
      using that by (intro held_eqI) (simp add: held_of_holds n)
  qed
qed

lemma op_step_owner:
  assumes "op_step t c c'" "\<And>l u n. owner c l = Some (u, n) \<Longrightarrow> 0 < n"
  shows "owner c' l = Some (u, n) \<Longrightarrow> 0 < n"
  using assms
proof cases
  case (acquire k ops)
  assume o: "owner c' l = Some (u, n)"
  have "mutex_lock t (owner c k) = Some (u, n) \<Longrightarrow> 0 < n"
    by (cases "(t, owner c k)" rule: mutex_lock.cases) auto
  with o acquire assms(2) show ?thesis by (auto split: if_splits)
next
  case (release k ops)
  assume o: "owner c' l = Some (u, n)"
  have "mutex_unlock (owner c k) = Some (u, n) \<Longrightarrow> 0 < n"
    by (cases "owner c k" rule: mutex_unlock.cases) (auto split: if_splits)
  with o release assms(2) show ?thesis by (auto split: if_splits)
qed

text \<open>A thread whose next mutex is free or its own can go on; giving one back never fails.\<close>

lemma can_step:
  assumes "config_inv c" "todo c t = a # ops" "\<And>l. a = Lock l \<Longrightarrow> mutex_free_for t (owner c l)"
  shows "\<exists>c'. op_step t c c'"
proof (cases a)
  case (Lock l)
  then show ?thesis using acquire [of c t l ops] assms by auto
next
  case (Unlock l)
  have "Option.bind (obey (Unlock l) (holds c t)) (obey_all ops) = Some no_locks"
    using config_invD(1) [OF assms(1), of t] assms(2) Unlock by simp
  then have "0 < held_of (holds c t) l" by (cases l) (auto split: if_splits)
  then have "0 < mutex_count (owner c l) t" by (simp add: held_of_holds)
  then show ?thesis using release [of c t l ops] assms(2) Unlock by auto
qed

text \<open>The owner of a mutex is inside its round and at most waits for the cache's mutex.\<close>

lemma owner_next:
  assumes "config_inv c" "owner c l = Some (t, n)"
  obtains a ops where "todo c t = a # ops"
    "a = Lock Nat_lock \<Longrightarrow> l = Cache_lock \<Longrightarrow> mutex_free_for t (owner c Nat_lock)"
proof -
  have n: "0 < held_of (holds c t) l"
    using config_invD(2) [OF assms] assms(2) by (simp add: held_of_holds)
  have o: "obey_all (todo c t) (holds c t) = Some no_locks" by (rule config_invD [OF assms(1)])
  have "todo c t \<noteq> []"
  proof
    assume "todo c t = []"
    then have "holds c t = no_locks" using o by simp
    with n show False by (cases l) (simp_all add: no_locks_def)
  qed
  then obtain a ops where a: "todo c t = a # ops" by (cases "todo c t") auto
  have f: "mutex_free_for t (owner c Nat_lock)" if "a = Lock Nat_lock" "l = Cache_lock"
  proof -
    have "0 < cache_held (holds c t)" using n that(2) by simp
    then have "0 < nat_held (holds c t)" using o a that(1) by (auto split: if_splits)
    then show ?thesis by (cases "owner c Nat_lock") (auto simp: holds_def split: if_splits)
  qed
  show thesis
    by (rule that [OF a]) (rule f)
qed

text \<open>Every operation brings some thread nearer the end of its round, so all of them can finish.\<close>

definition pending :: "config \<Rightarrow> nat" where
  "pending c = length (todo c Main) + length (todo c Arp_timer) + length (todo c Nat_timer)"

lemma pending_zero: "pending c = 0 \<longleftrightarrow> (\<forall>t. todo c t = [])"
proof
  assume "pending c = 0"
  then show "\<forall>t. todo c t = []" by (intro allI, case_tac t) (simp_all add: pending_def)
qed (simp add: pending_def)

lemma op_step_pending: "op_step t c c' \<Longrightarrow> pending c = Suc (pending c')"
  by (erule op_step_holds) (cases t; simp add: pending_def)

definition some_op :: "config \<Rightarrow> config \<Rightarrow> bool" where
  "some_op c c' \<longleftrightarrow> (\<exists>t. op_step t c c')"

lemma mutex_exclusive: "0 < mutex_count m t \<Longrightarrow> 0 < mutex_count m u \<Longrightarrow> t = u"
  by (cases m) (auto split: if_splits)

section \<open>Threads that keep the discipline\<close>

text \<open>
  The interface: what each thread runs in a round.  The law: every round keeps the discipline and gives
  back what it takes.  Then no interleaving of the rounds gets stuck.
\<close>

locale lock_rounds =
  fixes rounds :: "thread \<Rightarrow> skel"
  assumes checked: "check (rounds t) no_locks = Some no_locks"
begin

lemma round_obeys: "path (rounds t) ops \<Longrightarrow> obey_all ops no_locks = Some no_locks"
  by (rule path_obeys [OF _ checked])

lemma lock_reach_inv: "lock_reach rounds c \<Longrightarrow> config_inv c"
proof (induction rule: lock_reach.induct)
  case start
  show ?case by (simp add: config_inv_def quiet_def holds_def no_locks_def)
next
  case (step c c')
  from step.hyps(2) show ?case
  proof cases
    case (round t ops)
    have "holds c t = no_locks" using config_invD(1) [OF step.IH, of t] round by simp
    then show ?thesis
      using step.IH round_obeys [OF round(3)] by (simp add: config_inv_def round)
  next
    case (operation t)
    obtain a ops where a: "todo c t = a # ops" "todo c' = (todo c)(t := ops)"
      and h: "\<And>h. obey a (holds c t) = Some h \<Longrightarrow> holds c' t = h"
        "\<And>u. u \<noteq> t \<Longrightarrow> holds c' u = holds c u"
      by (rule op_step_holds [OF operation]) (rule that)
    have "obey_all (todo c' u) (holds c' u) = Some no_locks" for u
    proof (cases "u = t")
      case True
      have "Option.bind (obey a (holds c t)) (obey_all ops) = Some no_locks"
        using config_invD(1) [OF step.IH, of t] a by simp
      with h(1) True a show ?thesis by (auto simp: Option.bind_eq_Some_conv)
    next
      case False
      then show ?thesis using config_invD(1) [OF step.IH, of u] a h(2) by simp
    qed
    with op_step_owner [OF operation] config_invD(2) [OF step.IH] show ?thesis
      unfolding config_inv_def by blast
  qed
qed

lemma some_thread_moves:
  assumes "lock_reach rounds c" "todo c t \<noteq> []"
  shows "\<exists>u c'. op_step u c c'"
proof -
  have inv: "config_inv c" by (rule lock_reach_inv [OF assms(1)])
  consider (cache) u n where "owner c Cache_lock = Some (u, n)"
    | (nat) u n where "owner c Cache_lock = None" "owner c Nat_lock = Some (u, n)"
    | (free) "owner c Cache_lock = None" "owner c Nat_lock = None"
    by (cases "owner c Cache_lock"; cases "owner c Nat_lock") auto
  then show ?thesis
  proof cases
    case cache
    obtain a ops where a: "todo c u = a # ops" "a = Lock Nat_lock \<Longrightarrow> mutex_free_for u (owner c Nat_lock)"
      by (rule owner_next [OF inv cache]) blast
    have "mutex_free_for u (owner c l)" if "a = Lock l" for l
      using that a(2) cache by (cases l) simp_all
    with can_step [OF inv a(1)] show ?thesis by blast
  next
    case nat
    obtain a ops where a: "todo c u = a # ops" by (rule owner_next [OF inv nat(2)])
    have "mutex_free_for u (owner c l)" for l using nat by (cases l) simp_all
    with can_step [OF inv a] show ?thesis by blast
  next
    case free
    obtain a ops where "todo c t = a # ops" using assms(2) by (cases "todo c t") auto
    moreover have "mutex_free_for t (owner c l)" for l using free by (cases l) simp_all
    ultimately show ?thesis using can_step [OF inv] by blast
  qed
qed

lemma all_finish:
  assumes "lock_reach rounds c"
  shows "\<exists>c'. some_op\<^sup>*\<^sup>* c c' \<and> (\<forall>t. todo c' t = [])"
  using assms
proof (induction "pending c" arbitrary: c)
  case 0
  then show ?case by (metis pending_zero rtranclp.rtrancl_refl)
next
  case (Suc n)
  then obtain t where "todo c t \<noteq> []" by (metis nat.distinct(1) pending_zero)
  then obtain u c1 where o: "op_step u c c1" using some_thread_moves [OF Suc.prems] by blast
  then have "n = pending c1" "lock_reach rounds c1"
    using Suc.hyps(2) op_step_pending lock_reach.step [OF Suc.prems] thread_step.operation by auto
  from Suc.hyps(1) [OF this] obtain c' where "some_op\<^sup>*\<^sup>* c1 c'" "\<forall>t. todo c' t = []" by blast
  moreover have "some_op c c1" using o by (auto simp: some_op_def)
  ultimately show ?case by (meson converse_rtranclp_into_rtranclp)
qed

lemma idle_holds_nothing:
  assumes "lock_reach rounds c" "todo c t = []"
  shows "mutex_count (owner c l) t = 0"
proof -
  have "holds c t = no_locks" using config_invD(1) [OF lock_reach_inv [OF assms(1)], of t] assms(2) by simp
  then have "held_of (holds c t) l = 0" by (cases l) (simp_all add: no_locks_def)
  then show ?thesis by (simp add: held_of_holds)
qed

lemma unlock_owned:
  assumes "lock_reach rounds c" "todo c t = Unlock l # ops"
  shows "0 < mutex_count (owner c l) t"
proof -
  have "Option.bind (obey (Unlock l) (holds c t)) (obey_all ops) = Some no_locks"
    using config_invD(1) [OF lock_reach_inv [OF assms(1)], of t] assms(2) by simp
  then have "0 < held_of (holds c t) l" by (cases l) (auto split: if_splits)
  then show ?thesis by (simp add: held_of_holds)
qed

end

section \<open>The router's threads\<close>

text \<open>Every function that a thread of the router runs keeps the discipline.\<close>

lemma thread_round_checked: "check (thread_round t) no_locks = Some no_locks"
  by (cases t) (simp_all add: lock_skeletons no_locks_def)

interpretation router_threads: lock_rounds thread_round
  by unfold_locales (rule thread_round_checked)

end
