(* ===== verification/SR_Races.thy ===== *)
theory SR_Races
  imports SR_System SR_Locks
begin

text \<open>
  What the timer threads can do between the NAT operations of a handler.  \<open>nat_handle_icmp\<close> and
  \<open>nat_handle_tcp\<close> (\<open>sr_router.c\<close>) take the NAT's mutex once per operation (\<open>SR_Locks\<close>) and keep copies of
  mappings in between.  Here their calls are sections of the main thread, with a program counter, and
  rounds of the timers come between any two of them.
\<close>

section \<open>Sections\<close>

text \<open>What the handlers read from the packet before their first call, and the packet itself.\<close>

record nat_task =
  tk_packet :: buf
  tk_len :: u32
  tk_type :: sr_nat_mapping_type
  tk_host :: u32 \<comment> \<open>internal source address of an outbound packet\<close>
  tk_aux :: u16 \<comment> \<open>internal identifier or port, or the external one of an inbound packet\<close>
  tk_inbound :: bool
  tk_bare_syn :: bool

datatype nat_pc =
  Lookup | Insert_mapping | Insert_connection sr_nat_mapping | Update_connection sr_nat_mapping
| Insert_unsolicited | Done "sr_nat_mapping option" "sr_nat_connection option"

text \<open>
  A copy of a mapping shares its connection nodes with the table.  The walk over them starts at the
  node that was the head when the copy was made and follows the links as they are now; it is
  undefined when that node has been freed.
\<close>

definition current_conns :: "sr_nat \<Rightarrow> sr_nat_mapping \<Rightarrow> sr_nat_connection list option" where
  "current_conns nt m =
     (case conns m of
        [] \<Rightarrow> Some []
      | c # _ \<Rightarrow>
          (case find (\<lambda>k. conn_addr c \<in> conn_addr ` set (conns k)) (mappings nt) of
             None \<Rightarrow> None
           | Some k \<Rightarrow> Some (dropWhile (\<lambda>d. conn_addr d \<noteq> conn_addr c) (conns k))))"

text \<open>One section: the call at the program counter, and the branch the handler takes on its result.\<close>

fun nat_section :: "int \<Rightarrow> nat_task \<Rightarrow> nat_pc \<Rightarrow> sr_nat \<Rightarrow> (nat_pc \<times> sr_nat) option" where
  "nat_section now tk Lookup nt =
     Some (case if tk_inbound tk then sr_nat_lookup_external nt (tk_aux tk) (tk_type tk)
                else sr_nat_lookup_internal nt (tk_host tk) (tk_aux tk) (tk_type tk) of
             Some m \<Rightarrow> if tk_type tk = nat_mapping_tcp then Update_connection m else Done (Some m) None
           | None \<Rightarrow>
               if \<not> tk_inbound tk then Insert_mapping
               else if tk_type tk = nat_mapping_tcp \<and> tk_bare_syn tk then Insert_unsolicited
               else Done None None, nt)"
| "nat_section now tk Insert_mapping nt =
     (let (m, nt) = sr_nat_insert_mapping now nt (tk_host tk) (tk_aux tk) (tk_type tk)
      in Some (if tk_type tk = nat_mapping_tcp then Insert_connection m else Done (Some m) None, nt))"
| "nat_section now tk (Insert_connection m) nt =
     do {
       (conn, nt) \<leftarrow> sr_nat_insert_connection now nt (aux_ext m) (tk_packet tk) SYN_SENT;
       conn \<leftarrow> conn;
       Some (Done (Some m) (Some conn), nt)
     }"
| "nat_section now tk (Update_connection m) nt =
     do {
       cs \<leftarrow> current_conns nt m;
       (conn, nt) \<leftarrow> sr_nat_update_connection now nt (m\<lparr>conns := cs\<rparr>) (tk_packet tk) (tk_len tk)
                      (if tk_inbound tk then 1 else 0);
       Some (Done (Some m) conn, nt)
     }"
| "nat_section now tk Insert_unsolicited nt =
     do {
       nt \<leftarrow> sr_nat_insert_unsolicited_packet now nt (tk_packet tk) (tk_len tk);
       Some (Done None None, nt)
     }"
| "nat_section now tk (Done m conn) nt = Some (Done m conn, nt)"

text \<open>All sections of a handler without a timer in between: there are at most three.\<close>

definition nat_sections :: "int \<Rightarrow> nat_task \<Rightarrow> sr_nat \<Rightarrow> (nat_pc \<times> sr_nat) option" where
  "nat_sections now tk nt =
     do {
       (pc, nt) \<leftarrow> nat_section now tk Lookup nt;
       (pc, nt) \<leftarrow> nat_section now tk pc nt;
       nat_section now tk pc nt
     }"

lemma current_conns_lookup:
  assumes "conns_inv nt" "m \<in> set (mappings nt)"
  shows "current_conns nt m = Some (conns m)"
proof (cases "conns m")
  case (Cons c cs)
  let ?P = "\<lambda>k. conn_addr c \<in> conn_addr ` set (conns k)"
  obtain pre post where ms: "mappings nt = pre @ m # post" using assms(2) by (metis split_list)
  have "\<not> ?P k" if "k \<in> set pre" for k
    using assms(1) that Cons by (auto simp: conns_inv_def all_conns_def ms)
  then have "find ?P pre = None" by (auto simp: find_None_iff)
  then have "find ?P (mappings nt) = Some m"
    using Cons by (simp add: ms find_append)
  then show ?thesis by (simp add: current_conns_def Cons)
qed (simp add: current_conns_def)

section \<open>The handlers are their sections\<close>

definition tcp_out_task :: "buf \<Rightarrow> u32 \<Rightarrow> u32 \<Rightarrow> u16 \<Rightarrow> nat_task" where
  "tcp_out_task p len ip port =
     \<lparr>tk_packet = p, tk_len = len, tk_type = nat_mapping_tcp, tk_host = ip, tk_aux = port,
      tk_inbound = False, tk_bare_syn = False\<rparr>"

definition tcp_in_task :: "buf \<Rightarrow> u32 \<Rightarrow> u16 \<Rightarrow> bool \<Rightarrow> nat_task" where
  "tcp_in_task p len port syn =
     \<lparr>tk_packet = p, tk_len = len, tk_type = nat_mapping_tcp, tk_host = 0, tk_aux = port,
      tk_inbound = True, tk_bare_syn = syn\<rparr>"

definition icmp_out_task :: "buf \<Rightarrow> u32 \<Rightarrow> u16 \<Rightarrow> nat_task" where
  "icmp_out_task p ip ident =
     \<lparr>tk_packet = p, tk_len = of_nat (length p), tk_type = nat_mapping_icmp, tk_host = ip,
      tk_aux = ident, tk_inbound = False, tk_bare_syn = False\<rparr>"

lemmas nat_tasks = tcp_out_task_def tcp_in_task_def icmp_out_task_def

lemma external_in: "sr_nat_lookup_external nt e ty = Some m \<Longrightarrow> m \<in> set (mappings nt)"
  by (auto simp: sr_nat_lookup_external_def dest: find_SomeD)

lemma internal_in: "sr_nat_lookup_internal nt ip aux ty = Some m \<Longrightarrow> m \<in> set (mappings nt)"
  by (auto simp: sr_nat_lookup_internal_def dest: find_SomeD)

lemma conns_same: "m\<lparr>conns := conns m\<rparr> = (m :: sr_nat_mapping)"
  by simp

text \<open>What is left of the two TCP handlers once their calls are done.\<close>

definition tcp_out_finish ::
  "sr_instance \<Rightarrow> buf \<Rightarrow> u32 \<Rightarrow> nat \<Rightarrow> u32 \<Rightarrow> nat_pc \<times> sr_nat \<Rightarrow> (int \<times> buf \<times> sr_instance) option" where
  "tcp_out_finish sr p len tcp dst r =
     (let sr = sr\<lparr>nat_st := snd r\<rparr>
      in case fst r of
        Done (Some mapping) (Some _) \<Rightarrow> do {
          p \<leftarrow> wr16 (tcp + tcp_src_port) (htons (aux_ext mapping)) p;
          lpm \<leftarrow> sr_rt_lookup (routing_table sr) dst;
          lpm \<leftarrow> lpm;
          interface_info \<leftarrow> sr_get_interface (if_list sr) (rt_interface lpm);
          p \<leftarrow> wr32 ip_src (if_ip interface_info) p;
          p \<leftarrow> update_tcp_sums tcp len p;
          Some (1, p, sr)
        }
      | Done _ None \<Rightarrow> Some (0, p, sr)
      | _ \<Rightarrow> None)"

definition tcp_in_finish ::
  "sr_instance \<Rightarrow> buf \<Rightarrow> u32 \<Rightarrow> nat \<Rightarrow> bool \<Rightarrow> nat_pc \<times> sr_nat \<Rightarrow> (int \<times> buf \<times> sr_instance) option" where
  "tcp_in_finish sr p len tcp syn r =
     (let sr = sr\<lparr>nat_st := snd r\<rparr>
      in if syn then Some (-1, p, sr)
      else case fst r of
        Done (Some mapping) (Some _) \<Rightarrow> do {
          p \<leftarrow> wr16 (tcp + tcp_dst_port) (htons (aux_int mapping)) p;
          p \<leftarrow> wr32 ip_dst (htonl (ip_int mapping)) p;
          p \<leftarrow> update_tcp_sums tcp len p;
          Some (1, p, sr)
        }
      | Done (Some _) None \<Rightarrow> Some (0, p, sr)
      | Done None _ \<Rightarrow> do {
          p \<leftarrow> update_tcp_sums tcp len p;
          Some (1, p, sr)
        }
      | _ \<Rightarrow> None)"

lemma outbound_sections:
  assumes "nat_inv (nat_st sr)"
  shows "nat_tcp_outbound sr p len tcp src dst =
    do {
      _ \<leftarrow> rd_bytes tcp sizeof_sr_tcp_hdr p;
      port \<leftarrow> rd16 (tcp + tcp_src_port) p;
      r \<leftarrow> nat_sections (clock sr) (tcp_out_task p len (ntohl src) (ntohs port)) (nat_st sr);
      tcp_out_finish sr p len tcp dst r
    }"
proof (cases "rd_bytes tcp sizeof_sr_tcp_hdr p")
  case None
  then show ?thesis by (simp add: nat_tcp_outbound_def)
next
  case (Some bs)
  show ?thesis
  proof (cases "rd16 (tcp + tcp_src_port) p")
    case None
    with Some show ?thesis by (simp add: nat_tcp_outbound_def)
  next
    case port: (Some port)
    show ?thesis
    proof (cases "sr_nat_lookup_internal (nat_st sr) (ntohl src) (ntohs port) nat_mapping_tcp")
      case None
      obtain m nt where i: "sr_nat_insert_mapping (clock sr) (nat_st sr) (ntohl src) (ntohs port) nat_mapping_tcp = (m, nt)"
        by fastforce
      consider (stuck) "sr_nat_insert_connection (clock sr) nt (aux_ext m) p SYN_SENT = None"
        | (lost) nt' where "sr_nat_insert_connection (clock sr) nt (aux_ext m) p SYN_SENT = Some (None, nt')"
        | (made) c nt' where "sr_nat_insert_connection (clock sr) nt (aux_ext m) p SYN_SENT = Some (Some c, nt')"
        by (metis not_Some_eq surj_pair)
      then show ?thesis
        using Some port None i
        by cases (simp_all add: nat_tcp_outbound_def nat_sections_def nat_tasks tcp_out_finish_def)
    next
      case m: (Some m)
      have cs: "current_conns (nat_st sr) m = Some (conns m)"
        using current_conns_lookup internal_in [OF m] assms by (simp add: nat_inv_def)
      show ?thesis
        using Some port m cs
        by (cases "sr_nat_update_connection (clock sr) (nat_st sr) m p len 0")
          (auto simp: nat_tcp_outbound_def nat_sections_def nat_tasks tcp_out_finish_def split: option.splits)
    qed
  qed
qed

lemma inbound_sections:
  assumes "nat_inv (nat_st sr)"
  shows "nat_tcp_inbound sr p len tcp =
    do {
      flags \<leftarrow> tcp_flags_at tcp p;
      port \<leftarrow> rd16 (tcp + tcp_dst_port) p;
      let syn = (SYN flags \<and> \<not> ACK flags);
      r \<leftarrow> nat_sections (clock sr) (tcp_in_task p len (ntohs port) syn) (nat_st sr);
      tcp_in_finish sr p len tcp syn r
    }"
proof (cases "tcp_flags_at tcp p")
  case None
  then show ?thesis by (simp add: nat_tcp_inbound_def)
next
  case flags: (Some flags)
  show ?thesis
  proof (cases "rd16 (tcp + tcp_dst_port) p")
    case None
    with flags show ?thesis by (simp add: nat_tcp_inbound_def)
  next
    case port: (Some port)
    show ?thesis
    proof (cases "sr_nat_lookup_external (nat_st sr) (ntohs port) nat_mapping_tcp")
      case None
      show ?thesis
        using flags port None
        by (cases "SYN flags"; cases "ACK flags";
            cases "sr_nat_insert_unsolicited_packet (clock sr) (nat_st sr) p len")
          (simp_all add: nat_tcp_inbound_def nat_sections_def nat_tasks tcp_in_finish_def Let_def)
    next
      case m: (Some m)
      have cs: "current_conns (nat_st sr) m = Some (conns m)"
        using current_conns_lookup external_in [OF m] assms by (simp add: nat_inv_def)
      consider (stuck) "sr_nat_update_connection (clock sr) (nat_st sr) m p len 1 = None"
        | (lost) nt' where "sr_nat_update_connection (clock sr) (nat_st sr) m p len 1 = Some (None, nt')"
        | (made) c nt' where "sr_nat_update_connection (clock sr) (nat_st sr) m p len 1 = Some (Some c, nt')"
        by (metis not_Some_eq surj_pair)
      then show ?thesis
        using flags port m cs
        by cases (simp_all add: nat_tcp_inbound_def nat_sections_def nat_tasks tcp_in_finish_def Let_def)
    qed
  qed
qed

lemma icmp_sections:
  "nat_sections now (icmp_out_task p ip ident) nt =
     (let (m, nt') = nat_translate now nat_mapping_icmp nt ip ident in Some (Done (Some m) None, nt'))"
  by (simp add: nat_sections_def nat_tasks nat_translate_def split: option.splits prod.splits)

section \<open>Interleaving with the timers\<close>

text \<open>
  The main thread runs its next section, or a timer thread makes a round, or time passes.  A round
  of the NAT's timer holds the NAT's mutex from its start to its end, so it comes between sections.
\<close>

inductive race_step :: "nat_task \<Rightarrow> nat_pc \<times> sr_instance \<Rightarrow> nat_pc \<times> sr_instance \<Rightarrow> bool" for tk where
  call: "nat_section (clock sr) tk pc (nat_st sr) = Some (pc', nt) \<Longrightarrow>
    race_step tk (pc, sr) (pc', sr\<lparr>nat_st := nt\<rparr>)"
| nat_timer: "sr_nat_timeout sr = Some sr' \<Longrightarrow> race_step tk (pc, sr) (pc, sr')"
| arp_timer: "sr_arpcache_timeout sr = Some sr' \<Longrightarrow> race_step tk (pc, sr) (pc, sr')"
| tick: "clock sr \<le> t \<Longrightarrow> race_step tk (pc, sr) (pc, sr\<lparr>clock := t, clock_usec := u\<rparr>)"

text \<open>What holds at a program counter whatever the timers did since the last section.\<close>

fun pc_ok :: "nat_task \<Rightarrow> nat_pc \<Rightarrow> sr_nat \<Rightarrow> bool" where
  "pc_ok tk Lookup nt = nat_room nt"
| "pc_ok tk Insert_mapping nt =
     (nat_room nt \<and> sr_nat_lookup_internal nt (tk_host tk) (tk_aux tk) (tk_type tk) = None)"
| "pc_ok tk (Insert_connection m) nt =
     (\<forall>k \<in> set (mappings nt). aux_ext k = aux_ext m \<longrightarrow> map_type k = nat_mapping_tcp)"
| "pc_ok tk pc nt = True"

lemma conn_live_unsol [simp]: "conn_live t (nt\<lparr>unsol_pkt := u\<rparr>) = conn_live t nt"
  by (simp add: conn_live_def fun_eq_iff)

lemma nat_live_unsol [simp]:
  "map_live t (nt\<lparr>unsol_pkt := u\<rparr>) = map_live t nt" "expired t (nt\<lparr>unsol_pkt := u\<rparr>) = expired t nt"
proof -
  have "map_live t (nt\<lparr>unsol_pkt := u\<rparr>) m = map_live t nt m \<and> expired t (nt\<lparr>unsol_pkt := u\<rparr>) m = expired t nt m"
    for m by (cases "map_type m") (simp_all add: map_live_def expired_def)
  then show "map_live t (nt\<lparr>unsol_pkt := u\<rparr>) = map_live t nt" "expired t (nt\<lparr>unsol_pkt := u\<rparr>) = expired t nt"
    by (simp_all add: fun_eq_iff)
qed

lemma sr_nat_timeout_mappings:
  assumes "sr_nat_timeout sr = Some sr'"
  shows "mappings (nat_st sr') = map (expired (clock sr) (nat_st sr))
    (filter (map_live (clock sr) (nat_st sr)) (mappings (nat_st sr)))"
proof -
  obtain us us' sr1 where e: "expire_unsol sr us = Some (us', sr1)"
    and sr': "sr' = sr1\<lparr>nat_st := nat_expire (clock sr1) ((nat_st sr1)\<lparr>unsol_pkt := Some us'\<rparr>)\<rparr>"
    using assms by (auto simp: sr_nat_timeout_def Option.bind_eq_Some_conv Let_def)
  show ?thesis
    using only_cache_same(3,5) [OF expire_unsol_keeps(1) [OF e]] by (simp add: sr' nat_expire_mappings)
qed

lemma aux_ext_expired [simp]: "aux_ext (expired t nt m) = aux_ext m"
  by (simp add: expired_def split: sr_nat_mapping_type.split)

lemma pc_ok_timer:
  assumes "sr_nat_timeout sr = Some sr'" "pc_ok tk pc (nat_st sr)"
  shows "pc_ok tk pc (nat_st sr')"
proof -
  note ms = sr_nat_timeout_mappings [OF assms(1)]
  have len: "length (mappings (nat_st sr')) \<le> length (mappings (nat_st sr))"
    by (simp add: ms)
  have keys: "int_key ` set (mappings (nat_st sr')) \<subseteq> int_key ` set (mappings (nat_st sr))"
    by (auto simp: ms)
  show ?thesis
  proof (cases pc)
    case (Insert_connection m)
    then show ?thesis using assms(2) by (auto simp: ms)
  qed (use assms(2) len keys in \<open>auto simp: nat_room_def lookup_internal_None\<close>)
qed

lemma nat_section_inv:
  assumes s: "nat_section now tk pc nt = Some (pc', nt')" and ok: "nat_ok nt" "pc_ok tk pc nt"
    and len: "length (tk_packet tk) + 14 < 2 ^ 31"
  shows "nat_ok nt' \<and> pc_ok tk pc' nt'"
proof (cases pc)
  case Lookup
  then have n: "nt' = nt" "nat_room nt" using s ok by auto
  have "pc_ok tk pc' nt"
    using s Lookup n(2) by (auto split: option.splits if_splits)
  then show ?thesis using ok n by simp
next
  case Insert_mapping
  obtain m where i: "sr_nat_insert_mapping now nt (tk_host tk) (tk_aux tk) (tk_type tk) = (m, nt')"
    and pc': "pc' = (if tk_type tk = nat_mapping_tcp then Insert_connection m else Done (Some m) None)"
    using s Insert_mapping by (auto split: prod.splits)
  have ok': "nat_room nt" "sr_nat_lookup_internal nt (tk_host tk) (tk_aux tk) (tk_type tk) = None"
    using ok Insert_mapping by simp_all
  note n = nat_ok_insert_mapping [OF ok(1) ok' i]
  have inv: "nat_inv nt'" using n(1) by (simp add: nat_ok_def)
  have "pc_ok tk (Insert_connection m) nt'" if "tk_type tk = nat_mapping_tcp"
  proof -
    have "k = m" if "k \<in> set (mappings nt')" "aux_ext k = aux_ext m" for k
      using that n(2) lookup_external_iff [OF inv] by (metis option.inject)
    then show ?thesis using n(3) that by (metis pc_ok.simps(3))
  qed
  then show ?thesis using n pc' by auto
next
  case (Insert_connection m)
  then obtain c where i: "sr_nat_insert_connection now nt (aux_ext m) (tk_packet tk) SYN_SENT = Some (Some c, nt')"
    and pc': "pc' = Done (Some m) (Some c)"
    using s by (auto simp: Option.bind_eq_Some_conv)
  then obtain k where k: "sr_nat_lookup_external nt (aux_ext m) nat_mapping_tcp = Some k"
    by (auto simp: sr_nat_insert_connection_def sr_nat_lookup_external_def split: option.splits)
  have "map_type k = nat_mapping_tcp"
    using k ok(2) Insert_connection lookup_external_iff [of nt] ok(1) by (auto simp: nat_ok_def)
  with k have "nat_inv nt'"
    using insert_connection_inv [OF _ k _ i] ok(1) by (simp add: nat_ok_def)
  then show ?thesis
    using ok(1) states_ok_insert_connection [OF _ i] unsol_small_insert_connection [OF _ i] pc'
    by (simp add: nat_ok_def)
next
  case (Update_connection m)
  then show ?thesis
    using s nat_ok_update_connection [OF ok(1) len] by (auto simp: Option.bind_eq_Some_conv)
next
  case Insert_unsolicited
  then show ?thesis
    using s nat_ok_insert_unsolicited [OF ok(1) len] by (auto simp: Option.bind_eq_Some_conv)
qed (use s ok in auto)

lemma race_step_inv:
  assumes "race_step tk (pc, sr) (pc', sr')" "router_inv sr" "pc_ok tk pc (nat_st sr)"
    "length (tk_packet tk) + 14 < 2 ^ 31"
  shows "router_inv sr' \<and> pc_ok tk pc' (nat_st sr')"
  using assms(1)
proof cases
  case (call nt)
  then show ?thesis using nat_section_inv [OF call(2)] assms by (simp add: router_inv_def)
next
  case nat_timer
  then show ?thesis using sr_nat_timeout_keeps(3) pc_ok_timer assms(2,3) by blast
next
  case arp_timer
  then show ?thesis
    using sr_arpcache_timeout_keeps [OF arp_timer(2)] only_cache_same(1,3) assms(2,3)
    by (auto simp: router_inv_def)
qed (use assms in \<open>simp_all add: router_inv_def\<close>)

lemma races_keep_inv:
  assumes "(race_step tk)\<^sup>*\<^sup>* (pc, sr) (pc', sr')" "router_inv sr" "pc_ok tk pc (nat_st sr)"
    "length (tk_packet tk) + 14 < 2 ^ 31"
  shows "router_inv sr' \<and> pc_ok tk pc' (nat_st sr')"
  using assms
proof (induction "(pc', sr')" arbitrary: pc' sr' rule: rtranclp_induct)
  case (step y)
  obtain pc1 sr1 where y: "y = (pc1, sr1)" by (cases y)
  show ?case
    using race_step_inv [of tk pc1 sr1 pc' sr'] step.hyps(2) step.hyps(3) [OF y] step.prems y by blast
qed simp

section \<open>Two races\<close>

text \<open>A new mapping has no connection yet, so any round of the timer frees it.\<close>

lemma timer_frees_new_mapping:
  assumes ok: "nat_ok nt" "nat_room nt" "sr_nat_lookup_internal nt (tk_host tk) (tk_aux tk) (tk_type tk) = None"
    and ins: "nat_section now tk Insert_mapping nt = Some (Insert_connection m, nt1)"
    and sr: "nat_st sr = nt1" and timer: "sr_nat_timeout sr = Some sr'"
  shows "sr_nat_lookup_external (nat_st sr') (aux_ext m) nat_mapping_tcp = None"
    "nat_section now' tk (Insert_connection m) (nat_st sr') = None"
proof -
  have i: "sr_nat_insert_mapping now nt (tk_host tk) (tk_aux tk) (tk_type tk) = (m, nt1)"
    and tcp: "tk_type tk = nat_mapping_tcp"
    using ins by (auto split: prod.splits if_splits)
  have inv: "nat_inv nt" using ok(1) by (simp add: nat_ok_def)
  note n = insert_mapping_inv [OF inv ok(2,3) i]
  have "\<not> map_live t nt1 m" for t using n(5,6) tcp by (simp add: map_live_def)
  moreover have "aux_ext k \<noteq> aux_ext m" if "k \<in> set (mappings nt)" for k
    using that n(7) by (metis ext_id_def image_eqI)
  ultimately have "\<forall>k \<in> set (mappings (nat_st sr')). aux_ext k \<noteq> aux_ext m"
    using n(8) by (auto simp: sr_nat_timeout_mappings [OF timer] sr)
  then have f: "find (\<lambda>k. aux_ext k = aux_ext m) (mappings (nat_st sr')) = None"
    by (simp add: find_None_iff)
  then show "sr_nat_lookup_external (nat_st sr') (aux_ext m) nat_mapping_tcp = None"
    by (simp add: sr_nat_lookup_external_def)
  show "nat_section now' tk (Insert_connection m) (nat_st sr') = None"
    using f by (simp add: sr_nat_insert_connection_def)
qed

text \<open>The head of a copied connection list is freed when that connection expires.\<close>

lemma timer_frees_copied_conn:
  assumes ok: "nat_inv (nat_st sr)" and m: "m \<in> set (mappings (nat_st sr))" "map_type m = nat_mapping_tcp"
    and c: "conns m = c # cs" "\<not> conn_live (clock sr) (nat_st sr) c"
    and timer: "sr_nat_timeout sr = Some sr'"
  shows "nat_section now tk (Update_connection m) (nat_st sr') = None"
proof -
  let ?nt = "nat_st sr"
  have d: "distinct (map conn_addr (all_conns ?nt))" using ok by (simp add: nat_inv_def conns_inv_def)
  have all: "c \<in> set (all_conns ?nt)" using m c by (auto simp: all_conns_def intro!: bexI [of _ m])
  have "conn_addr c \<notin> conn_addr ` set (conns k)" if k: "k \<in> set (mappings (nat_st sr'))" for k
  proof
    assume "conn_addr c \<in> conn_addr ` set (conns k)"
    then obtain e where e: "e \<in> set (conns k)" "conn_addr e = conn_addr c" by auto
    obtain k0 where k0: "k0 \<in> set (mappings ?nt)" "k = expired (clock sr) ?nt k0"
      using k by (auto simp: sr_nat_timeout_mappings [OF timer])
    with e have "e \<in> set (conns k0)" using expired_simps(4) by blast
    then have "e \<in> set (all_conns ?nt)" using k0 by (auto simp: all_conns_def)
    with e(2) all d have "e = c" by (simp add: distinct_map inj_on_def)
    with \<open>e \<in> set (conns k0)\<close> have "map_type k0 = nat_mapping_tcp"
      using ok k0(1) by (cases "map_type k0") (auto simp: nat_inv_def conns_inv_def)
    with e \<open>e = c\<close> c(2) k0(2) show False by (simp add: expired_def)
  qed
  then have "find (\<lambda>k. conn_addr c \<in> conn_addr ` set (conns k)) (mappings (nat_st sr')) = None"
    by (simp add: find_None_iff)
  then have "current_conns (nat_st sr') m = None" by (simp add: current_conns_def c)
  then show ?thesis by simp
qed

end
