(* ===== verification/SR_NatSpec.thy ===== *)
theory SR_NatSpec
  imports SR_Races
begin

text \<open>
  What the NAT promises, without its bitmap, connections, timeouts and locks: a finite one-to-one map
  from internal endpoints to external identifiers, in which an endpoint is opened with a fresh identifier,
  keeps it, and expires.  As long as there are no more mappings than identifiers, every step of the router,
  and every step of a handler interleaved with the timers, is one step of this machine, in which only the
  timer expires endpoints.
\<close>

section \<open>The abstract machine\<close>

type_synonym endpoint = "u32 \<times> u16"

datatype nat_event = Quiet | Opened endpoint u16 | Expired "endpoint set"

inductive nat_spec :: "(endpoint \<Rightarrow> u16 option) \<Rightarrow> nat_event \<Rightarrow> (endpoint \<Rightarrow> u16 option) \<Rightarrow> bool" where
  quiet: "nat_spec f Quiet f"
| opened: "f e = None \<Longrightarrow> 1024 \<le> unat k \<Longrightarrow> k \<notin> ran f \<Longrightarrow> nat_spec f (Opened e k) (f(e \<mapsto> k))"
| expired: "nat_spec f (Expired E) (f |` (- E))"

inductive_cases nat_spec_cases: "nat_spec f ev g"

text \<open>The steps of a handler.\<close>

definition nat_opens :: "(endpoint \<Rightarrow> u16 option) \<Rightarrow> (endpoint \<Rightarrow> u16 option) \<Rightarrow> bool" where
  "nat_opens f g \<longleftrightarrow> (\<exists>ev. nat_spec f ev g \<and> (\<forall>E. ev \<noteq> Expired E))"

lemma nat_opens_refl [simp, intro]: "nat_opens f f"
  unfolding nat_opens_def by (rule exI [of _ Quiet]) (simp add: quiet)

lemma nat_opens_cases:
  "nat_opens f g \<longleftrightarrow>
     g = f \<or> (\<exists>e k. f e = None \<and> 1024 \<le> unat k \<and> k \<notin> ran f \<and> g = f(e \<mapsto> k))"
  (is "_ \<longleftrightarrow> ?r")
proof
  show ?r if o: "nat_opens f g"
  proof -
    obtain ev where "nat_spec f ev g" "\<forall>E. ev \<noteq> Expired E" using o unfolding nat_opens_def by blast
    then show ?r by cases blast+
  qed
  show "nat_opens f g" if r: ?r
  proof (cases "g = f")
    case False
    with r obtain e k where "nat_spec f (Opened e k) g" using opened by blast
    then show ?thesis unfolding nat_opens_def by (intro exI [of _ "Opened e k"]) simp
  qed simp
qed

definition one_to_one :: "(endpoint \<Rightarrow> u16 option) \<Rightarrow> bool" where
  "one_to_one f \<longleftrightarrow> inj_on f (dom f) \<and> (\<forall>k \<in> ran f. 1024 \<le> unat k)"

lemma one_to_oneD: "one_to_one f \<Longrightarrow> f e = Some k \<Longrightarrow> f e' = Some k \<Longrightarrow> e = e'"
  unfolding one_to_one_def inj_on_def by (metis domI)

lemma one_to_oneI:
  "(\<And>e e' k. f e = Some k \<Longrightarrow> f e' = Some k \<Longrightarrow> e = e') \<Longrightarrow> (\<And>k. k \<in> ran f \<Longrightarrow> 1024 \<le> unat k) \<Longrightarrow>
     one_to_one f"
  unfolding one_to_one_def inj_on_def by (metis domD)

lemma nat_spec_one_to_one: "nat_spec f ev g \<Longrightarrow> one_to_one f \<Longrightarrow> one_to_one g"
proof (induction rule: nat_spec.induct)
  case (opened f e k)
  have new: "f x \<noteq> Some k" for x using opened.hyps(3) by (metis ranI)
  show ?case
  proof (rule one_to_oneI)
    show "a = b" if "(f(e \<mapsto> k)) a = Some j" "(f(e \<mapsto> k)) b = Some j" for a b j
      using that new one_to_oneD [OF opened.prems] by (auto split: if_splits)
    show "1024 \<le> unat j" if "j \<in> ran (f(e \<mapsto> k))" for j
      using that opened by (auto simp: one_to_one_def)
  qed
next
  case (expired f E)
  show ?case
  proof (rule one_to_oneI)
    show "a = b" if "(f |` (- E)) a = Some j" "(f |` (- E)) b = Some j" for a b j
      using that one_to_oneD [OF expired] by (auto simp: restrict_map_def split: if_splits)
    show "1024 \<le> unat j" if "j \<in> ran (f |` (- E))" for j
      using that expired by (auto simp: one_to_one_def ran_def restrict_map_def split: if_splits)
  qed
qed

text \<open>An endpoint keeps its identifier while it is open.\<close>

lemma nat_spec_stable: "nat_spec f ev g \<Longrightarrow> f e = Some k \<Longrightarrow> g e \<noteq> None \<Longrightarrow> g e = Some k"
  by (induction rule: nat_spec.induct) (auto simp: restrict_map_def split: if_splits)

section \<open>The view of the table\<close>

definition nat_view :: "sr_nat \<Rightarrow> endpoint \<Rightarrow> u16 option" where
  "nat_view nt = map_of (map (\<lambda>m. (int_key m, aux_ext m)) (mappings nt))"

lemma nat_view_finite: "finite (dom (nat_view nt))"
  by (simp add: nat_view_def finite_dom_map_of)

lemma nat_view_unsol [simp]: "nat_view (nt\<lparr>unsol_pkt := u\<rparr>) = nat_view nt"
  by (simp add: nat_view_def)

lemma nat_view_iff:
  assumes "nat_inv nt"
  shows "nat_view nt e = Some k \<longleftrightarrow> (\<exists>m \<in> set (mappings nt). int_key m = e \<and> aux_ext m = k)"
proof -
  have "distinct (map fst (map (\<lambda>m. (int_key m, aux_ext m)) (mappings nt)))"
    using assms by (simp add: nat_inv_def comp_def)
  then show ?thesis by (auto simp: nat_view_def)
qed

text \<open>The two lookups of the code read the view, by key and by value.\<close>

lemma lookup_internal_view:
  assumes "nat_inv nt"
  shows "map_option aux_ext (sr_nat_lookup_internal nt ip aux ty) = nat_view nt (ip, aux)"
proof (cases "sr_nat_lookup_internal nt ip aux ty")
  case None
  then have "nat_view nt (ip, aux) \<noteq> Some k" for k
    unfolding nat_view_iff [OF assms] by (force simp: lookup_internal_None)
  then show ?thesis using None by (cases "nat_view nt (ip, aux)") auto
next
  case (Some m)
  then have "m \<in> set (mappings nt)" "int_key m = (ip, aux)" using lookup_internal_iff [OF assms] by blast+
  then have "nat_view nt (ip, aux) = Some (aux_ext m)" using nat_view_iff [OF assms] by blast
  then show ?thesis using Some by simp
qed

lemma lookup_external_view:
  assumes "nat_inv nt"
  shows "map_option int_key (sr_nat_lookup_external nt k ty) = Some e \<longleftrightarrow> nat_view nt e = Some k"
  using nat_view_iff [OF assms] lookup_external_iff [OF assms] by auto

lemma nat_view_one_to_one:
  assumes "nat_inv nt"
  shows "one_to_one (nat_view nt)"
proof (rule one_to_oneI)
  show "e = e'" if "nat_view nt e = Some k" "nat_view nt e' = Some k" for e e' k
    using that lookup_external_view [OF assms] by (metis option.inject)
next
  fix k assume "k \<in> ran (nat_view nt)"
  then obtain m where "m \<in> set (mappings nt)" "aux_ext m = k"
    using nat_view_iff [OF assms] by (auto simp: ran_def)
  then show "1024 \<le> unat k"
    using assms by (auto simp: nat_inv_def pool.tracks_def ext_id_def)
qed

section \<open>The operations refine the machine\<close>

text \<open>Making a mapping opens its endpoint.\<close>

lemma insert_mapping_spec:
  assumes "nat_inv nt" "nat_room nt" "sr_nat_lookup_internal nt ip aux ty = None"
    "sr_nat_insert_mapping now nt ip aux ty = (m, nt')"
  shows "nat_opens (nat_view nt) (nat_view nt')"
proof -
  note i = insert_mapping_inv [OF assms]
  have "nat_view nt' = (nat_view nt)((ip, aux) \<mapsto> aux_ext m)"
    by (simp add: nat_view_def i(3,8))
  moreover have "nat_view nt (ip, aux) = None"
    using lookup_internal_view [OF assms(1), of ip aux ty] assms(3) by simp
  moreover have "aux_ext m \<notin> ran (nat_view nt)"
  proof
    assume "aux_ext m \<in> ran (nat_view nt)"
    then obtain k where "k \<in> set (mappings nt)" "aux_ext k = aux_ext m"
      unfolding ran_def nat_view_iff [OF assms(1)] by blast
    then show False using i(7) by (metis ext_id_def image_eqI)
  qed
  moreover have "1024 \<le> unat (aux_ext m)" using i(4) by (simp add: ext_id_def)
  ultimately show ?thesis unfolding nat_opens_cases by blast
qed

text \<open>What happens to connections and unsolicited packets cannot be seen.\<close>

lemma insert_unsolicited_view:
  "sr_nat_insert_unsolicited_packet now nt p len = Some nt' \<Longrightarrow> nat_view nt' = nat_view nt"
  by (auto dest: insert_unsolicited_eq)

lemma conn_assign_view [simp]: "nat_view (conn_assign a f nt) = nat_view nt"
  by (simp add: nat_view_def conn_assign_def comp_def int_key_def)

lemma update_connection_view:
  "sr_nat_update_connection now nt m p len dir = Some (c, nt') \<Longrightarrow> nat_view nt' = nat_view nt"
  by (auto simp: sr_nat_update_connection_def Option.bind_eq_Some_conv Let_def
      split: option.splits dest: insert_unsolicited_view)

lemma insert_connection_view:
  assumes "sr_nat_insert_connection now nt port p st = Some (c, nt')"
  shows "nat_view nt' = nat_view nt"
proof (cases "sr_nat_lookup_external nt port nat_mapping_tcp")
  case None
  then show ?thesis using assms by (simp add: sr_nat_insert_connection_def sr_nat_lookup_external_def)
next
  case (Some m)
  obtain e u where nt': "nt' = nt\<lparr>mappings := with_conn port e (mappings nt), nat_brk := Suc (nat_brk nt), unsol_pkt := u\<rparr>"
    by (rule insert_connection_cases [OF Some assms])
  have "map (\<lambda>m. (int_key m, aux_ext m)) (with_conn port e ms) = map (\<lambda>m. (int_key m, aux_ext m)) ms" for ms
    unfolding with_conn_def by (rule map_update_first) (simp add: int_key_def)
  then show ?thesis by (simp add: nat_view_def nt')
qed

text \<open>A round of the timer closes the endpoints whose mappings have expired.\<close>

lemma timeout_view:
  assumes "sr_nat_timeout sr = Some sr'" "nat_inv (nat_st sr)"
  shows "nat_view (nat_st sr') = nat_view (nat_st sr) |`
    (int_key ` set (filter (map_live (clock sr) (nat_st sr)) (mappings (nat_st sr))))"
proof -
  have view: "map_of (map (\<lambda>m. (int_key m, aux_ext m)) (filter P ms)) =
      map_of (map (\<lambda>m. (int_key m, aux_ext m)) ms) |` (int_key ` set (filter P ms))"
    if "distinct (map int_key ms)" for P and ms :: "sr_nat_mapping list"
    using that by (induction ms) (auto simp: restrict_map_def fun_eq_iff map_of_eq_None_iff image_iff)
  have "distinct (map int_key (mappings (nat_st sr)))" using assms(2) by (simp add: nat_inv_def)
  from view [OF this] show ?thesis
    by (simp add: nat_view_def sr_nat_timeout_mappings [OF assms(1)] comp_def)
qed

lemma timeout_spec:
  "sr_nat_timeout sr = Some sr' \<Longrightarrow> nat_inv (nat_st sr) \<Longrightarrow>
     \<exists>E. nat_spec (nat_view (nat_st sr)) (Expired E) (nat_view (nat_st sr'))"
  using expired [of _ "- S" for S] by (metis timeout_view double_complement)

lemmas nat_views = insert_unsolicited_view update_connection_view insert_connection_view

section \<open>The handlers refine the machine\<close>

lemma section_spec:
  assumes "nat_section now tk pc nt = Some (pc', nt')" "nat_inv nt" "pc_ok tk pc nt"
  shows "nat_opens (nat_view nt) (nat_view nt')"
proof (cases pc)
  case Insert_mapping
  then show ?thesis using assms by (auto split: prod.splits intro: insert_mapping_spec)
qed (use assms(1) in \<open>auto simp: Option.bind_eq_Some_conv dest!: nat_views\<close>)

text \<open>After the mapping has been looked up or made, the view stays.\<close>

lemma section_later:
  assumes "nat_section now tk pc nt = Some (pc', nt')"
  shows "pc' \<notin> {Lookup, Insert_mapping} \<or> pc = Lookup \<and> nt' = nt"
    "pc \<noteq> Insert_mapping \<Longrightarrow> nat_view nt' = nat_view nt"
proof -
  show "pc' \<notin> {Lookup, Insert_mapping} \<or> pc = Lookup \<and> nt' = nt"
    using assms by (cases pc) (auto simp: Option.bind_eq_Some_conv split: prod.splits if_splits)
  show "nat_view nt' = nat_view nt" if "pc \<noteq> Insert_mapping"
    using assms that by (cases pc) (auto simp: Option.bind_eq_Some_conv dest!: nat_views)
qed

lemma conn_assign_length [simp]: "length (mappings (conn_assign a f nt)) = length (mappings nt)"
  by (simp add: conn_assign_def)

lemma insert_unsolicited_length:
  "sr_nat_insert_unsolicited_packet now nt p len = Some nt' \<Longrightarrow> length (mappings nt') = length (mappings nt)"
  by (auto dest: insert_unsolicited_eq)

lemma update_connection_length:
  "sr_nat_update_connection now nt m p len dir = Some (c, nt') \<Longrightarrow> length (mappings nt') = length (mappings nt)"
  by (auto simp: sr_nat_update_connection_def Option.bind_eq_Some_conv Let_def
      split: option.splits dest: insert_unsolicited_length)

lemma section_length:
  "nat_section now tk pc nt = Some (pc', nt') \<Longrightarrow> pc \<noteq> Insert_mapping \<Longrightarrow>
     length (mappings nt') = length (mappings nt)"
  by (cases pc) (auto simp: Option.bind_eq_Some_conv
      dest!: insert_unsolicited_length update_connection_length insert_connection_length)

lemma sections_spec:
  assumes "nat_sections now tk nt = Some (pc, nt')" "nat_inv nt" "nat_fits nt'"
  shows "nat_opens (nat_view nt) (nat_view nt')"
proof -
  obtain pc1 pc2 nt2 where s: "nat_section now tk Lookup nt = Some (pc1, nt)"
      "nat_section now tk pc1 nt = Some (pc2, nt2)" "nat_section now tk pc2 nt2 = Some (pc, nt')"
    using assms(1) by (auto simp: nat_sections_def Option.bind_eq_Some_conv)
  have "pc1 \<noteq> Lookup" using s(1) by (auto split: option.splits if_splits)
  then have pc: "pc2 \<noteq> Insert_mapping" using section_later(1) [OF s(2)] by auto
  have "nat_fits nt2" using assms(3) section_length [OF s(3) pc] by (simp add: nat_fits_def)
  have "nat_opens (nat_view nt) (nat_view nt2)"
  proof (cases "pc1 = Insert_mapping")
    case True
    then have "pc_ok tk pc1 nt"
      using s(1,2) \<open>nat_fits nt2\<close> by (auto split: option.splits if_splits prod.splits dest: insert_mapping_fits)
    then show ?thesis by (rule section_spec [OF s(2) assms(2)])
  next
    case False
    then show ?thesis using section_later(2) [OF s(2)] by simp
  qed
  moreover have "nat_view nt' = nat_view nt2" by (rule section_later(2) [OF s(3) pc])
  ultimately show ?thesis by simp
qed

lemma tcp_finish_nat:
  "tcp_out_finish sr p len tcp dst r = Some (code, p', sr') \<Longrightarrow> nat_st sr' = snd r"
  "tcp_in_finish sr p len tcp syn r = Some (code, p', sr') \<Longrightarrow> nat_st sr' = snd r"
  by (auto simp: tcp_out_finish_def tcp_in_finish_def Let_def Option.bind_eq_Some_conv
      split: if_splits nat_pc.splits option.splits)

lemma handle_tcp_spec:
  assumes "nat_handle_tcp sr p len dir = Some (code, p', sr')" "nat_inv (nat_st sr)" "nat_fits (nat_st sr')"
  shows "nat_opens (nat_view (nat_st sr)) (nat_view (nat_st sr'))"
proof -
  consider "nat_st sr' = nat_st sr" | tcp src dst where "nat_tcp_outbound sr p len tcp src dst = Some (code, p', sr')"
    | tcp where "nat_tcp_inbound sr p len tcp = Some (code, p', sr')"
    using assms(1) by (auto simp: nat_handle_tcp_def Let_def Option.bind_eq_Some_conv split: if_splits)
  then show ?thesis
  proof cases
    case 2
    then obtain tk r where "nat_sections (clock sr) tk (nat_st sr) = Some r" "nat_st sr' = snd r"
      using tcp_finish_nat(1) unfolding outbound_sections [OF assms(2)]
      by (fastforce simp: Option.bind_eq_Some_conv)
    then show ?thesis using sections_spec [OF _ assms(2)] assms(3) by (metis prod.collapse)
  next
    case 3
    then obtain tk r where "nat_sections (clock sr) tk (nat_st sr) = Some r" "nat_st sr' = snd r"
      using tcp_finish_nat(2) unfolding inbound_sections [OF assms(2)]
      by (fastforce simp: Option.bind_eq_Some_conv Let_def)
    then show ?thesis using sections_spec [OF _ assms(2)] assms(3) by (metis prod.collapse)
  qed simp
qed

lemma handle_icmp_spec:
  assumes "nat_handle_icmp sr p = Some (code, p', sr')" "nat_inv (nat_st sr)" "nat_fits (nat_st sr')"
  shows "nat_opens (nat_view (nat_st sr)) (nat_view (nat_st sr'))"
  using assms(1)
proof (cases rule: nat_handle_icmp_cases)
  case (mapped ip ident m nt)
  then show ?thesis
    using insert_mapping_spec [OF assms(2)] insert_mapping_fits assms(3)
    by (cases "sr_nat_lookup_internal (nat_st sr) ip ident nat_mapping_icmp")
      (auto simp: nat_translate_def)
qed simp

lemma translated_spec:
  assumes "translated sr sr'" "nat_inv (nat_st sr)" "nat_fits (nat_st sr')"
  shows "nat_opens (nat_view (nat_st sr)) (nat_view (nat_st sr'))"
  using assms handle_icmp_spec handle_tcp_spec unfolding translated_def by blast

lemma handle_ippacket_spec:
  assumes "sr_handle_ippacket sr p len i = Some sr'" "nat_inv (nat_st sr)" "nat_fits (nat_st sr')"
  shows "nat_opens (nat_view (nat_st sr)) (nat_view (nat_st sr'))"
proof (cases "sr' = sr")
  case False
  then have "ends_with sr p len i sr'" using sr_handle_ippacket_ends [OF assms(1)] by simp
  then obtain p1 sr1 where t: "translated sr sr1"
    and e: "sr' = sr1 \<or> (\<exists>t c. sr_send_icmp sr1 p1 i t c = Some sr') \<or> sr_forward_ippacket sr1 p1 len i = Some sr'"
    by (auto simp: ends_with_def nat_step_def)
  have "nat_st sr' = nat_st sr1"
    using e sr_send_icmp_keeps(1) sr_forward_ippacket_keeps(1) only_cache_same(3) by metis
  then show ?thesis using translated_spec [OF t assms(2)] assms(3) by simp
qed simp

section \<open>Steps\<close>

lemma router_inv_nat: "router_inv sr \<Longrightarrow> nat_inv (nat_st sr)"
  by (simp add: router_inv_def nat_ok_def)

text \<open>
  Every step of the router is quiet, opens one endpoint, or is a round of the NAT's timer, as long as
  it leaves no more mappings than there are identifiers.
\<close>

lemma router_step_spec:
  assumes "router_step sr sr'" "nat_fits (nat_st sr')" "router_inv sr"
  shows "nat_opens (nat_view (nat_st sr)) (nat_view (nat_st sr')) \<or>
    sr_nat_timeout sr = Some sr' \<and> (\<exists>E. nat_spec (nat_view (nat_st sr)) (Expired E) (nat_view (nat_st sr')))"
  using assms(1)
proof cases
  case (frame p i)
  have "nat_st sr' = nat_st sr \<or> (\<exists>load len. sr_handle_ippacket sr load len i = Some sr')"
    using frame(2) sr_handle_arp_keeps(1) only_cache_same(3)
    by (auto simp: sr_handlepacket_def Let_def Option.bind_eq_Some_conv split: if_splits)
  then show ?thesis using handle_ippacket_spec [OF _ router_inv_nat [OF assms(3)] assms(2)] by auto
next
  case arp_timer
  then show ?thesis using only_cache_same(3) [OF sr_arpcache_timeout_keeps(1)] by simp
next
  case nat_timer
  then show ?thesis using timeout_spec router_inv_nat [OF assms(3)] by blast
qed simp_all

text \<open>The same at the grain of the locked calls of a handler.\<close>

lemma race_step_spec:
  assumes "race_step tk (pc, sr) (pc', sr')" "router_inv sr" "pc_ok tk pc (nat_st sr)"
  shows "nat_opens (nat_view (nat_st sr)) (nat_view (nat_st sr')) \<or>
    sr_nat_timeout sr = Some sr' \<and> (\<exists>E. nat_spec (nat_view (nat_st sr)) (Expired E) (nat_view (nat_st sr')))"
  using assms(1)
proof cases
  case (call nt)
  then show ?thesis using section_spec [OF call(2) router_inv_nat [OF assms(2)] assms(3)] by simp
next
  case nat_timer
  then show ?thesis using timeout_spec router_inv_nat [OF assms(2)] by blast
next
  case arp_timer
  then show ?thesis using only_cache_same(3) [OF sr_arpcache_timeout_keeps(1)] by simp
qed simp

section \<open>Runs\<close>

text \<open>
  A run without a round of the timer only adds endpoints: the ones that are open keep their identifier.
\<close>

lemma quiet_run_grows:
  assumes "(\<lambda>a b. fitting_step a b \<and> sr_nat_timeout a \<noteq> Some b)\<^sup>*\<^sup>* sr sr'" "router_inv sr"
  shows "nat_view (nat_st sr) \<subseteq>\<^sub>m nat_view (nat_st sr') \<and> router_inv sr'"
  using assms
proof (induction rule: rtranclp_induct)
  case (step a b)
  then have a: "nat_view (nat_st sr) \<subseteq>\<^sub>m nat_view (nat_st a)"
    and b: "router_step a b" "nat_fits (nat_st b)" "router_inv a" by (simp_all add: nat_fits_def)
  have "nat_opens (nat_view (nat_st a)) (nat_view (nat_st b))"
    using router_step_spec [OF b] step.hyps(2) by blast
  then have "nat_view (nat_st a) \<subseteq>\<^sub>m nat_view (nat_st b)"
    unfolding nat_opens_cases by (auto simp: map_le_def)
  then show ?case using a router_step_inv [OF b] map_le_trans by blast
qed simp

end
