(* ===== verification/SR_Wire.thy ===== *)
theory SR_Wire
  imports SR_System SR_Commands SR_Pipeline
begin

text \<open>
  What goes out on the server socket.  Every message the router writes, whatever handler or timer sends
  it, is a VNS packet message in the format of \<open>vnscommand.h\<close> around an Ethernet frame that carries the
  hardware address of the interface it leaves by; and such a message is what a client reads back.
\<close>

section \<open>Typed output\<close>

text \<open>A message of the format, or the part of one that \<open>write\<close> took.\<close>

definition typed_message :: "sr_if list \<Rightarrow> buf \<Rightarrow> bool" where
  "typed_message ifs m \<longleftrightarrow>
     (\<exists>iface frame n. m = take n (vns_message iface frame) \<and> frame_ok ifs frame iface)"

text \<open>Nothing but typed messages is added to what was written before.\<close>

definition typed_output :: "sr_instance \<Rightarrow> sr_instance \<Rightarrow> bool" where
  "typed_output sr sr' \<longleftrightarrow>
     if_list sr' = if_list sr \<and>
     (\<exists>ms. wire sr' = wire sr @ ms \<and> list_all (typed_message (if_list sr)) ms)"

lemma typed_same: "if_list sr' = if_list sr \<Longrightarrow> wire sr' = wire sr \<Longrightarrow> typed_output sr sr'"
  by (simp add: typed_output_def)

lemma typed_refl [simp]: "typed_output sr sr"
  by (rule typed_same) simp_all

lemma typed_trans: "typed_output a b \<Longrightarrow> typed_output b c \<Longrightarrow> typed_output a c"
  by (auto simp: typed_output_def)

lemma typed_cache [simp]:
  "typed_output sr (sr'\<lparr>cache := c\<rparr>) = typed_output sr sr'" "typed_output (sr\<lparr>cache := c\<rparr>) sr' = typed_output sr sr'"
  by (simp_all add: typed_output_def)

lemma typed_nat [simp]: "typed_output sr (sr'\<lparr>nat_st := n\<rparr>) = typed_output sr sr'"
  by (simp add: typed_output_def)

lemma only_nat_typed: "only_nat sr sr' \<Longrightarrow> typed_output sr sr'"
  by (auto simp: only_nat_def)

lemma typed_ifs: "typed_output sr sr' \<Longrightarrow> ifs_ok (if_list sr') = ifs_ok (if_list sr)"
  by (simp add: typed_output_def)

lemma send_packet_typed:
  assumes "sr_send_packet sr b len iface = Some (r, sr')" and ifs: "ifs_ok (if_list sr)"
  shows "typed_output sr sr'"
proof (cases "unat len < 14")
  case True
  then show ?thesis using assms by (simp add: sr_send_packet_def Let_def)
next
  case False
  define pkt where "pkt = (\<lambda>data. bytes32 (htonl (len + 24)) @ bytes32 (htonl 4) @ strncpy_bytes iface 16 @ data)"
  from False assms(1) obtain sr1 data ok where d: "rd_bytes 0 (unat len) b = Some data"
    and l: "sr_log_packet sr b (sint len) = Some sr1"
    and m: "sr_ether_addrs_match_interface sr1 b iface = Some ok"
    and e: "(if \<not> ok then Some (-1, sr1)
        else let ret = sock_write sr1 (unat (len + 24));
            sr2 = (if ret = -1 then sr1
                  else sr1\<lparr>wire := wire sr1 @ [take (nat ret) (take (unat (len + 24)) (pkt data))]\<rparr>)
        in Some (if ret < int (unat (len + 24)) then -1 else 0, sr2)) = Some (r, sr')"
    unfolding sr_send_packet_def pkt_def by (auto simp: Let_def Option.bind_eq_Some_conv)
  have c: "sr' = sr1 \<or> ok \<and> (\<exists>n k. sr' = sr1\<lparr>wire := wire sr1 @ [take n (take k (pkt data))]\<rparr>)"
    using e by (cases ok) (auto simp: Let_def split: if_splits)
  from sr_log_packet_output [OF l] obtain lf where sr1: "sr1 = sr\<lparr>logfile := lf\<rparr>"
    by (auto simp: emits_def)
  show ?thesis
  proof (cases "sr' = sr1")
    case True
    then show ?thesis by (simp add: typed_same sr1)
  next
    case sent: False
    with c obtain n k where ok: "ok" and sr': "sr' = sr1\<lparr>wire := wire sr1 @ [take n (take k (pkt data))]\<rparr>"
      by blast
    have data: "data = take (unat len) b" "unat len \<le> length b" using d by (auto simp: rd_bytes_def split: if_splits)
    then have ld: "length data = unat len" by simp
    from m ok obtain i where i: "sr_get_interface (if_list sr) iface = Some i"
      and a: "rd_bytes 6 6 b = rd_bytes 0 6 (if_addr i)" "rd_bytes 6 6 b \<noteq> None"
      by (auto simp: sr_ether_addrs_match_interface_def sr1 Option.bind_eq_Some_conv split: option.splits)
    have six: "length (if_addr i) = 6"
      using ifs sr_get_interface_Some [OF i] by (auto simp: ifs_ok_def list_all_iff)
    have "take 6 (drop 6 data) = take 6 (drop 6 b)"
      using False by (simp add: data drop_take min_def)
    also have "\<dots> = if_addr i" using a six by (simp add: rd_bytes_def split: if_splits)
    finally have "frame_ok (if_list sr) data iface" using i six False by (auto simp: frame_ok_def ld)
    moreover have "pkt data = vns_message iface data" by (simp add: pkt_def vns_message_def ld)
    ultimately have "typed_message (if_list sr) (take n (take k (pkt data)))"
      unfolding typed_message_def take_take by auto
    then show ?thesis by (simp add: typed_output_def sr' sr1)
  qed
qed

lemma send_arp_typed:
  "sr_send_arp sr i ty mac ip = Some sr' \<Longrightarrow> ifs_ok (if_list sr) \<Longrightarrow> typed_output sr sr'"
  by (auto simp: sr_send_arp_def Option.bind_eq_Some_conv Let_def intro: send_packet_typed)

lemma send_icmp_typed:
  "sr_send_icmp sr p i ty code = Some sr' \<Longrightarrow> ifs_ok (if_list sr) \<Longrightarrow> typed_output sr sr'"
  by (auto simp: sr_send_icmp_def Option.bind_eq_Some_conv Let_def split: option.splits
      intro: send_packet_typed)

lemma forward_typed:
  "sr_forward_ippacket sr p len i = Some sr' \<Longrightarrow> ifs_ok (if_list sr) \<Longrightarrow> typed_output sr sr'"
  by (auto simp: sr_forward_ippacket_def Option.bind_eq_Some_conv Let_def split: option.splits
      intro: send_icmp_typed) (rule send_packet_typed)

lemma send_queued_typed:
  "send_queued sr mac i pkts = Some sr' \<Longrightarrow> ifs_ok (if_list sr) \<Longrightarrow> typed_output sr sr'"
proof (induction pkts arbitrary: sr)
  case (Cons pkt rest)
  then obtain frame len r sr1 where s: "sr_send_packet sr frame len i = Some (r, sr1)"
    and q: "send_queued sr1 mac i rest = Some sr'"
    by (auto simp: Option.bind_eq_Some_conv)
  have t: "typed_output sr sr1" by (rule send_packet_typed [OF s Cons.prems(2)])
  with Cons.IH [OF q] Cons.prems(2) typed_ifs [OF t] show ?case by (auto intro: typed_trans)
qed simp

lemma handle_arp_typed:
  assumes "sr_handle_arp sr p len i = Some sr'" "ifs_ok (if_list sr)"
  shows "typed_output sr sr'"
proof -
  from assms(1) obtain hrd pro where r: "rd16 ar_hrd p = Some hrd" "rd16 ar_pro p = Some pro"
    by (auto simp: sr_handle_arp_def Option.bind_eq_Some_conv)
  show ?thesis
    using assms r
    by (auto simp: sr_handle_arp_def Option.bind_eq_Some_conv Let_def split: if_splits option.splits
        dest!: send_arp_typed send_queued_typed)
qed

lemma handle_ippacket_typed:
  assumes "sr_handle_ippacket sr p len i = Some sr'" "ifs_ok (if_list sr)"
  shows "typed_output sr sr'"
proof (cases "sr' = sr")
  case False
  then have "ends_with sr p len i sr'" using sr_handle_ippacket_ends [OF assms(1)] by simp
  then obtain p1 sr1 where n: "only_nat sr sr1"
    and e: "sr' = sr1 \<or> (\<exists>t c. sr_send_icmp sr1 p1 i t c = Some sr') \<or>
         sr_forward_ippacket sr1 p1 len i = Some sr'"
    by (auto simp: ends_with_def nat_step_def)
  have t: "typed_output sr sr1" by (rule only_nat_typed [OF n])
  then have "ifs_ok (if_list sr1)" using assms(2) by (simp add: typed_ifs)
  then have "typed_output sr1 sr'" using e send_icmp_typed forward_typed by (metis typed_refl)
  with t show ?thesis by (rule typed_trans)
qed simp

lemma handlepacket_typed:
  assumes "sr_handlepacket sr p len i = Some sr'" "ifs_ok (if_list sr)"
  shows "typed_output sr sr'"
  using assms handle_arp_typed handle_ippacket_typed
  by (auto simp: sr_handlepacket_def Option.bind_eq_Some_conv Let_def split: if_splits)

section \<open>The timers\<close>

lemma send_unreachable_typed:
  "send_unreachable sr pkts = Some sr' \<Longrightarrow> ifs_ok (if_list sr) \<Longrightarrow> typed_output sr sr'"
proof (induction pkts arbitrary: sr)
  case (Cons pkt rest)
  then obtain sr1 where s: "sr_send_icmp sr (pkt_buf pkt) (pkt_sender pkt) icmp_type_dstunreachable 1 = Some sr1"
    and q: "send_unreachable sr1 rest = Some sr'"
    by (auto simp: Option.bind_eq_Some_conv)
  have t: "typed_output sr sr1" by (rule send_icmp_typed [OF s Cons.prems(2)])
  with Cons.IH [OF q] Cons.prems(2) typed_ifs [OF t] show ?case by (auto intro: typed_trans)
qed simp

lemma handle_arpreq_queue_typed:
  "sr_handle_arpreq_queue sr a = Some sr' \<Longrightarrow> ifs_ok (if_list sr) \<Longrightarrow> typed_output sr sr'"
  by (auto simp: sr_handle_arpreq_queue_def Option.bind_eq_Some_conv split: if_splits list.splits
      dest!: send_unreachable_typed send_arp_typed)

lemma sweep_loop_typed:
  "sweep_loop n sr a = Some sr' \<Longrightarrow> ifs_ok (if_list sr) \<Longrightarrow> typed_output sr sr'"
proof (induction n sr a rule: sweep_loop.induct)
  case (3 n sr a)
  then obtain sr1 nx where s: "sr_handle_arpreq_queue sr a = Some sr1"
    and q: "req_next a (requests (cache sr1)) = Some nx" "sweep_loop n sr1 nx = Some sr'"
    by (auto simp: Option.bind_eq_Some_conv)
  have t: "typed_output sr sr1" by (rule handle_arpreq_queue_typed [OF s "3.prems"(2)])
  with "3.IH" [OF s q] "3.prems"(2) typed_ifs [OF t] show ?case by (auto intro: typed_trans)
qed simp_all

lemma arp_timeout_typed:
  "sr_arpcache_timeout sr = Some sr' \<Longrightarrow> ifs_ok (if_list sr) \<Longrightarrow> typed_output sr sr'"
  using sweep_loop_typed [of _ "sr\<lparr>cache := arp_expire (clock sr) (cache sr)\<rparr>" _ sr']
  by (auto simp: sr_arpcache_timeout_def sr_arpcache_sweepreqs_def)

lemma expire_unsol_typed:
  "expire_unsol sr us = Some (us', sr') \<Longrightarrow> ifs_ok (if_list sr) \<Longrightarrow> typed_output sr sr'"
proof (induction us arbitrary: sr us')
  case (Cons u us)
  then obtain src lpm where l: "rd32 ip_src (un_ip_packet u) = Some src"
    "sr_rt_lookup (routing_table sr) src = Some lpm" by (auto simp: Option.bind_eq_Some_conv)
  consider us1 where "expire_unsol sr us = Some (us1, sr')"
    | i sr1 where "sr_send_icmp sr (un_ip_packet u) i icmp_type_dstunreachable 3 = Some sr1"
        "expire_unsol sr1 us = Some (us', sr')"
    using Cons.prems l by (cases lpm) (auto simp: Option.bind_eq_Some_conv split: if_splits)
  then show ?case
  proof cases
    case 1
    then show ?thesis by (rule Cons.IH [OF _ Cons.prems(2)])
  next
    case 2
    have t: "typed_output sr sr1" by (rule send_icmp_typed [OF 2(1) Cons.prems(2)])
    with Cons.IH [OF 2(2)] Cons.prems(2) typed_ifs [OF t] show ?thesis by (auto intro: typed_trans)
  qed
qed simp

lemma nat_timeout_typed:
  "sr_nat_timeout sr = Some sr' \<Longrightarrow> ifs_ok (if_list sr) \<Longrightarrow> typed_output sr sr'"
  by (auto simp: sr_nat_timeout_def Option.bind_eq_Some_conv Let_def dest!: expire_unsol_typed)

section \<open>Every run\<close>

lemma router_step_typed:
  assumes "router_step sr sr'" "ifs_ok (if_list sr)"
  shows "typed_output sr sr'"
  using assms
  by cases (auto intro: handlepacket_typed arp_timeout_typed nat_timeout_typed typed_same)

lemma router_run_typed:
  assumes "router_step\<^sup>*\<^sup>* sr sr'" "ifs_ok (if_list sr)"
  shows "typed_output sr sr'"
  using assms
proof (induction rule: rtranclp_induct)
  case (step a b)
  then have t: "typed_output sr a" by blast
  with router_step_typed [OF step.hyps(2)] typed_ifs [OF t] step.prems show ?case
    by (auto intro: typed_trans)
qed simp

section \<open>A frame through the server's stream\<close>

text \<open>A message the router writes has the format of a packet command.\<close>

lemma vns_message_command: "vns_message iface f = wire_command 4 (strncpy_bytes iface 16 @ f)"
  by (simp add: vns_message_def wire_command_def add.commute)

definition iface_name_ok :: "string \<Rightarrow> bool" where
  "iface_name_ok iface \<longleftrightarrow> length iface < 16 \<and> CHR 0x00 \<notin> set iface"

lemma cstr_iface:
  assumes "iface_name_ok iface"
  shows "cstr (strncpy_bytes iface 16 @ f) = Some iface"
proof -
  let ?b = "strncpy_bytes iface 16"
  have z: "0 \<in> set ?b" and "field_str ?b = iface"
    using assms field_str_chars [of iface "16 - length iface"]
    by (simp_all add: iface_name_ok_def strncpy_bytes_def)
  moreover have "field_str (?b @ f) = field_str ?b"
    unfolding field_str_def using takeWhile_append1 [OF z, of "\<lambda>x. x \<noteq> 0" f] by simp
  ultimately show ?thesis by (simp add: cstr_def)
qed

lemma with_log [simp]:
  "router_inv (sr\<lparr>logfile := lf\<rparr>) = router_inv sr" "sock_ok (sr\<lparr>logfile := lf\<rparr>) = sock_ok sr"
  "for_router (sr\<lparr>logfile := lf\<rparr>) = for_router sr" "ip_frame (sr\<lparr>logfile := lf\<rparr>) = ip_frame sr"
  by (simp_all add: router_inv_def sock_ok_def for_router_def ip_frame_def fun_eq_iff)

lemma packet_command_frame:
  assumes iface: "iface_name_ok iface" "sr_get_interface (if_list (router c)) iface = Some i"
    and f: "rd16 ether_type f = Some ty" "ty \<noteq> htons ethertype_arp" "14 \<le> length f" "length f + 24 \<le> 10000"
  shows "\<exists>lf. packet_command c (host_command 4 (strncpy_bytes iface 16 @ f)) (int (length f) + 24) =
    map_option (\<lambda>sr. (1, c\<lparr>router := sr\<rparr>))
      (sr_handlepacket ((router c)\<lparr>logfile := lf\<rparr>) f (of_nat (length f)) iface)"
proof -
  define msg where "msg = host_command 4 (strncpy_bytes iface 16 @ f)"
  have m: "drop 8 msg = strncpy_bytes iface 16 @ f" "drop 24 msg = f"
      "rd32 0 msg = Some (htonl (of_nat (length f + 24)))"
    by (simp_all add: msg_def host_command_def rd32_bytes32 add.commute)
  have n: "length f < 2 ^ 31" using f(4) by simp
  have len: "(word_of_int (int (length f) + 24 - 38 + 14) :: u32) = of_nat (length f)" by simp
  have u: "unat (of_nat (length f) :: u32) = length f" by (rule u32_of_nat(1) [OF n])
  have nf: "sr_arp_req_not_for_us (router c) f (of_nat (length f)) iface = Some False"
    using iface(2) f(1,2) by (simp add: sr_arp_req_not_for_us_def Let_def)
  have sz: "sint (ntohl (htonl (of_nat (length f + 24))) - 24 :: u32) = int (length f)"
    using u32_of_nat(2) [OF n] by (simp add: byteorder)
  obtain sr1 where l: "sr_log_packet (router c) f (int (length f)) = Some sr1"
    using sr_log_packet_defined [of "int (length f)" f "router c"] by auto
  then obtain lf where sr1: "sr1 = (router c)\<lparr>logfile := lf\<rparr>"
    using sr_log_packet_output [OF l] by (auto simp: emits_def)
  have "packet_command c msg (int (length f) + 24) =
      map_option (\<lambda>sr. (1, c\<lparr>router := sr\<rparr>)) (sr_handlepacket sr1 f (of_nat (length f)) iface)"
    unfolding packet_command_def Let_def m len
    using l by (simp add: cstr_iface [OF iface(1)] nf sz u32_of_nat(2) [OF n] map_conv_bind_option comp_def)
  then show ?thesis unfolding msg_def sr1 by blast
qed

lemma client_frame:
  assumes s: "stream (inbox c) = vns_message iface f @ rest" "Failed \<notin> set (inbox c)"
    and iface: "iface_name_ok iface" "sr_get_interface (if_list (router c)) iface = Some i"
    and f: "rd16 ether_type f = Some ty" "ty \<noteq> htons ethertype_arp" "14 \<le> length f" "length f + 24 \<le> 10000"
  shows "\<exists>evs lf. stream evs = rest \<and> sr_read_from_server c =
    defined (map_option (\<lambda>sr. (1, c\<lparr>inbox := evs, router := sr\<rparr>))
      (sr_handlepacket ((router c)\<lparr>logfile := lf\<rparr>) f (of_nat (length f)) iface))"
proof -
  obtain evs where e: "stream evs = rest"
    and r: "sr_read_from_server c = defined (handle_command (c\<lparr>inbox := evs\<rparr>)
      (host_command 4 (strncpy_bytes iface 16 @ f)) (int (length f) + 24) 4)"
    using read_from_server_command [OF _ _ s(2), of 4 "strncpy_bytes iface 16 @ f" rest] s(1) f(4)
    by (auto simp: vns_message_command add.commute)
  obtain lf where "packet_command (c\<lparr>inbox := evs\<rparr>) (host_command 4 (strncpy_bytes iface 16 @ f)) (int (length f) + 24) =
    map_option (\<lambda>sr. (1, c\<lparr>inbox := evs, router := sr\<rparr>))
      (sr_handlepacket ((router c)\<lparr>logfile := lf\<rparr>) f (of_nat (length f)) iface)"
    using packet_command_frame [of iface "c\<lparr>inbox := evs\<rparr>", OF iface(1) _ f] iface(2) by auto
  then show ?thesis using e r by (auto simp: handle_command_def)
qed

text \<open>A transit packet from the server's stream back to it: the command is read, and the packet sent on.\<close>

lemma client_forwards:
  assumes s: "stream (inbox c) = vns_message iface f @ rest" "Failed \<notin> set (inbox c)"
    and iface: "iface_name_ok iface" "length f + 24 \<le> 10000"
    and f: "ip_frame (router c) f iface i hl" "\<not> nat_enabled (router c)" "router_inv (router c)" "sock_ok (router c)"
    and dst: "rd32 ip_dst (drop 14 f) = Some dst" "\<not> for_router (router c) dst" "drop 14 f ! ip_ttl \<noteq> 1"
    and route: "sr_rt_lookup (routing_table (router c)) dst = Some (Some r)"
      "sr_get_interface (if_list (router c)) (rt_interface r) = Some out"
  shows "\<exists>evs lf p' sr'. stream evs = rest \<and>
    sr_read_from_server c = Returns (1, c\<lparr>inbox := evs, router := sr'\<rparr>) \<and>
    next_hop_header (drop 14 f) p' \<and>
    ip_output ((router c)\<lparr>logfile := lf\<rparr>) (rt_gw r) out p' (of_nat (length f) - 14) (rt_interface r) iface sr'"
proof -
  have h: "sr_get_interface (if_list (router c)) iface = Some i" "rd16 ether_type f = Some (htons ethertype_ip)"
      "14 \<le> length f" using f(1) by (simp_all add: ip_frame_def)
  have ne: "htons ethertype_ip \<noteq> htons ethertype_arp" by simp
  obtain evs lf where e: "stream evs = rest"
    and r: "sr_read_from_server c = defined (map_option (\<lambda>sr. (1, c\<lparr>inbox := evs, router := sr\<rparr>))
      (sr_handlepacket ((router c)\<lparr>logfile := lf\<rparr>) f (of_nat (length f)) iface))"
    using client_frame [OF s iface(1) h(1,2) ne h(3) iface(2)] by blast
  obtain p' sr' where "sr_handlepacket ((router c)\<lparr>logfile := lf\<rparr>) f (of_nat (length f)) iface = Some sr'"
    "next_hop_header (drop 14 f) p'"
    "ip_output ((router c)\<lparr>logfile := lf\<rparr>) (rt_gw r) out p' (of_nat (length f) - 14) (rt_interface r) iface sr'"
    using frame_forwarded [of "(router c)\<lparr>logfile := lf\<rparr>" f iface i hl _ _ dst r out, OF _ refl refl] f dst route
    by auto
  with e r show ?thesis by (auto simp: defined_def)
qed

end
