(* ===== verification/SR_Network.thy ===== *)
theory SR_Network
  imports SR_Wire
begin

text \<open>
  Routers in series.  The server takes the message one router writes and hands its frame to the router
  at the other end of the link, under the name the interface has there.  What one router sends is a
  frame the next one accepts, so a packet crosses both.
\<close>

section \<open>From one router to the next\<close>

lemma ether_frame_parts:
  assumes "length mac = 6" "length src = 6"
  shows "length (ether_frame mac src type p) = length p + 14" "drop 14 (ether_frame mac src type p) = p"
    "take 6 (ether_frame mac src type p) = mac" "rd16 ether_type (ether_frame mac src type p) = Some (htons type)"
  using assms by (simp_all add: ether_frame_def rd16_def nth_append bytes16_def le16_bytes)

text \<open>A header that passed one router is well-formed for the next one, and its addresses are as before.\<close>

lemma next_hop_header_ok:
  assumes "next_hop_header p p'" "header_ok p hl" "20 < length p"
  shows "header_ok p' hl" "rd32 ip_dst p' = rd32 ip_dst p" "rd32 ip_src p' = rd32 ip_src p"
proof -
  have k: "\<And>k. k \<notin> {ip_ttl, ip_sum, 11} \<Longrightarrow> p' ! k = p ! k" and l: "length p' = length p"
    using assms(1) by (simp_all add: next_hop_header_def)
  have "ip_hl p' = ip_hl p" using k [of 0] l by (simp add: ip_hl_def rd8_def)
  then show "header_ok p' hl" using assms by (simp add: header_ok_def next_hop_header_def)
  show "rd32 ip_dst p' = rd32 ip_dst p" "rd32 ip_src p' = rd32 ip_src p"
    using k l by (simp_all add: rd32_def)
qed

lemma next_frame:
  assumes h: "next_hop_header p p'" "header_ok p hl" "20 < length p" "length p \<le> 65535"
    and i: "sr_get_interface (if_list sr) iface = Some i" "length (if_addr i) = 6" "length src = 6"
  shows "ip_frame sr (ether_frame (if_addr i) src ethertype_ip p') iface i hl"
proof -
  have "length p' = length p" using h(1) by (simp add: next_hop_header_def)
  then show ?thesis
    using next_hop_header_ok [OF h(1-3)] h(3,4) i by (simp add: ip_frame_def ether_frame_parts)
qed

section \<open>One hop\<close>

text \<open>What \<open>client_forwards\<close> (\<open>SR_Wire\<close>) assumes of a client for a frame, but for the stream.\<close>

definition forwards :: "vns_client \<Rightarrow> string \<Rightarrow> buf \<Rightarrow> sr_rt \<Rightarrow> sr_if \<Rightarrow> bool" where
  "forwards c iface p r out \<longleftrightarrow>
     iface_name_ok iface \<and> \<not> nat_enabled (router c) \<and> router_inv (router c) \<and> sock_ok (router c) \<and>
     (\<exists>dst. rd32 ip_dst p = Some dst \<and> \<not> for_router (router c) dst \<and>
        sr_rt_lookup (routing_table (router c)) dst = Some (Some r)) \<and>
     sr_get_interface (if_list (router c)) (rt_interface r) = Some out"

lemma hop_output:
  assumes c: "forwards c iface p r out" "p ! ip_ttl \<noteq> 1" and f: "p = drop 14 f" "length f + 24 \<le> 10000"
    and s: "stream (inbox c) = vns_message iface f @ rest" "Failed \<notin> set (inbox c)"
    and h: "ip_frame (router c) f iface i hl"
  shows "\<exists>evs lf p' sr'. stream evs = rest \<and> sr_read_from_server c = Returns (1, c\<lparr>inbox := evs, router := sr'\<rparr>) \<and>
    next_hop_header p p' \<and>
    ip_output ((router c)\<lparr>logfile := lf\<rparr>) (rt_gw r) out p' (of_nat (length f) - 14) (rt_interface r) iface sr'"
proof -
  obtain dst where "rd32 ip_dst (drop 14 f) = Some dst" "\<not> for_router (router c) dst"
    "sr_rt_lookup (routing_table (router c)) dst = Some (Some r)"
    using c(1) f(1) by (auto simp: forwards_def)
  then show ?thesis
    using client_forwards [OF s _ f(2) h] c f(1) by (simp add: forwards_def)
qed

text \<open>With the gateway's address in the cache, the hop writes one frame for the gateway.\<close>

lemma hop_sent:
  assumes c: "forwards c iface p r out" "p ! ip_ttl \<noteq> 1" and f: "p = drop 14 f" "length f + 24 \<le> 10000"
    and s: "stream (inbox c) = vns_message iface f @ rest" "Failed \<notin> set (inbox c)"
    and h: "ip_frame (router c) f iface i hl"
    and e: "sr_arpcache_lookup (cache (router c)) (rt_gw r) = Some e"
  shows "\<exists>c' p'. sr_read_from_server c = Returns (1, c') \<and> stream (inbox c') = rest \<and> next_hop_header p p' \<and>
    wire (router c') = wire (router c) @
      [vns_message (rt_interface r) (ether_frame (ent_mac e) (if_addr out) ethertype_ip p')]"
proof -
  obtain evs lf p' sr' where r: "stream evs = rest"
      "sr_read_from_server c = Returns (1, c\<lparr>inbox := evs, router := sr'\<rparr>)" "next_hop_header p p'"
    and o: "ip_output ((router c)\<lparr>logfile := lf\<rparr>) (rt_gw r) out p' (of_nat (length f) - 14) (rt_interface r) iface sr'"
    using hop_output [OF c f s h] by blast
  have "wire sr' = wire (router c) @
      [vns_message (rt_interface r) (ether_frame (ent_mac e) (if_addr out) ethertype_ip p')]"
    using o e by (auto simp: ip_output_def dest: emits_wire)
  with r show ?thesis by force
qed

section \<open>Two hops\<close>

text \<open>What two hops leave of a packet.\<close>

lemma two_headers:
  assumes "next_hop_header p p'" "next_hop_header p' q" "header_ok p hl" "20 < length p"
  shows "q ! ip_ttl = p ! ip_ttl - 2" "\<forall>k. k \<notin> {ip_ttl, ip_sum, 11} \<longrightarrow> q ! k = p ! k"
    "valid_sum (take (hl * 4) q)" "length q = length p"
  using assms(1,2) next_hop_header_ok(1) [OF assms(1,3,4)] by (simp_all add: next_hop_header_def header_ok_def)

lemma two_hops:
  assumes c: "forwards c iface p r out" "p ! ip_ttl \<noteq> 1" and f: "p = drop 14 f" "length f + 24 \<le> 10000"
    and s: "stream (inbox c) = vns_message iface f @ rest" "Failed \<notin> set (inbox c)"
    and h: "ip_frame (router c) f iface i hl"
    and e: "sr_arpcache_lookup (cache (router c)) (rt_gw r) = Some e"
    and d: "forwards d iface2 p r2 out2" "p ! ip_ttl \<noteq> 2"
    and j: "sr_get_interface (if_list (router d)) iface2 = Some j" "if_addr j = ent_mac e"
  shows "\<exists>c' g. sr_read_from_server c = Returns (1, c') \<and>
    wire (router c') = wire (router c) @ [vns_message (rt_interface r) g] \<and>
    (\<forall>evs rest2. stream evs = vns_message iface2 g @ rest2 \<longrightarrow> Failed \<notin> set evs \<longrightarrow>
      (\<exists>evs' lf q sr'. stream evs' = rest2 \<and>
        sr_read_from_server (d\<lparr>inbox := evs\<rparr>) = Returns (1, d\<lparr>inbox := evs', router := sr'\<rparr>) \<and>
        q ! ip_ttl = p ! ip_ttl - 2 \<and> (\<forall>k. k \<notin> {ip_ttl, ip_sum, 11} \<longrightarrow> q ! k = p ! k) \<and>
        valid_sum (take (hl * 4) q) \<and> length q = length p \<and>
        ip_output ((router d)\<lparr>logfile := lf\<rparr>) (rt_gw r2) out2 q (of_nat (length f) - 14)
          (rt_interface r2) iface2 sr'))"
proof -
  obtain c' p' where r: "sr_read_from_server c = Returns (1, c')" "next_hop_header p p'"
    and w: "wire (router c') = wire (router c) @
      [vns_message (rt_interface r) (ether_frame (ent_mac e) (if_addr out) ethertype_ip p')]"
    using hop_sent [OF c f s h e] by blast
  define g where "g = ether_frame (ent_mac e) (if_addr out) ethertype_ip p'"
  have inv: "arp_inv (cache (router c))" "ifs_ok (if_list (router c))"
      "sr_get_interface (if_list (router c)) (rt_interface r) = Some out"
    using c(1) by (simp_all add: forwards_def router_inv_def)
  have a: "length (ent_mac e) = 6" "length (if_addr out) = 6"
    using arp_mac_length [OF inv(1) e] inv(2) sr_get_interface_Some [OF inv(3)]
    by (simp_all add: ifs_ok_def list_all_iff)
  have p: "header_ok p hl" "20 < length p" "length p \<le> 65535"
    using h ip_frame_len(2,3) [OF h] by (simp_all add: ip_frame_def f)
  have g: "drop 14 g = p'" "length g = length f"
    using a r(2) p(2) f(1) by (simp_all add: g_def ether_frame_parts next_hop_header_def)
  have h2: "ip_frame (router d) g iface2 j hl"
    using next_frame [OF r(2) p j(1) _ a(2)] a(1) by (simp add: g_def j(2))
  have h2': "ip_frame (router (d\<lparr>inbox := evs\<rparr>)) g iface2 j hl" for evs
    using h2 by simp
  have d2: "forwards (d\<lparr>inbox := evs\<rparr>) iface2 p' r2 out2" for evs
    using d(1) next_hop_header_ok(2) [OF r(2) p(1,2)] by (simp add: forwards_def)
  have ttl: "p' ! ip_ttl \<noteq> 1"
    using r(2) d(2) by (auto simp: next_hop_header_def)
  have "\<exists>evs' lf q sr'. stream evs' = rest2 \<and>
      sr_read_from_server (d\<lparr>inbox := evs\<rparr>) = Returns (1, d\<lparr>inbox := evs', router := sr'\<rparr>) \<and>
      q ! ip_ttl = p ! ip_ttl - 2 \<and> (\<forall>k. k \<notin> {ip_ttl, ip_sum, 11} \<longrightarrow> q ! k = p ! k) \<and>
      valid_sum (take (hl * 4) q) \<and> length q = length p \<and>
      ip_output ((router d)\<lparr>logfile := lf\<rparr>) (rt_gw r2) out2 q (of_nat (length f) - 14) (rt_interface r2) iface2 sr'"
    if st: "stream evs = vns_message iface2 g @ rest2" "Failed \<notin> set evs" for evs rest2
  proof -
    have l: "length g + 24 \<le> 10000" using f(2) g(2) by simp
    obtain evs' lf q sr' where q: "next_hop_header p' q" and o: "stream evs' = rest2"
        "sr_read_from_server (d\<lparr>inbox := evs\<rparr>) = Returns (1, d\<lparr>inbox := evs', router := sr'\<rparr>)"
        "ip_output ((router d)\<lparr>logfile := lf\<rparr>) (rt_gw r2) out2 q (of_nat (length f) - 14) (rt_interface r2) iface2 sr'"
      using hop_output [OF d2 ttl g(1) [symmetric] l _ _ h2', of evs rest2] st g(2)
      by (simp only: vns_client.simps) auto
    with two_headers [OF r(2) q p(1,2)] show ?thesis
      by (intro exI [of _ evs'] exI [of _ lf] exI [of _ q] exI [of _ sr']) simp
  qed
  with r w show ?thesis unfolding g_def by blast
qed

end
