(* ===== verification/SR_Print.thy ===== *)
theory SR_Print
  imports SR_Nat SR_ArpCache SR_Rt SR_If SR_Utils
begin

text \<open>
  What the program prints: the \<open>print_*\<close> functions of \<open>sr_utils.c\<close>, \<open>sr_print_if_list\<close>,
  \<open>sr_print_routing_table\<close>, \<open>sr_arpcache_dump\<close> and \<open>usage\<close>.  The result of a function is the text it
  writes to each stream, in order; a function that reads a packet is undefined where the read leaves
  the buffer.
\<close>

section \<open>Conversions of \<open>printf\<close>\<close>

datatype stream = Stdout | Stderr

type_synonym printed = "(stream \<times> string) list"

abbreviation (input) to_out :: "string \<Rightarrow> printed" where "to_out s \<equiv> [(Stdout, s)]"
abbreviation (input) to_err :: "string \<Rightarrow> printed" where "to_err s \<equiv> [(Stderr, s)]"

definition nl :: string where "nl = [CHR 0x0A]"
definition tab :: string where "tab = [CHR 0x09]"

definition text_of :: "printed \<Rightarrow> string" where
  "text_of ps = concat (map snd ps)"

lemma text_of_simps [simp]: "text_of [] = []" "text_of (p # ps) = snd p @ text_of ps"
  "text_of (ps @ qs) = text_of ps @ text_of qs"
  by (simp_all add: text_of_def)

text \<open>\<open>%d\<close> of a value that is not negative, \<open>%u\<close>; \<open>%02X\<close> of a byte, \<open>%02x\<close>, \<open>%.1x\<close> and \<open>%.8x\<close>.\<close>

definition digit :: "nat \<Rightarrow> char" where
  "digit d = char_of (48 + d)"

fun dec :: "nat \<Rightarrow> string" where
  "dec n = (if n < 10 then [digit n] else dec (n div 10) @ [digit (n mod 10)])"

declare dec.simps [simp del]

definition hex_digit :: "bool \<Rightarrow> nat \<Rightarrow> char" where
  "hex_digit upper d = (if d < 10 then digit d else char_of ((if upper then 55 else 87) + d))"

fun hexa :: "bool \<Rightarrow> nat \<Rightarrow> string" where
  "hexa upper n =
     (if n < 16 then [hex_digit upper n] else hexa upper (n div 16) @ [hex_digit upper (n mod 16)])"

declare hexa.simps [simp del]

definition zero_pad :: "nat \<Rightarrow> string \<Rightarrow> string" where
  "zero_pad w s = replicate (w - length s) (CHR ''0'') @ s"

definition hex_byte :: "bool \<Rightarrow> u8 \<Rightarrow> string" where
  "hex_byte upper b = zero_pad 2 (hexa upper (unat b))"

text \<open>\<open>inet_ntoa\<close> and \<open>inet_ntop\<close>: the bytes of an address in network order, in memory order.\<close>

definition inet_ntoa :: "u32 \<Rightarrow> string" where
  "inet_ntoa ip = dec (unat (byte 0 ip)) @ ''.'' @ dec (unat (byte 1 ip)) @ ''.'' @
     dec (unat (byte 2 ip)) @ ''.'' @ dec (unat (byte 3 ip))"

section \<open>\<open>sr_utils.c\<close>\<close>

fun print_tcp_state :: "sr_tcp_state_type \<Rightarrow> printed" where
  "print_tcp_state CLOSED = to_out (''CLOSED'' @ nl)"
| "print_tcp_state LISTEN = to_out (''LISTEN'' @ nl)"
| "print_tcp_state SYN_SENT = to_out (''SYN_SENT'' @ nl)"
| "print_tcp_state SYN_RCVD = to_out (''SYN_RCVD'' @ nl)"
| "print_tcp_state ESTAB = to_out (''ESTAB'' @ nl)"
| "print_tcp_state FIN_WAIT_1 = to_out (''FIN_WAIT_1'' @ nl)"
| "print_tcp_state FIN_WAIT_2 = to_out (''FIN_WAIT_2'' @ nl)"
| "print_tcp_state CLOSING = to_out (''CLOSING'' @ nl)"
| "print_tcp_state TIME_WAIT = to_out (''TIME_WAIT'' @ nl)"
| "print_tcp_state CLOST_WAIT = to_out (''CLOST_WAIT'' @ nl)"
| "print_tcp_state LAST_ACK = to_out (''LAST_ACK'' @ nl)"

text \<open>The loop of \<open>print_addr_eth\<close> from position \<open>pos\<close> on.\<close>

fun print_eth_loop :: "nat \<Rightarrow> buf \<Rightarrow> printed" where
  "print_eth_loop pos [] = []"
| "print_eth_loop pos (cur # rest) =
     (if 0 < pos then to_err '':'' else []) @ to_err (hex_byte True cur) @ print_eth_loop (pos + 1) rest"

definition print_addr_eth :: "nat \<Rightarrow> buf \<Rightarrow> printed option" where
  "print_addr_eth off p =
     do {
       addr \<leftarrow> rd_bytes off ETHER_ADDR_LEN p;
       Some (print_eth_loop 0 addr @ to_err nl)
     }"

definition print_addr_ip :: "u32 \<Rightarrow> printed" where
  "print_addr_ip address = to_err (inet_ntoa address @ nl)"

definition print_addr_ip_int :: "u32 \<Rightarrow> printed" where
  "print_addr_ip_int ip =
     to_err (dec (unat (drop_bit 24 ip)) @ ''.'') @
     to_err (dec (unat (drop_bit 24 (push_bit 8 ip))) @ ''.'') @
     to_err (dec (unat (drop_bit 24 (push_bit 16 ip))) @ ''.'') @
     to_err (dec (unat (drop_bit 24 (push_bit 24 ip))) @ nl)"

text \<open>One line of a header: a tab, the name of the field, and its value.\<close>

definition field_line :: "string \<Rightarrow> nat \<Rightarrow> printed" where
  "field_line name v = to_err (tab @ name @ '': '' @ dec v @ nl)"

definition print_hdr_eth :: "buf \<Rightarrow> printed option" where
  "print_hdr_eth p =
     do {
       dst \<leftarrow> print_addr_eth ether_dhost p;
       src \<leftarrow> print_addr_eth ether_shost p;
       type \<leftarrow> rd16 ether_type p;
       Some (to_err (''ETHERNET header:'' @ nl) @ to_err (tab @ ''destination: '') @ dst @
         to_err (tab @ ''source: '') @ src @ field_line ''type'' (unat (ntohs type)))
     }"

abbreviation (input) IP_RF :: u16 where "IP_RF \<equiv> 0x8000"
abbreviation (input) IP_DF :: u16 where "IP_DF \<equiv> 0x4000"
abbreviation (input) IP_MF :: u16 where "IP_MF \<equiv> 0x2000"
abbreviation (input) IP_OFFMASK :: u16 where "IP_OFFMASK \<equiv> 0x1fff"

definition print_hdr_ip :: "buf \<Rightarrow> printed option" where
  "print_hdr_ip p =
     do {
       b0 \<leftarrow> rd8 0 p;
       tos \<leftarrow> rd8 ip_tos p;
       len \<leftarrow> rd16 ip_len p;
       id \<leftarrow> rd16 ip_id p;
       off \<leftarrow> rd16 ip_off p;
       ttl \<leftarrow> rd8 ip_ttl p;
       protocol \<leftarrow> rd8 ip_p p;
       ck \<leftarrow> rd16 ip_sum p;
       src \<leftarrow> rd32 ip_src p;
       dst \<leftarrow> rd32 ip_dst p;
       Some (to_err (''IP header:'' @ nl) @
         field_line ''version'' (unat (drop_bit 4 b0)) @
         field_line ''header length'' (unat (b0 AND 15)) @
         field_line ''type of service'' (unat tos) @
         field_line ''length'' (unat (ntohs len)) @
         field_line ''id'' (unat (ntohs id)) @
         (if ntohs off AND IP_DF \<noteq> 0 then to_err (tab @ ''fragment flag: DF'' @ nl)
          else if ntohs off AND IP_MF \<noteq> 0 then to_err (tab @ ''fragment flag: MF'' @ nl)
          else if ntohs off AND IP_RF \<noteq> 0 then to_err (tab @ ''fragment flag: R'' @ nl)
          else []) @
         field_line ''fragment offset'' (unat (ntohs off AND IP_OFFMASK)) @
         field_line ''TTL'' (unat ttl) @
         field_line ''protocol'' (unat protocol) @
         field_line ''checksum'' (unat ck) @
         to_err (tab @ ''source: '') @ print_addr_ip_int (ntohl src) @
         to_err (tab @ ''destination: '') @ print_addr_ip_int (ntohl dst))
     }"

definition print_hdr_tcp :: "buf \<Rightarrow> printed option" where
  "print_hdr_tcp p =
     do {
       sport \<leftarrow> rd16 tcp_src_port p;
       dport \<leftarrow> rd16 tcp_dst_port p;
       seq \<leftarrow> rd32 tcp_seq_num p;
       ack \<leftarrow> rd32 8 p;
       b12 \<leftarrow> rd8 12 p;
       b13 \<leftarrow> rd8 13 p;
       window \<leftarrow> rd16 14 p;
       ck \<leftarrow> rd16 tcp_checksum p;
       urgent \<leftarrow> rd16 18 p;
       let flag = (\<lambda>k. if bit b13 k then 1 else 0);
       Some (to_err (''TCP header:'' @ nl) @
         field_line ''source port'' (unat (ntohs sport)) @
         field_line ''destination port'' (unat (ntohs dport)) @
         field_line ''sequence number'' (unat (ntohl seq)) @
         field_line ''acknowledment number'' (unat (ntohl ack)) @
         field_line ''data offset'' (unat (drop_bit 4 b12)) @
         field_line ''ecn'' (unat (drop_bit 6 b13)) @
         field_line ''URG'' (flag 5) @ field_line ''ACK'' (flag 4) @ field_line ''PSH'' (flag 3) @
         field_line ''RST'' (flag 2) @ field_line ''SYN'' (flag 1) @ field_line ''FIN'' (flag 0) @
         field_line ''window'' (unat (ntohs window)) @
         field_line ''checksum'' (unat ck) @
         field_line ''urgent_pointer'' (unat urgent))
     }"

definition print_hdr_icmp :: "buf \<Rightarrow> printed option" where
  "print_hdr_icmp p =
     do {
       type \<leftarrow> rd8 icmp_type p;
       code \<leftarrow> rd8 icmp_code p;
       ck \<leftarrow> rd16 icmp_sum p;
       ident \<leftarrow> rd16 icmp_ident p;
       seq \<leftarrow> rd16 icmp_seq_num p;
       Some (to_err (''ICMP header:'' @ nl) @
         field_line ''type'' (unat type) @ field_line ''code'' (unat code) @
         field_line ''checksum'' (unat ck) @ field_line ''identifier'' (unat ident) @
         field_line ''seq_num'' (unat seq))
     }"

definition print_hdr_arp :: "buf \<Rightarrow> printed option" where
  "print_hdr_arp p =
     do {
       hrd \<leftarrow> rd16 ar_hrd p;
       pro \<leftarrow> rd16 ar_pro p;
       hln \<leftarrow> rd8 ar_hln p;
       pln \<leftarrow> rd8 ar_pln p;
       opcode \<leftarrow> rd16 ar_op p;
       sha \<leftarrow> print_addr_eth ar_sha p;
       sip \<leftarrow> rd32 ar_sip p;
       tha \<leftarrow> print_addr_eth ar_tha p;
       tip \<leftarrow> rd32 ar_tip p;
       Some (to_err (''ARP header'' @ nl) @
         field_line ''hardware type'' (unat (ntohs hrd)) @
         field_line ''protocol type'' (unat (ntohs pro)) @
         field_line ''hardware address length'' (unat hln) @
         field_line ''protocol address length'' (unat pln) @
         field_line ''opcode'' (unat (ntohs opcode)) @
         to_err (tab @ ''sender hardware address: '') @ sha @
         to_err (tab @ ''sender ip address: '') @ print_addr_ip_int (ntohl sip) @
         to_err (tab @ ''target hardware address: '') @ tha @
         to_err (tab @ ''target ip address: '') @ print_addr_ip_int (ntohl tip))
     }"

text \<open>The number of a mapping's type in its \<open>enum\<close>.\<close>

fun map_type_value :: "sr_nat_mapping_type \<Rightarrow> nat" where
  "map_type_value nat_mapping_icmp = 0"
| "map_type_value nat_mapping_tcp = 1"

definition print_mapping_line :: "sr_nat_mapping \<Rightarrow> printed" where
  "print_mapping_line cur =
     to_out (zero_pad 8 (hexa False (unat (ip_int cur))) @ ''       '' @ dec (unat (aux_int cur)) @
       ''          '' @ dec (unat (aux_ext cur)) @ ''            '' @
       dec (map_type_value (map_type cur)) @ nl)"

definition print_sr_mapping :: "sr_nat_mapping list \<Rightarrow> printed" where
  "print_sr_mapping ms =
     to_err (nl @ ''IP_INT       aux_int       aux_ext          type'' @ nl) @
     to_err (''-----------------------------------------------------------'' @ nl) @
     concat (map print_mapping_line ms)"

section \<open>Tables\<close>

text \<open>\<open>DebugMAC\<close>: five bytes with a colon after each, then the sixth.\<close>

definition debug_mac :: "buf \<Rightarrow> printed option" where
  "debug_mac x =
     do {
       mac \<leftarrow> rd_bytes 0 6 x;
       Some (concat (map (\<lambda>b. to_out (hex_byte False b @ '':'')) (butlast mac)) @
         to_out (hex_byte False (last mac)))
     }"

definition sr_print_if :: "sr_if \<Rightarrow> printed option" where
  "sr_print_if iface =
     do {
       mac \<leftarrow> debug_mac (if_addr iface);
       Some (to_out (if_name iface @ tab @ ''HWaddr'') @ mac @ to_out nl @
         to_out (tab @ ''inet addr '' @ inet_ntoa (if_ip iface) @ nl))
     }"

fun print_ifs :: "sr_if list \<Rightarrow> printed option" where
  "print_ifs [] = Some []"
| "print_ifs (i # rest) = do { x \<leftarrow> sr_print_if i; xs \<leftarrow> print_ifs rest; Some (x @ xs) }"

definition sr_print_if_list :: "sr_if list \<Rightarrow> printed option" where
  "sr_print_if_list ifs =
     (if ifs = [] then Some (to_out ('' Interface list empty '' @ nl)) else print_ifs ifs)"

definition sr_print_routing_entry :: "sr_rt \<Rightarrow> printed" where
  "sr_print_routing_entry entry =
     to_out (inet_ntoa (rt_dest entry) @ tab @ tab) @ to_out (inet_ntoa (rt_gw entry) @ tab) @
     to_out (inet_ntoa (rt_mask entry) @ tab) @ to_out (rt_interface entry @ nl)"

definition sr_print_routing_table :: "sr_rt list \<Rightarrow> printed" where
  "sr_print_routing_table rt =
     (if rt = [] then to_out ('' *warning* Routing table empty '' @ nl)
      else to_out (''Destination'' @ tab @ ''Gateway'' @ tab @ tab @ ''Mask'' @ tab @ ''Iface'' @ nl) @
        concat (map sr_print_routing_entry rt))"

text \<open>
  \<open>sr_arpcache_dump\<close>; \<open>ctime\<close> is the C library's, cut to 24 characters by \<open>%.24s\<close>.  An entry's address
  is in network order.
\<close>

definition dump_entry :: "(int \<Rightarrow> string) \<Rightarrow> sr_arpentry \<Rightarrow> printed option" where
  "dump_entry ctime cur =
     do {
       mac \<leftarrow> rd_bytes 0 6 (ent_mac cur);
       Some (to_err (concat (map (\<lambda>b. hexa False (unat b)) mac) @ ''   '' @
         zero_pad 8 (hexa False (unat (ntohl (ent_ip cur)))) @ ''   '' @
         take 24 (ctime (ent_added cur)) @ ''   '' @ dec (if ent_valid cur then 1 else 0) @ nl))
     }"

fun dump_entries :: "(int \<Rightarrow> string) \<Rightarrow> sr_arpentry list \<Rightarrow> printed option" where
  "dump_entries ctime [] = Some []"
| "dump_entries ctime (e # rest) =
     do { x \<leftarrow> dump_entry ctime e; xs \<leftarrow> dump_entries ctime rest; Some (x @ xs) }"

definition sr_arpcache_dump :: "(int \<Rightarrow> string) \<Rightarrow> sr_arpcache \<Rightarrow> printed option" where
  "sr_arpcache_dump ctime c =
     do {
       es \<leftarrow> dump_entries ctime (entries c);
       Some (to_err (nl @ ''MAC            IP         ADDED                      VALID'' @ nl) @
         to_err (''-----------------------------------------------------------'' @ nl) @ es @ to_err nl)
     }"

text \<open>\<open>usage\<close> of \<open>sr_main.c\<close>.\<close>

definition print_usage :: "string \<Rightarrow> printed" where
  "print_usage argv0 =
     to_out (''Simple Router Client'' @ nl) @
     to_out (''Format: '' @ argv0 @ '' [-h] [-v host] [-s server] [-p port] '' @ nl) @
     to_out (''           [-T template_name] [-u username] '' @ nl) @
     to_out (''           [-t topo id] [-r routing table] '' @ nl) @
     to_out (''           [-l log file] '' @ nl) @
     to_out (''   defaults server='' @ ''localhost'' @ '' port='' @ dec 8888 @ '' host='' @ ''vrhost'' @
       ''  '' @ nl)"

section \<open>Reading numbers and addresses back\<close>

definition is_digit :: "char \<Rightarrow> bool" where
  "is_digit c \<longleftrightarrow> 48 \<le> (of_char c :: nat) \<and> of_char c < (58 :: nat)"

fun read_digits :: "nat \<Rightarrow> string \<Rightarrow> nat option" where
  "read_digits acc [] = Some acc"
| "read_digits acc (c # cs) =
     (if is_digit c then read_digits (10 * acc + (of_char c - 48)) cs else None)"

definition read_dec :: "string \<Rightarrow> nat option" where
  "read_dec s = (if s = [] then None else read_digits 0 s)"

fun split_on :: "char \<Rightarrow> string \<Rightarrow> string list" where
  "split_on c [] = [[]]"
| "split_on c (x # xs) =
     (if x = c then [] # split_on c xs
      else (case split_on c xs of [] \<Rightarrow> [[x]] | w # ws \<Rightarrow> (x # w) # ws))"

text \<open>Four decimal numbers below 256 with dots between them: what \<open>inet_aton\<close> does on such a text.\<close>

definition dotted_quad :: "string \<Rightarrow> u32 option" where
  "dotted_quad s =
     (case map read_dec (split_on (CHR ''.'') s) of
        [Some a, Some b, Some c, Some d] \<Rightarrow>
          if a < 256 \<and> b < 256 \<and> c < 256 \<and> d < 256
          then Some (le32 (of_nat a) (of_nat b) (of_nat c) (of_nat d)) else None
      | _ \<Rightarrow> None)"

lemma of_char_digit: "d < 10 \<Longrightarrow> of_char (digit d) = 48 + d"
  by (simp add: digit_def)

lemma is_digit_digit [simp]: "d < 10 \<Longrightarrow> is_digit (digit d)"
  by (simp add: is_digit_def of_char_digit)

lemma read_digits_append: "read_digits a (s @ t) = Option.bind (read_digits a s) (\<lambda>b. read_digits b t)"
  by (induction a s rule: read_digits.induct) auto

lemma read_digits_dec: "read_digits 0 (dec n) = Some n"
proof (induction n rule: dec.induct)
  case (1 n)
  show ?case
  proof (cases "n < 10")
    case False
    then show ?thesis
      using 1 by (subst dec.simps) (simp add: read_digits_append of_char_digit)
  qed (subst dec.simps, simp add: of_char_digit)
qed

lemma dec_nonempty [simp]: "dec n \<noteq> []"
  by (subst dec.simps) simp

lemma read_dec_dec [simp]: "read_dec (dec n) = Some n"
  by (simp add: read_dec_def read_digits_dec)

lemma dec_digits: "c \<in> set (dec n) \<Longrightarrow> is_digit c"
proof (induction n rule: dec.induct)
  case (1 n)
  then show ?case by (subst (asm) (2) dec.simps) (auto split: if_splits)
qed

lemma dec_byte_length: "n < 256 \<Longrightarrow> length (dec n) \<le> 3"
  by (subst dec.simps, subst dec.simps, subst dec.simps) simp

lemma split_on_last: "c \<notin> set w \<Longrightarrow> split_on c w = [w]"
  by (induction w) auto

lemma split_on_append: "c \<notin> set w \<Longrightarrow> split_on c (w @ c # s) = w # split_on c s"
  by (induction w) auto

lemma unat_byte: "unat (byte k w) < 256"
  using unsigned_less [of "byte k w"] by simp

lemma dec_no_dot: "CHR ''.'' \<notin> set (dec n)"
  using dec_digits [of "CHR ''.''" n] by (auto simp: is_digit_def)

lemma dotted_inet_ntoa: "dotted_quad (inet_ntoa ip) = Some ip"
proof -
  have "split_on (CHR ''.'') (inet_ntoa ip) =
      [dec (unat (byte 0 ip)), dec (unat (byte 1 ip)), dec (unat (byte 2 ip)), dec (unat (byte 3 ip))]"
    by (simp add: inet_ntoa_def split_on_append split_on_last dec_no_dot)
  then show ?thesis by (simp add: dotted_quad_def unat_byte)
qed

lemma inet_ntoa_inject: "inet_ntoa a = inet_ntoa b \<longleftrightarrow> a = b"
  by (metis dotted_inet_ntoa option.inject)

lemma inet_ntoa_chars: "c \<in> set (inet_ntoa ip) \<Longrightarrow> is_digit c \<or> c = CHR ''.''"
  by (auto simp: inet_ntoa_def dec_digits)

lemma inet_ntoa_length: "length (inet_ntoa ip) \<le> 15" "inet_ntoa ip \<noteq> []"
proof -
  show "length (inet_ntoa ip) \<le> 15"
    using dec_byte_length [OF unat_byte, of 0 ip] dec_byte_length [OF unat_byte, of 1 ip]
      dec_byte_length [OF unat_byte, of 2 ip] dec_byte_length [OF unat_byte, of 3 ip]
    by (simp add: inet_ntoa_def)
qed (simp add: inet_ntoa_def)

text \<open>The shifts of \<open>print_addr_ip_int\<close> on an address in host order print what \<open>inet_ntoa\<close> does.\<close>

lemma ip_octets:
  fixes ip :: u32
  shows "drop_bit 24 ip = ucast (byte 3 ip)" "byte 3 (push_bit 8 ip) = byte 2 ip"
    "byte 3 (push_bit 16 ip) = byte (Suc 0) ip" "byte 3 (push_bit 24 ip) = byte 0 ip"
  by (rule bit_word_eqI; auto simp: byte_def bit_simps dest: bit_imp_le_length)+

lemma byte_ntohl:
  "byte 0 (ntohl ip) = byte 3 ip" "byte (Suc 0) (ntohl ip) = byte 2 ip" "byte 2 (ntohl ip) = byte (Suc 0) ip"
  "byte 3 (ntohl ip) = byte 0 ip"
  by (simp_all add: ntohl_def htonl_def)

lemma print_addr_ip_int_text: "text_of (print_addr_ip_int (ntohl ip)) = inet_ntoa ip @ nl"
  by (simp add: print_addr_ip_int_def ip_octets byte_ntohl inet_ntoa_def unsigned_ucast_eq take_bit_nat_eq_self
      unat_byte nl_def)

section \<open>Headers\<close>

text \<open>A header is printed exactly when the buffer holds all of it.\<close>

lemma print_addr_eth_defined: "print_addr_eth off p \<noteq> None \<longleftrightarrow> off + 6 \<le> length p"
  by (simp add: print_addr_eth_def rd_bytes_def)

lemma bind_defined: "Option.bind x f \<noteq> None \<longleftrightarrow> (\<exists>y. x = Some y \<and> f y \<noteq> None)"
  by (cases x) simp_all

lemma headers_defined:
  "print_hdr_eth p \<noteq> None \<longleftrightarrow> 14 \<le> length p" "print_hdr_ip p \<noteq> None \<longleftrightarrow> 20 \<le> length p"
  "print_hdr_tcp p \<noteq> None \<longleftrightarrow> 20 \<le> length p" "print_hdr_icmp p \<noteq> None \<longleftrightarrow> 8 \<le> length p"
  "print_hdr_arp p \<noteq> None \<longleftrightarrow> 28 \<le> length p"
proof -
  note d = bind_defined rd8_def rd16_def rd32_def rd_bytes_def Let_def
  show "print_hdr_eth p \<noteq> None \<longleftrightarrow> 14 \<le> length p"
    unfolding print_hdr_eth_def print_addr_eth_def by (auto simp: d)
  show "print_hdr_ip p \<noteq> None \<longleftrightarrow> 20 \<le> length p" unfolding print_hdr_ip_def by (auto simp: d)
  show "print_hdr_tcp p \<noteq> None \<longleftrightarrow> 20 \<le> length p" unfolding print_hdr_tcp_def by (auto simp: d)
  show "print_hdr_icmp p \<noteq> None \<longleftrightarrow> 8 \<le> length p" unfolding print_hdr_icmp_def by (auto simp: d)
  show "print_hdr_arp p \<noteq> None \<longleftrightarrow> 28 \<le> length p"
    unfolding print_hdr_arp_def print_addr_eth_def by (auto simp: d)
qed

section \<open>The routing table as text\<close>

text \<open>\<open>fgets\<close> on a text, for lines shorter than its buffer: each line with its line break.\<close>

fun fgets_lines :: "string \<Rightarrow> string list" where
  "fgets_lines [] = []"
| "fgets_lines (c # cs) =
     (if c = CHR 0x0A then [c] # fgets_lines cs
      else (case fgets_lines cs of [] \<Rightarrow> [[c]] | l # ls \<Rightarrow> (c # l) # ls))"

lemma fgets_line: "CHR 0x0A \<notin> set l \<Longrightarrow> fgets_lines (l @ CHR 0x0A # rest) = (l @ [CHR 0x0A]) # fgets_lines rest"
  by (induction l) auto

lemma scan_word:
  "\<forall>c \<in> set s. \<not> isspace c \<Longrightarrow> isspace b \<Longrightarrow> w @ s \<noteq> [] \<Longrightarrow>
     scan_words w (s @ b # rest) = (w @ s) # scan_words [] rest"
  by (induction s arbitrary: w) auto

lemma scan_blank: "isspace b \<Longrightarrow> scan_words [] (b # rest) = scan_words [] rest"
  by simp

definition plain_name :: "string \<Rightarrow> bool" where
  "plain_name s \<longleftrightarrow> s \<noteq> [] \<and> length s < 32 \<and> (\<forall>c \<in> set s. \<not> isspace c)"

lemma isspace_digit: "is_digit c \<or> c = CHR ''.'' \<Longrightarrow> \<not> isspace c"
  by (auto simp: isspace_def is_digit_def)

lemma inet_ntoa_no_space: "c \<in> set (inet_ntoa ip) \<Longrightarrow> \<not> isspace c"
  using inet_ntoa_chars isspace_digit by blast

lemma entry_text: "text_of (sr_print_routing_entry e) =
    inet_ntoa (rt_dest e) @ CHR 0x09 # CHR 0x09 # inet_ntoa (rt_gw e) @ CHR 0x09 #
    inet_ntoa (rt_mask e) @ CHR 0x09 # rt_interface e @ [CHR 0x0A]"
  by (simp add: sr_print_routing_entry_def tab_def nl_def)

lemma entry_words:
  assumes "plain_name (rt_interface e)"
  shows "scan_words [] (text_of (sr_print_routing_entry e)) =
    [inet_ntoa (rt_dest e), inet_ntoa (rt_gw e), inet_ntoa (rt_mask e), rt_interface e]"
proof -
  have sp: "isspace (CHR 0x09)" "isspace (CHR 0x0A)" by (simp_all add: isspace_def)
  have w: "scan_words [] (inet_ntoa ip @ CHR 0x09 # rest) = inet_ntoa ip # scan_words [] rest" for ip rest
    using scan_word [of "inet_ntoa ip" "CHR 0x09" "[]" rest] inet_ntoa_no_space sp inet_ntoa_length(2) by simp
  have i: "scan_words [] (rt_interface e @ [CHR 0x0A]) = [rt_interface e]"
    using scan_word [of "rt_interface e" "CHR 0x0A" "[]" "[]"] assms sp by (simp add: plain_name_def)
  show ?thesis unfolding entry_text by (simp only: w scan_blank [OF sp(1)] i)
qed

lemma entry_line:
  assumes "plain_name (rt_interface e)" "\<And>ip. inet_aton (inet_ntoa ip) = Some ip"
  shows "line_entry inet_aton (text_of (sr_print_routing_entry e)) = Some e"
proof -
  have l: "length (inet_ntoa ip) < 32" for ip using inet_ntoa_length(1) [of ip] by simp
  show ?thesis using assms l by (simp add: line_entry_def entry_words plain_name_def)
qed

lemma entry_one_line:
  assumes "plain_name (rt_interface e)"
  shows "fgets_lines (text_of (sr_print_routing_entry e) @ rest) =
    text_of (sr_print_routing_entry e) # fgets_lines rest"
proof -
  have n: "CHR 0x0A \<notin> set (inet_ntoa ip)" for ip
    using inet_ntoa_no_space [of "CHR 0x0A" ip] by (auto simp: isspace_def)
  have "CHR 0x0A \<notin> set (rt_interface e)" using assms by (auto simp: plain_name_def isspace_def)
  then have "CHR 0x0A \<notin> set (butlast (text_of (sr_print_routing_entry e)))"
    using n by (simp add: entry_text butlast_append)
  moreover have "text_of (sr_print_routing_entry e) =
      butlast (text_of (sr_print_routing_entry e)) @ [CHR 0x0A]"
    by (simp add: entry_text butlast_append)
  ultimately show ?thesis
    using fgets_line [of "butlast (text_of (sr_print_routing_entry e))" rest]
    by (metis append.assoc append_Cons append_Nil)
qed

lemma entries_lines:
  assumes "\<forall>e \<in> set rt. plain_name (rt_interface e)"
  shows "fgets_lines (text_of (concat (map sr_print_routing_entry rt))) =
    map (\<lambda>e. text_of (sr_print_routing_entry e)) rt"
  using assms
proof (induction rt)
  case (Cons e rt)
  then show ?case using entry_one_line [of e] by simp
qed simp

lemma table_lines:
  assumes "rt \<noteq> []" "\<forall>e \<in> set rt. plain_name (rt_interface e)"
  shows "tl (fgets_lines (text_of (sr_print_routing_table rt))) =
    map (\<lambda>e. text_of (sr_print_routing_entry e)) rt"
proof -
  define h where "h = ''Destination'' @ tab @ ''Gateway'' @ tab @ tab @ ''Mask'' @ tab @ ''Iface''"
  have "CHR 0x0A \<notin> set h" by (simp add: h_def tab_def)
  then have "fgets_lines (h @ CHR 0x0A # text_of (concat (map sr_print_routing_entry rt))) =
      (h @ [CHR 0x0A]) # map (\<lambda>e. text_of (sr_print_routing_entry e)) rt"
    by (simp add: fgets_line entries_lines [OF assms(2)])
  moreover have "text_of (sr_print_routing_table rt) = h @ CHR 0x0A # text_of (concat (map sr_print_routing_entry rt))"
    using assms(1) by (simp add: sr_print_routing_table_def h_def nl_def)
  ultimately show ?thesis by simp
qed

lemma printed_table_loads:
  assumes "rt \<noteq> []" "\<forall>e \<in> set rt. plain_name (rt_interface e)"
    "\<And>ip. inet_aton (inet_ntoa ip) = Some ip"
  shows "sr_load_rt inet_aton (Some (tl (fgets_lines (text_of (sr_print_routing_table rt))))) old = Some (0, rt)"
  unfolding table_lines [OF assms(1,2)]
  by (rule sr_load_rt_good) (use assms entry_line in auto)

section \<open>Hardware addresses as text\<close>

definition hex_val :: "char \<Rightarrow> nat" where
  "hex_val c = (if is_digit c then of_char c - 48 else if of_char c < (91 :: nat) then of_char c - 55
                else of_char c - 87)"

fun read_hex_byte :: "string \<Rightarrow> u8 option" where
  "read_hex_byte [a, b] = Some (of_nat (16 * hex_val a + hex_val b))"
| "read_hex_byte _ = None"

definition read_mac :: "string \<Rightarrow> buf option" where
  "read_mac s = those (map read_hex_byte (split_on (CHR '':'') s))"

lemma hex_val_digit: "d < 16 \<Longrightarrow> hex_val (hex_digit up d) = d"
  by (auto simp: hex_val_def hex_digit_def is_digit_def of_char_digit)

lemma nibble: "unat (b :: u8) div 16 < 16"
proof -
  have "unat b < 256" using unsigned_less [of b] by simp
  then show ?thesis by simp
qed

lemma hex_byte_eq: "hex_byte up b = [hex_digit up (unat b div 16), hex_digit up (unat b mod 16)]"
proof -
  have one: "hexa up d = [hex_digit up d]" if "d < 16" for d
    using that by (subst hexa.simps) simp
  show ?thesis
  proof (cases "unat b < 16")
    case True
    moreover have "hex_digit up 0 = CHR ''0''" by (simp add: hex_digit_def digit_def char_of_eq_iff)
    ultimately show ?thesis by (simp add: hex_byte_def zero_pad_def one)
  next
    case False
    then have "hexa up (unat b) = [hex_digit up (unat b div 16), hex_digit up (unat b mod 16)]"
      using nibble by (subst hexa.simps) (simp add: one)
    then show ?thesis by (simp add: hex_byte_def zero_pad_def)
  qed
qed

lemma read_hex_byte_hex [simp]: "read_hex_byte (hex_byte up b) = Some b"
  using nibble [of b] by (simp add: hex_byte_eq hex_val_digit)

lemma hex_byte_no_colon: "CHR '':'' \<notin> set (hex_byte up b)"
proof -
  have "hex_digit up d \<noteq> CHR '':''" if "d < 16" for d
  proof
    assume "hex_digit up d = CHR '':''"
    then have "(of_char (hex_digit up d) :: nat) = 58" by simp
    with that show False by (auto simp: hex_digit_def of_char_digit split: if_splits)
  qed
  from this [of "unat b div 16"] this [of "unat b mod 16"] show ?thesis
    using nibble [of b] by (auto simp: hex_byte_eq)
qed

lemma eth_loop_later:
  "0 < pos \<Longrightarrow> text_of (print_eth_loop pos bs) = concat (map (\<lambda>b. CHR '':'' # hex_byte True b) bs)"
  by (induction bs arbitrary: pos) auto

lemma split_eth:
  "split_on (CHR '':'') (hex_byte True b @ concat (map (\<lambda>b. CHR '':'' # hex_byte True b) bs)) =
     map (hex_byte True) (b # bs)"
proof (induction bs arbitrary: b)
  case Nil
  then show ?case by (simp add: split_on_last hex_byte_no_colon)
next
  case (Cons c bs)
  then show ?case by (simp add: split_on_append hex_byte_no_colon)
qed

lemma those_map_Some [simp]: "those (map Some xs) = Some xs"
  by (induction xs) auto

lemma print_addr_eth_text:
  assumes "length addr = 6"
  shows "\<exists>s. map_option text_of (print_addr_eth 0 addr) = Some (s @ nl) \<and> read_mac s = Some addr"
proof -
  obtain b bs where a: "addr = b # bs" using assms by (cases addr) auto
  let ?s = "text_of (print_eth_loop 0 addr)"
  have "split_on (CHR '':'') ?s = map (hex_byte True) addr"
    by (simp add: a eth_loop_later split_eth)
  then have "read_mac ?s = Some addr" by (simp add: read_mac_def comp_def)
  moreover have "map_option text_of (print_addr_eth 0 addr) = Some (?s @ nl)"
    using assms by (simp add: print_addr_eth_def rd_bytes_def)
  ultimately show ?thesis by blast
qed

text \<open>
  \<open>sr_arpcache_dump\<close> prints the bytes of an address with as few digits as they need and nothing
  between them, so different addresses look the same.
\<close>

lemma dump_ambiguous:
  "dump_entry ctime (e\<lparr>ent_mac := 0x01 # 0x11 # m\<rparr>) = dump_entry ctime (e\<lparr>ent_mac := 0x11 # 0x01 # m\<rparr>)"
proof -
  have "hexa False 1 = [hex_digit False 1]" "hexa False 17 = [hex_digit False 1, hex_digit False 1]"
    by (simp_all add: hexa.simps)
  then show ?thesis by (simp add: dump_entry_def rd_bytes_def take_Cons')
qed

end
