(* ===== verification/SR_RunExamples.thy ===== *)
theory SR_RunExamples
  imports SR_ClientExamples SR_NatSpec SR_Network SR_Print
begin

text \<open>
  Concrete configurations for the witnesses about threads, races and the wire: two threads that want the
  NAT's mutex, a NAT with an expired connection, and a client that runs the example router.
\<close>

section \<open>Two threads at one mutex\<close>

definition ex_contended :: config where
  "ex_contended =
     \<lparr>todo = (\<lambda>_. [])(Main := [Lock Nat_lock, Unlock Nat_lock], Nat_timer := [Unlock Nat_lock]),
      owner = (\<lambda>_. None)(Nat_lock := Some (Nat_timer, 1))\<rparr>"

lemma locked_path: "path (locked l Nop) [Lock l, Unlock l]"
  using path.seq [OF path.op [of "Lock l"] path.seq [OF path.nop path.op [of "Unlock l"]]]
  by (simp add: locked_def)

lemma ex_main_path: "path (thread_round Main) [Lock Nat_lock, Unlock Nat_lock]"
proof -
  have "path nat_handle_icmp_locks [Lock Nat_lock, Unlock Nat_lock]"
    using locked_path by (auto simp: nat_handle_icmp_locks_def sr_nat_lookup_external_locks_def intro: path.right)
  from path.seq [OF this path.right [OF path.nop, of sr_forward_ippacket_locks]]
  have "path handle_ip_to_router_locks [Lock Nat_lock, Unlock Nat_lock]"
    by (auto simp: handle_ip_to_router_locks_def intro: path.left path.right)
  then show ?thesis
    by (auto simp: sr_handlepacket_locks_def sr_handle_ippacket_locks_def intro: path.left path.right)
qed

lemma ex_timer_path: "path (thread_round Nat_timer) [Lock Nat_lock, Unlock Nat_lock]"
  using path.seq [OF path.op [of "Lock Nat_lock"] path.seq [OF path.stop path.op [of "Unlock Nat_lock"]]]
  by (simp add: sr_nat_timeout_locks_def locked_def)

lemma ex_contended_reach: "lock_reach thread_round ex_contended"
proof -
  define c1 where "c1 = quiet\<lparr>todo := (todo quiet)(Main := [Lock Nat_lock, Unlock Nat_lock])\<rparr>"
  define c2 where "c2 = c1\<lparr>todo := (todo c1)(Nat_timer := [Lock Nat_lock, Unlock Nat_lock])\<rparr>"
  have "lock_reach thread_round c1"
    unfolding c1_def
    by (rule lock_reach.step [OF lock_reach.start round [where rounds = thread_round, OF _ ex_main_path]])
      (simp add: quiet_def)
  then have "lock_reach thread_round c2"
    unfolding c2_def
    by (rule lock_reach.step [OF _ round [where rounds = thread_round, OF _ ex_timer_path]])
      (simp add: c1_def quiet_def)
  moreover have "op_step Nat_timer c2 ex_contended"
    using acquire [of c2 Nat_timer Nat_lock "[Unlock Nat_lock]"]
    by (simp add: c1_def c2_def quiet_def ex_contended_def)
  ultimately show ?thesis using lock_reach.step operation by blast
qed

section \<open>Rounds of the NAT's timer\<close>

lemma timeout_no_unsol: "unsol_pkt (nat_st sr) = Some [] \<Longrightarrow> \<exists>sr'. sr_nat_timeout sr = Some sr'"
  by (simp add: sr_nat_timeout_def)

definition ex_task :: nat_task where
  "ex_task = tcp_out_task ex_syn 40 (ntohl client1) 4000"

lemma ex_task_sel [simp]: "tk_packet ex_task = ex_syn" "tk_type ex_task = nat_mapping_tcp"
  "tk_host ex_task = ntohl client1" "tk_aux ex_task = 4000" "\<not> tk_inbound ex_task"
  by (simp_all add: ex_task_def tcp_out_task_def)

text \<open>The host's port looked up, its mapping made, and a round of the timer.\<close>

lemma ex_race: "\<exists>sr'. sr_nat_timeout (ex_mapped nat_mapping_tcp 4000) = Some sr' \<and>
    (race_step ex_task)\<^sup>*\<^sup>* (Lookup, ex_router True)
      (Insert_connection (ex_map nat_mapping_tcp 4000), sr')"
proof -
  have same: "(ex_router True)\<lparr>nat_st := nat_st (ex_router True)\<rparr> = ex_router True"
    by (simp del: ex_fields)
  have "race_step ex_task (Lookup, ex_router True)
      (Insert_mapping, (ex_router True)\<lparr>nat_st := nat_st (ex_router True)\<rparr>)"
    by (rule call) (simp add: ex_lookup_none)
  then have a: "race_step ex_task (Lookup, ex_router True) (Insert_mapping, ex_router True)"
    by (simp only: same)
  have b: "race_step ex_task (Insert_mapping, ex_router True)
      (Insert_connection (ex_map nat_mapping_tcp 4000), ex_mapped nat_mapping_tcp 4000)"
    unfolding ex_mapped_def by (rule call) (simp add: ex_insert(1))
  obtain sr' where t: "sr_nat_timeout (ex_mapped nat_mapping_tcp 4000) = Some sr'"
    using timeout_no_unsol [of "ex_mapped nat_mapping_tcp 4000"] ex_recorded_fields by auto
  note c = nat_timer [OF t, of ex_task "Insert_connection (ex_map nat_mapping_tcp 4000)"]
  from a b c t show ?thesis by (meson converse_rtranclp_into_rtranclp rtranclp.rtrancl_refl)
qed

text \<open>A connection that has been idle for 301 seconds.\<close>

definition ex_conn :: sr_nat_connection where
  "ex_conn = \<lparr>conn_addr = 0, conn_state = ESTAB, peer_ip = server1, peer_port = htons 80, conn_last_updated = 1000\<rparr>"

definition ex_conn_map :: sr_nat_mapping where
  "ex_conn_map = (ex_map nat_mapping_tcp 4000)\<lparr>conns := [ex_conn]\<rparr>"

definition ex_idle :: sr_instance where
  "ex_idle = (ex_router True)\<lparr>clock := 1301,
     nat_st := (ex_mapped_nat nat_mapping_tcp 4000)\<lparr>mappings := [ex_conn_map], nat_brk := 1\<rparr>\<rparr>"

lemma ex_idle_facts:
  "nat_inv (nat_st ex_idle)" "clock ex_idle = 1301" "conns ex_conn_map = [ex_conn]"
  "\<not> conn_live 1301 (nat_st ex_idle) ex_conn"
  "nat_section 1301 ex_task Lookup (nat_st ex_idle) = Some (Update_connection ex_conn_map, nat_st ex_idle)"
  "\<exists>sr'. sr_nat_timeout ex_idle = Some sr'"
proof -
  have "nat_inv (ex_mapped_nat nat_mapping_tcp 4000)"
    using ex_mapped_inv [of nat_mapping_tcp 4000] by (simp add: router_inv_def nat_ok_def)
  then show "nat_inv (nat_st ex_idle)"
    by (simp add: nat_inv_def conns_inv_def all_conns_def ex_idle_def ex_insert(2))
      (simp add: ex_conn_map_def ex_conn_def ex_map_def ext_id_def int_key_def)
  have q: "tcp_transitory_to (ex_mapped_nat nat_mapping_tcp 4000) = 300"
    using ex_first_id
    by (auto simp: ex_mapped_nat_def sr_nat_insert_mapping_def find_next_id_def sr_nat_init_def Let_def)
  then show "\<not> conn_live 1301 (nat_st ex_idle) ex_conn"
    by (simp add: conn_live_def ex_idle_def ex_conn_def)
  show "nat_section 1301 ex_task Lookup (nat_st ex_idle) = Some (Update_connection ex_conn_map, nat_st ex_idle)"
    by (simp add: sr_nat_lookup_internal_def ex_idle_def) (simp add: ex_conn_map_def)
  show "\<exists>sr'. sr_nat_timeout ex_idle = Some sr'"
    by (rule timeout_no_unsol) (use ex_recorded_fields in \<open>simp add: ex_idle_def\<close>)
qed (simp_all add: ex_idle_def ex_conn_map_def)

section \<open>A client with the example router\<close>

definition ex_transit :: buf where
  "ex_transit = ex_frame 1 (ex_udp 64 192 23)"

definition ex_relay :: "recv_event list \<Rightarrow> vns_client" where
  "ex_relay evs = (ex_client evs)\<lparr>router := ex_router False\<rparr>"

lemma ex_transit_facts: "length ex_transit = 42" "drop 14 ex_transit = ex_udp 64 192 23"
  "ip_frame (ex_router False) ex_transit ''eth1'' (ex_if ''eth1'' 1 (le32 10 0 1 1)) 5"
  "iface_name_ok ''eth1''"
  by (simp_all add: ex_transit_def ex_ip_frame ex_headers iface_name_ok_def)

lemma ex_transit_sent:
  "\<exists>sr'. sr_handlepacket (ex_router False) ex_transit 42 ''eth1'' = Some sr'"
proof -
  have "drop 14 ex_transit ! ip_ttl \<noteq> 1" by (simp add: ex_transit_facts ex_udp_facts)
  from frame_forwarded [OF ex_transit_facts(3) refl refl _ ex_router_inv _ _ _ this,
      of server1 "ex_route server1 ''eth2''" "ex_if ''eth2'' 2 (le32 172 64 3 1)"]
  show ?thesis by (auto simp: ex_transit_facts ex_udp_facts)
qed

lemma ex_relay_sel [simp]: "router (ex_relay evs) = ex_router False" "inbox (ex_relay evs) = evs"
  by (simp_all add: ex_relay_def)

lemma ex_rt_plain: "ex_rt \<noteq> []" "\<forall>e \<in> set ex_rt. plain_name (rt_interface e)"
  by (simp_all add: ex_rt_def plain_name_def isspace_def)

section \<open>A second router\<close>

text \<open>The router that the example router has in its cache as the next hop: its first interface has this address.\<close>

definition ex_ifs2 :: "sr_if list" where
  "ex_ifs2 = [(ex_if ''eth1'' 1 (le32 172 64 3 2))\<lparr>if_addr := ex_mac\<rparr>, ex_if ''eth2'' 2 (le32 172 64 4 1)]"

definition ex_relay2 :: vns_client where
  "ex_relay2 = (ex_client [])\<lparr>router := (ex_router False)\<lparr>if_list := ex_ifs2\<rparr>\<rparr>"

lemma ex_next_hop:
  "\<exists>e. sr_arpcache_lookup (cache (ex_router False)) server1 = Some e \<and> ent_mac e = ex_mac"
proof -
  obtain r c where i: "sr_arpcache_insert 1000 (cache (ex_boot False)) ex_mac server1 = Some (r, c)"
    using ex_learned by blast
  have "cache (ex_router False) = c" by (simp add: ex_router_def i)
  then show ?thesis using insert_lookup [OF ex_boot_cache(3) i] ex_boot_cache(1,2) by auto
qed

lemma ex_forwards:
  "forwards (ex_relay evs) ''eth1'' (ex_udp 64 192 23) (ex_route server1 ''eth2'')
     (ex_if ''eth2'' 2 (le32 172 64 3 1))"
  using ex_router_inv [of False]
  by (simp add: forwards_def iface_name_ok_def ex_udp_facts)

lemma ex_ifs2_ok: "ifs_ok ex_ifs2"
  by (simp add: ifs_ok_def ex_ifs2_def ex_if_def ex_mac_def)

lemma ex_forwards2:
  "forwards ex_relay2 ''eth1'' (ex_udp 64 192 23) (ex_route server1 ''eth2'')
     (ex_if ''eth2'' 2 (le32 172 64 4 1))"
  "sr_get_interface (if_list (router ex_relay2)) ''eth1'' =
     Some ((ex_if ''eth1'' 1 (le32 172 64 3 2))\<lparr>if_addr := ex_mac\<rparr>)"
proof -
  have o: "sr_get_interface (if_list (router ex_relay2)) ''eth2'' = Some (ex_if ''eth2'' 2 (le32 172 64 4 1))"
    by (simp add: ex_relay2_def ex_ifs2_def sr_get_interface_def ex_if_def strn_eq_def strncpy_def)
  have n: "if_name (ex_if a n ip) = a" "if_ip (ex_if a n ip) = ip" for a n ip by (simp_all add: ex_if_def)
  show "sr_get_interface (if_list (router ex_relay2)) ''eth1'' =
     Some ((ex_if ''eth1'' 1 (le32 172 64 3 2))\<lparr>if_addr := ex_mac\<rparr>)"
    by (simp add: ex_relay2_def ex_ifs2_def sr_get_interface_def n)
  have "router_inv (router ex_relay2)" "sock_ok (router ex_relay2)"
    using ex_router_inv [of False] ex_fields(5) [of False] ex_ifs2_ok
    by (simp_all add: ex_relay2_def router_inv_def sock_ok_def)
  moreover have "\<not> for_router (router ex_relay2) server1"
    using ex_for_router(1) [of False] by (auto simp: ex_relay2_def for_router_def ex_ifs2_def n server1_def)
  ultimately show "forwards ex_relay2 ''eth1'' (ex_udp 64 192 23) (ex_route server1 ''eth2'')
     (ex_if ''eth2'' 2 (le32 172 64 4 1))"
    using o by (simp add: forwards_def iface_name_ok_def ex_udp_facts) (simp add: ex_relay2_def)
qed

section \<open>A query through the NAT\<close>

text \<open>A query of the client makes a mapping, also in the router as it starts.\<close>

lemma ex_query_step:
  assumes "sr = ex_router True \<or> sr = ex_boot True"
  shows "\<exists>sr'. router_step sr sr' \<and> nat_st sr' = ex_mapped_nat nat_mapping_icmp 7"
proof -
  have f: "if_list sr = ex_ifs" "routing_table sr = ex_rt" "nat_enabled sr" "clock sr = 1000" "sock_ok sr"
    "nat_st sr = sr_nat_init 60 7440 300 ex_nat0" "router_inv sr"
    using assms ex_fields [of True] ex_router_inv ex_boot_inv
    by (auto simp: ex_boot_def ex_base_def sr_init_def sock_ok_def)
  then have i: "ip_frame sr (ex_frame 1 ex_query) ''eth1'' (ex_if ''eth1'' 1 (le32 10 0 1 1)) 5"
    "\<not> for_router sr server1"
    using ex_ip_frame(1) [of ex_query True] assms ex_for_router
    by (auto simp: ip_frame_def ex_headers for_router_def)
  have "nat_translate 1000 nat_mapping_icmp (nat_st sr) (ntohl client1) 7 =
      (ex_map nat_mapping_icmp 7, ex_mapped_nat nat_mapping_icmp 7)"
    by (simp add: f nat_translate_def ex_lookup_none ex_insert(1))
  then obtain p2 sr' where s: "sr_handlepacket sr (ex_frame 1 ex_query) 44 ''eth1'' = Some sr'"
    and o: "ip_output (sr\<lparr>nat_st := ex_mapped_nat nat_mapping_icmp 7\<rparr>) server1
      (ex_if ''eth2'' 2 (le32 172 64 3 1)) p2 30 ''eth2'' ''eth1'' sr'"
    using frame_nat_query [OF i(1) refl refl f(3,7,5), of client1 server1 10
      "le16 0 7" "ex_route server1 ''eth2''" "ex_if ''eth2'' 2 (le32 172 64 3 1)"] i(2)
    by (auto simp: ex_headers ex_query_facts f)
  have "nat_st sr' = ex_mapped_nat nat_mapping_icmp 7"
    using o by (auto simp: ip_output_def emits_def split: option.splits)
  moreover have "router_step sr sr'"
    using router_step.frame [of "ex_frame 1 ex_query" sr "''eth1''" sr'] s by (simp add: ex_headers)
  ultimately show ?thesis by blast
qed

text \<open>A segment from the client's mapped port to another port of the server.\<close>

definition ex_syn81 :: buf where
  "ex_syn81 = [69, 0, 0, 40, 0, 1, 0, 0, 64, 6, 192, 22, 10, 0, 1, 100, 172, 64, 3, 21,
     15, 160, 0, 81, 0, 0, 0, 7, 0, 0, 0, 0, 80, 2, 16, 0, 213, 49, 0, 0]"

lemma ex_syn81_facts:
  "tcp_packet ex_syn81 40 20 20 client1 server1" "rd16 20 ex_syn81 = Some (htons 4000)"
  "rd16 22 ex_syn81 = Some (htons 81)" "rd8 ip_ttl ex_syn81 = Some 64" "take 40 ex_syn81 = ex_syn81"
  by (simp_all add: tcp_packet_def ex_syn81_def ip_hl_def rd8_def rd16_def rd32_def client1_def server1_def,
      simp_all add: le16_def htons_def byte_def)

lemma ex_ports: "htons 80 \<noteq> htons 81"
  by (simp add: htons_def byte_def le16_def)

lemma ex_idle_more:
  "router_inv ex_idle" "if_list ex_idle = ex_ifs" "nat_enabled ex_idle" "sock_ok ex_idle"
  "unsol_pkt (nat_st ex_idle) = Some []"
  "sr_nat_lookup_internal (nat_st ex_idle) (ntohl client1) 4000 nat_mapping_tcp = Some ex_conn_map"
  "peer_port ex_conn = htons 80"
proof -
  show i: "if_list ex_idle = ex_ifs" "nat_enabled ex_idle" "sock_ok ex_idle" "unsol_pkt (nat_st ex_idle) = Some []"
    using ex_fields(5) [of True] ex_recorded_fields(10) by (simp_all add: ex_idle_def sock_ok_def)
  have "states_ok (nat_st ex_idle)"
    by (simp add: states_ok_def ex_idle_def ex_conn_map_def ex_conn_def conn_reach_all)
  then show "router_inv ex_idle"
    using ex_idle_facts(1) i(4) ex_router_inv [of True]
    by (simp add: router_inv_def nat_ok_def unsol_small_def) (simp add: ex_idle_def)
  show "sr_nat_lookup_internal (nat_st ex_idle) (ntohl client1) 4000 nat_mapping_tcp = Some ex_conn_map"
    by (simp add: sr_nat_lookup_internal_def ex_idle_def) (simp add: ex_conn_map_def)
qed (simp add: ex_conn_def)

end
