(* ===== verification/SR_Teardown.thy ===== *)
theory SR_Teardown
  imports SR_Client SR_Locks
begin

text \<open>
  The end of the program: \<open>sr_destroy_instance\<close> and \<open>main\<close> as a whole (\<open>sr_main.c\<close>), and the two functions
  that destroy a table, \<open>sr_arpcache_destroy\<close> and \<open>sr_nat_destroy\<close>, which no code calls.
\<close>

section \<open>The whole program\<close>

text \<open>
  \<open>sr_dump_close\<close> closes the log: the file keeps what was written to it (second component), and nothing
  more can be written.
\<close>

definition sr_dump_close :: "sr_instance \<Rightarrow> sr_instance \<times> buf option" where
  "sr_dump_close sr = (sr\<lparr>logfile := None\<rparr>, logfile sr)"

definition sr_destroy_instance :: "sr_instance \<Rightarrow> sr_instance \<times> buf option" where
  "sr_destroy_instance sr = (if logfile sr \<noteq> None then sr_dump_close sr else (sr, None))"

text \<open>The exit status of \<open>main\<close>; after its loop also what is left of the client, and the log file.\<close>

definition main_program ::
  "main_env \<Rightarrow> (char \<times> string) list \<Rightarrow> vns_client \<Rightarrow> (int \<times> (vns_client \<times> buf option) option) io" where
  "main_program env args c =
     and_then (main_start env args c) (\<lambda>r. case r of
       Inl status \<Rightarrow> Returns (status, None)
     | Inr c \<Rightarrow> and_then (main_loop c) (\<lambda>c.
         let (sr, log) = sr_destroy_instance (router c)
         in Returns (0, Some (c\<lparr>router := sr\<rparr>, log))))"

text \<open>
  Once the loop runs, the program's status is 0, even when a command failed; and the loop ends only with
  a command that does not return 1.
\<close>

lemma main_loop_ends:
  "main_loop c = Returns c' \<Longrightarrow> \<exists>c1 r. sr_read_from_server c1 = Returns (r, c') \<and> r \<noteq> 1"
proof (induction c rule: main_loop.induct)
  case (1 c)
  show ?case
  proof (cases "sr_read_from_server c")
    case (Returns p)
    obtain r c1 where p: "p = (r, c1)" by (cases p)
    show ?thesis
    proof (cases "r = 1")
      case True
      have "main_loop c1 = Returns c'" using 1(2) Returns p True by (subst (asm) main_loop.simps) simp
      with 1(1) [OF Returns] p True show ?thesis by blast
    next
      case False
      have "c' = c1" using 1(2) Returns p False by (subst (asm) main_loop.simps) simp
      with Returns p False show ?thesis by blast
    qed
  qed (use 1(2) in \<open>subst (asm) main_loop.simps, simp\<close>)+
qed

lemma main_program_status:
  assumes "main_program env args c = Returns (status, Some (c', log))"
  shows "status = 0 \<and> logfile (router c') = None \<and>
    (\<exists>c1 c2 r. sr_read_from_server c1 = Returns (r, c2) \<and> r \<noteq> 1 \<and>
       log = logfile (router c2) \<and> c' = c2\<lparr>router := (router c2)\<lparr>logfile := None\<rparr>\<rparr>)"
proof -
  have d: "sr_destroy_instance sr = (sr\<lparr>logfile := None\<rparr>, logfile sr)" for sr
    by (cases "logfile sr") (simp_all add: sr_destroy_instance_def sr_dump_close_def)
  obtain x where x: "main_start env args c = Returns x"
    using assms by (auto simp: main_program_def and_then_Returns)
  then obtain c0 where s: "main_start env args c = Returns (Inr c0)"
    using assms by (cases x) (simp_all add: main_program_def)
  then obtain c2 where l: "main_loop c0 = Returns c2" and c': "status = 0"
      "log = logfile (router c2)" "c' = c2\<lparr>router := (router c2)\<lparr>logfile := None\<rparr>\<rparr>"
    using assms by (auto simp: main_program_def and_then_Returns d)
  with main_loop_ends [OF l] show ?thesis by auto
qed

section \<open>Destroying the tables\<close>

text \<open>
  The calls a destructor makes, in order.  What \<open>pthread_mutex_destroy\<close> and \<open>pthread_mutexattr_destroy\<close>
  return, 0 on success, are arguments.
\<close>

datatype teardown_call = Take_lock | Free_mapping sr_nat_mapping | Kill_thread | Destroy_mutex | Destroy_attr

text \<open>\<open>pthread_mutex_destroy(..) && pthread_mutexattr_destroy(..)\<close>.\<close>

definition destroy_both :: "int \<Rightarrow> int \<Rightarrow> int \<times> teardown_call list" where
  "destroy_both lock_ret attr_ret =
     (if lock_ret = 0 then (0, [Destroy_mutex])
      else (if attr_ret = 0 then 0 else 1, [Destroy_mutex, Destroy_attr]))"

definition sr_arpcache_destroy :: "int \<Rightarrow> int \<Rightarrow> int \<times> teardown_call list" where
  "sr_arpcache_destroy lock_ret attr_ret = destroy_both lock_ret attr_ret"

definition sr_nat_destroy :: "int \<Rightarrow> int \<Rightarrow> sr_nat \<Rightarrow> int \<times> teardown_call list" where
  "sr_nat_destroy lock_ret attr_ret nat_tbl =
     (let (ret, calls) = destroy_both lock_ret attr_ret
      in (ret, Take_lock # map Free_mapping (mappings nat_tbl) @ Kill_thread # calls))"

text \<open>
  The attribute is destroyed only after the mutex could not be, and then success is reported; when
  both are destroyed as they should be, the attribute is not.
\<close>

lemma destroy_success:
  "fst (sr_arpcache_destroy lock_ret attr_ret) = 0 \<longleftrightarrow> lock_ret = 0 \<or> attr_ret = 0"
  "Destroy_attr \<in> set (snd (sr_arpcache_destroy lock_ret attr_ret)) \<longleftrightarrow> lock_ret \<noteq> 0"
  by (simp_all add: sr_arpcache_destroy_def destroy_both_def)

text \<open>
  \<open>sr_nat_destroy\<close> destroys the mutex while it holds it; with the \<open>EBUSY\<close> that \<open>pthread_mutex_destroy\<close>
  gives then, its 0 says that both are destroyed although the mutex is not.
\<close>

lemma nat_destroy_busy:
  assumes "sr_nat_destroy lock_ret 0 nt = (ret, calls)" "lock_ret \<noteq> 0"
  shows "ret = 0 \<and> Destroy_attr \<in> set calls \<and> (\<forall>m. Free_mapping m \<in> set calls \<longleftrightarrow> m \<in> set (mappings nt))"
  using assms by (auto simp: sr_nat_destroy_def destroy_both_def)

end
