(* ===== verification/Spec2Isabelle.thy ===== *)
theory Spec2Isabelle
  imports SR_Examples SR_ClientExamples SR_RunExamples SR_Teardown
begin

text \<open>
  A NAT router for the VNS/POX emulation (\<open>src/router\<close>, C): it connects to a server, which hands it the
  frames that arrive on its virtual interfaces and takes the frames it sends.  It resolves addresses
  with ARP, forwards IP packets by longest prefix, answers and originates ICMP, and with \<open>-n\<close> translates
  ICMP queries and TCP between private hosts and the outside.  Two timer threads expire its tables.

  The parts and the theories that model them, in the order the code uses them:

    \<^item> \<open>SR_Prelude\<close>: machine integers as words, buffers as byte lists, every load and store of the C code as
      a partial operation on a buffer, \<open>ntohs\<close>/\<open>htonl\<close>, and the lemmas on lists and words all theories
      share.  The locale \<open>mem_field\<close> is the contract of a struct field inside a packet; every field access
      of the model is an instance.
    \<^item> \<open>SR_Protocol\<close> (\<open>sr_protocol.h\<close>): header sizes, field offsets and constants; \<open>SR_Utils\<close> (\<open>sr_utils.c\<close>):
      the Internet checksum and the private-address test; \<open>SR_If\<close> (\<open>sr_if.c\<close>): the interface list;
      \<open>SR_Rt\<close> (\<open>sr_rt.c\<close>): the routing table, its file and the longest-prefix lookup.
    \<^item> \<open>SR_ArpCache\<close> (\<open>sr_arpcache.c\<close>): the 100 cache entries and the list of pending requests with their
      queued packets.  The locale \<open>arp_resolver\<close> states what the router relies on: what is learned is
      resolved.
    \<^item> \<open>SR_NatIds\<close>, \<open>SR_Nat\<close>, \<open>SR_NatConn\<close> (\<open>sr_nat.c\<close>): the bitmap of external identifiers (locale
      \<open>id_pool\<close>), the table of mappings with their connections and the list of unsolicited packets (locale
      \<open>nat_table\<close>, client \<open>translate\<close>), and the TCP state machine of a connection.
    \<^item> \<open>SR_Instance\<close> (\<open>sr_router.h\<close>, \<open>sr_dumper.c\<close>, \<open>sr_send_packet\<close>): the state of a router, the packet log
      and the socket.  \<open>SR_Packets\<close>, \<open>SR_Forward\<close>, \<open>SR_Translate\<close>, \<open>SR_Router\<close> (\<open>sr_router.c\<close>): building packets,
      sending and forwarding them, the two translation handlers, and the handlers of a frame.
      \<open>SR_Timers\<close>: one round of each timer thread.
    \<^item> \<open>SR_Sha1\<close> (\<open>sha1.c\<close>): the hash, with FIPS 180 as a separate definition; the locale \<open>hash_context\<close> is what
      its caller relies on.  \<open>SR_Vns\<close>, \<open>SR_Commands\<close> (\<open>sr_vns_comm.c\<close>, \<open>vnscommand.h\<close>): reading commands from
      the server's stream, dispatching and handling them.  \<open>SR_Main\<close>, \<open>SR_Client\<close> (\<open>sr_main.c\<close>): the
      command line, the start of the program and its main loop.
    \<^item> \<open>SR_Print\<close>: what the program prints (\<open>print_*\<close> in \<open>sr_utils.c\<close>, \<open>sr_print_*\<close>, \<open>sr_arpcache_dump\<close>,
      \<open>usage\<close>), as the texts written to each stream.  \<open>SR_Teardown\<close>: \<open>main\<close> from its start to its exit status, and
      the destructors.
    \<^item> \<open>SR_Sessions\<close>, \<open>SR_Pipeline\<close>, \<open>SR_Unsolicited\<close>, \<open>SR_System\<close>, \<open>SR_Wire\<close>: composition.  Exchanges through the
      NAT, a frame from arrival to departure, the life of an unsolicited packet, the router as a step
      relation, and the way from the server's stream through a handler back to the server.
    \<^item> \<open>SR_Network\<close>: routers in series.  What one router writes to the server is a frame the next one accepts.
    \<^item> \<open>SR_Locks\<close>: the three threads and the two recursive mutexes.  Every function that locks has a skeleton, the
      locks it takes and gives back on each of its paths, and the threads interleave single lock
      operations; the locale \<open>lock_rounds\<close> is the discipline that keeps them from getting stuck.  \<open>SR_Races\<close>:
      the NAT calls of a handler as sections under the NAT's mutex, with the rounds of the timers between them.
    \<^item> \<open>SR_NatSpec\<close>: what the NAT promises, as an abstract machine on a map from internal endpoints to
      external identifiers (\<open>nat_spec\<close>), and the refinement: through \<open>nat_view\<close> every operation of \<open>sr_nat.c\<close>
      on the mappings, every handler, every step of the router and every step of \<open>SR_Races\<close> is one step of
      it, as long as there are no more mappings than identifiers.
    \<^item> \<open>SR_Examples\<close>, \<open>SR_ClientExamples\<close>, \<open>SR_RunExamples\<close>: the concrete router, packets, client and threads of
      the witnesses.

  How the state corresponds.  \<open>sr_instance\<close> is the C struct, with the linked lists as lists in their order
  (\<open>if_list\<close>, \<open>routing_table\<close>, ARP requests, mappings newest first, connections) and the NAT's bitmap as 2048
  words.  Where the code compares pointers, a request or connection carries the address it was allocated
  at; allocators (\<open>arp_brk\<close>, \<open>nat_brk\<close>) never reuse one, so a freed object is told from a live one.
  \<open>unsol_pkt = None\<close> is the pointer \<open>sr_nat_init\<close> leaves uninitialised.  Packets are byte lists of their
  allocated length; multi-byte loads are little-endian, so a field is in network order until the code calls
  \<open>ntohs\<close>.  \<open>unsigned int\<close> is \<open>u32\<close> and wraps, \<open>int\<close> and \<open>time_t\<close> are integers.  A result \<open>None\<close> (\<open>Undefined\<close> for
  operations that wait) means that the C code has no defined behaviour: an access outside an allocation, a
  null or dangling pointer, a failed assertion.  What the system does is part of the state or an argument:
  the clock (read once per handler), what \<open>write\<close> returns, the pieces in which the stream arrives, files,
  \<open>inet_aton\<close>, the memory \<open>malloc\<close> returns.

  What is proved.  Every run keeps the ARP cache consistent (C2), and the NAT's tables as long as there are
  no more mappings than identifiers (C1), for the whole program from its start too (C40), and when the
  timers come between the NAT calls of a handler (C16; \<open>handlers_are_sections\<close> shows that the handlers
  are these calls); seen from outside the NAT is then a one-to-one map in which each
  step opens one endpoint, expires some or is quiet (C30); the threads do not deadlock (C12).  A frame that
  comes in leaves as the standard and the code say, with valid checksums and nothing else changed:
  forwarded, also from the server's stream back to it, translated out and back, answered, or dropped (C3 to
  C13), and what one router sends the next one accepts and forwards (C31); all that is written has the
  format of the server (C8).  Queued packets, retries and the cache behave as stated (C14, C15, C17,
  C18), and so do the packets the NAT refuses (C20, C33).  The lookup is a longest-prefix match, and tables
  are loaded and printed as stated (C19, C21, C22), the checksum and SHA-1 are the standard's functions (C23, C34), the NAT's identifiers and
  timeouts are exact (C24 to C28), the server's commands are read whole in whatever pieces they
  come and change what they should (C35 to C39).  Several theorems show where the code goes wrong: a
  checksum of 0 (C11), packets lost when a reply comes in elsewhere (C14), a freed request that is read
  again (C18), a second peer refused (C20), exhausted identifiers (C25), the established timeout without
  effect (C27), states that cannot be reached (C28), two races with the NAT's timer (C29, C32), the end of
  the stream (C37) and a short length field (C38); and beside the numbered ones a TTL of 0
  (\<open>ttl_zero_forwarded\<close>), the default route that is never used (\<open>default_route_unused\<close>), a null route
  (\<open>tcp_no_route_undefined\<close>), a read past a packet with options (\<open>icmp_options_overrun\<close>) and the cache
  dump that confuses addresses (\<open>dump_ambiguous\<close>).  \<open>options_keep_timeouts\<close> (\<open>SR_Main\<close>) shows that no
  command line changes the timeouts.

  Bounds and termination.  Loops over lists are structural recursions and loops over the stream terminate
  by the number of bytes and events left.  Only the sweep over the ARP requests takes fuel, the number of
  requests plus one, since it follows pointers in a list that it changes; running out would be \<open>None\<close>, and
  C17 shows that it is enough while no request is given up (C18 is about that case).  The NAT has 64512
  identifiers, 1024 to 65535, and the code makes mappings also when they are all taken (C25).  The steps
  of \<open>router_step\<close> and \<open>client_step\<close> do not exclude that: \<open>router_safe\<close> is what they keep in any case, and
  what needs free identifiers is stated for runs whose states hold at most 64512 mappings
  (\<open>fitting_step\<close>, \<open>fitting_client_step\<close>) or, for a single operation, with \<open>nat_room\<close>.  Frames have less
  than 2^31 - 14 bytes (the server's messages at most 10000).  C34 holds for pieces below 2^32 and
  messages below 2^61 bytes.

  Threads.  In \<open>router_step\<close> and \<open>client_step\<close> each handler and each timer round is one step.  \<open>SR_Locks\<close> treats the
  locks of all functions at the grain of single lock operations but no data; \<open>SR_Races\<close> treats the data
  of the NAT at the grain of its locked calls, for one handler and any number of timer rounds.

  Not modelled: interleavings inside a locked section with code that takes no lock, such as the printing
  of \<open>nat.mappings\<close> in the handlers while the timer frees mappings, or the timers' sends while the main thread
  uses the socket; the order in which text of different threads reaches the terminal, and at which points
  of a handler the printing functions are called (of the messages only the memory they read is
  modelled there); leaked memory; the POX controller, the topology and the test scripts, which are not
  the router's code.  What the headers only declare (prototypes, \<open>extern\<close> variables, struct types no function
  uses) has no definition here.
\<close>

section \<open>Every run\<close>

text \<open>
  C1: In every run of the router from its start, by frames (below 2 GB), timer rounds, passing time and
  socket changes, in which the table never holds more than 64512 mappings (one for each identifier; C25 shows
  what the code does beyond), no two NAT mappings share an external port or identifier, all of them lie
  in 1024..65535 and are exactly the ones the bitmap marks as used, no two mappings share an internal
  address and port, and every TCP connection is in a state other than \<open>LISTEN\<close>, \<open>SYN_RCVD\<close>,
  \<open>TIME_WAIT\<close>, \<open>CLOST_WAIT\<close> and \<open>LAST_ACK\<close>.
\<close>
theorem run_nat_tables:
  assumes "router_boot sr0"
    and "(\<lambda>a b. router_step a b \<and> length (mappings (nat_st b)) \<le> 64512)\<^sup>*\<^sup>* sr0 sr"
  shows "distinct (map aux_ext (mappings (nat_st sr))) \<and>
    (\<forall>k \<in> {1024..<65536}. used (bitmap (nat_st sr)) k \<longleftrightarrow> k \<in> ext_id ` set (mappings (nat_st sr))) \<and>
    (\<forall>m \<in> set (mappings (nat_st sr)). 1024 \<le> ext_id m) \<and>
    distinct (map int_key (mappings (nat_st sr))) \<and>
    (\<forall>m \<in> set (mappings (nat_st sr)). \<forall>c \<in> set (conns m).
       conn_state c \<in> {SYN_SENT, ESTAB, FIN_WAIT_1, FIN_WAIT_2, CLOSING, CLOSED})"
proof -
  have ok: "nat_inv (nat_st sr)" "states_ok (nat_st sr)"
    using fitting_run_inv [OF assms(2) router_boot_inv [OF assms(1)]] by (simp_all add: router_inv_def nat_ok_def)
  then show ?thesis
    using nat_inv_tables [OF ok(1)] conn_reach_states by (auto simp: states_ok_def)
qed

theorem run_nat_tables_witness:
  "\<exists>sr. router_boot (ex_boot True) \<and> router_step (ex_boot True) sr \<and>
    mappings (nat_st sr) = [ex_map nat_mapping_icmp 7] \<and> used (bitmap (nat_st sr)) 1024"
proof -
  obtain sr where s: "router_step (ex_boot True) sr" "nat_st sr = ex_mapped_nat nat_mapping_icmp 7"
    using ex_query_step by blast
  then have m: "mappings (nat_st sr) = [ex_map nat_mapping_icmp 7]" by (simp add: ex_insert(2))
  with s(1) have "(\<lambda>a b. router_step a b \<and> length (mappings (nat_st b)) \<le> 64512)\<^sup>*\<^sup>* (ex_boot True) sr"
    by (intro r_into_rtranclp) simp
  from run_nat_tables [OF ex_boot_start this] have "used (bitmap (nat_st sr)) 1024"
    by (auto simp: m ext_id_def)
  with s(1) m show ?thesis using ex_boot_start by blast
qed

text \<open>
  C2: In every state the router reaches (by frames below 2 GB, timer rounds, passing time), also with all identifiers taken, the ARP cache has its 100
  entries, there is at most one ARP request per address, and every request holds at least one packet,
  each stored with its own length.
\<close>
theorem run_arp_cache:
  assumes "router_reach sr"
  shows "length (entries (cache sr)) = 100 \<and> distinct (map req_ip (requests (cache sr))) \<and>
    (\<forall>r \<in> set (requests (cache sr)). req_packets r \<noteq> [] \<and>
       (\<forall>pkt \<in> set (req_packets r). length (pkt_buf pkt) = unat (pkt_len pkt)))"
  using router_reach_safe [OF assms]
  by (simp add: router_safe_def arp_inv_def req_ok_def pkt_ok_def list_all_iff)

theorem run_arp_cache_witness:
  "\<exists>sr. router_reach sr \<and> nat_st sr = ex_mapped_nat nat_mapping_icmp 7 \<and> length (entries (cache sr)) = 100"
proof -
  obtain sr where s: "router_step (ex_boot True) sr" "nat_st sr = ex_mapped_nat nat_mapping_icmp 7"
    using ex_query_step by blast
  have "router_reach sr" by (rule router_reach.step [OF router_reach.start [OF ex_boot_start] s(1)])
  with run_arp_cache [OF this] s(2) show ?thesis by blast
qed

section \<open>Frames in, frames out\<close>

text \<open>
  C3: With NAT on, a frame with an ICMP query from a private host to a routed outside address leaves
  with the outgoing interface's address as its source, the identifier of its mapping (found, or made),
  both checksums valid, every other byte but the TTL unchanged and the TTL one less; it goes to the
  route's gateway, at once when ARP knows it and queued otherwise.
\<close>
theorem nat_query_leaves:
  assumes "ip_frame sr f iface i 5" "nat_enabled sr" "router_inv sr" "sock_ok sr"
    and "rd8 ip_p (drop 14 f) = Some ip_protocol_icmp" "drop 14 f ! ip_ttl \<noteq> 1"
    and "ip_plain (drop 14 f) src dst n" "8 \<le> n" "is_private_ip (ntohl src)" "\<not> is_private_ip (ntohl dst)"
      "\<not> for_router sr dst" "rd16 24 (drop 14 f) = Some ident"
    and "sr_rt_lookup (routing_table sr) dst = Some (Some r)"
      "sr_get_interface (if_list sr) (rt_interface r) = Some out"
  shows "\<exists>m nt p1 p2 sr'.
    nat_translate (clock sr) nat_mapping_icmp (nat_st sr) (ntohl src) (ntohs ident) = (m, nt) \<and>
    icmp_translated ip_src (if_ip out) (htons (aux_ext m)) n (drop 14 f) p1 \<and> next_hop_header p1 p2 \<and>
    sr_handlepacket sr f (of_nat (length f)) iface = Some sr' \<and>
    ip_output (sr\<lparr>nat_st := nt\<rparr>) (rt_gw r) out p2 (of_nat (length f) - 14) (rt_interface r) iface sr'"
  by (rule frame_nat_query [OF assms(1) refl refl assms(2-)])

theorem nat_query_leaves_witness:
  "\<exists>m nt p1 p2 sr'.
    nat_translate 1000 nat_mapping_icmp (nat_st (ex_router True)) (ntohl client1) 7 = (m, nt) \<and>
    icmp_translated ip_src (le32 172 64 3 1) (htons (aux_ext m)) 10 ex_query p1 \<and> next_hop_header p1 p2 \<and>
    sr_handlepacket (ex_router True) (ex_frame 1 ex_query) 44 ''eth1'' = Some sr' \<and>
    ip_output (ex_router True\<lparr>nat_st := nt\<rparr>) server1 (ex_if ''eth2'' 2 (le32 172 64 3 1)) p2 30
      ''eth2'' ''eth1'' sr'"
  using nat_query_leaves [OF ex_ip_frame(1) _ ex_router_inv, of ex_query True client1 server1 10
      "le16 0 7" "ex_route server1 ''eth2''" "ex_if ''eth2'' 2 (le32 172 64 3 1)"]
  by (simp add: ex_headers ex_query_facts)

text \<open>
  C4: With NAT on, a frame with an ICMP echo reply for the router whose identifier belongs to a mapping
  leaves towards the mapping's internal host: destination address and identifier are the internal ones,
  both checksums are valid, every other byte but the TTL is unchanged and the TTL is one less.
\<close>
theorem nat_reply_enters:
  assumes "ip_frame sr f iface i 5" "nat_enabled sr" "router_inv sr" "sock_ok sr"
    and "rd8 ip_p (drop 14 f) = Some ip_protocol_icmp" "rd8 20 (drop 14 f) = Some 0"
    and "valid_sum (drop 20 (drop 14 f))" "rd16 22 (drop 14 f) \<noteq> Some 0"
    and "ip_plain (drop 14 f) src dst n" "8 \<le> n" "\<not> is_private_ip (ntohl src)" "for_router sr dst"
      "rd16 24 (drop 14 f) = Some ident"
    and "sr_nat_lookup_external (nat_st sr) (ntohs ident) nat_mapping_icmp = Some m"
    and "sr_rt_lookup (routing_table sr) (htonl (ip_int m)) = Some (Some r)"
      "sr_get_interface (if_list sr) (rt_interface r) = Some out"
  shows "\<exists>p1 p2 sr'. icmp_translated ip_dst (htonl (ip_int m)) (htons (aux_int m)) n (drop 14 f) p1 \<and>
    next_hop_header p1 p2 \<and> sr_handlepacket sr f (of_nat (length f)) iface = Some sr' \<and>
    ip_output sr (rt_gw r) out p2 (of_nat (length f) - 14) (rt_interface r) iface sr'"
  by (rule frame_nat_reply [OF assms(1) refl refl assms(2-)])

theorem nat_reply_enters_witness:
  "\<exists>p1 p2 sr'. icmp_translated ip_dst client1 (htons 7) 10 ex_reply p1 \<and> next_hop_header p1 p2 \<and>
    sr_handlepacket (ex_mapped nat_mapping_icmp 7) (ex_frame 2 ex_reply) 44 ''eth2'' = Some sr' \<and>
    ip_output (ex_mapped nat_mapping_icmp 7) client1 (ex_if ''eth1'' 1 (le32 10 0 1 1)) p2 30 ''eth1'' ''eth2'' sr'"
  using nat_reply_enters [of "ex_mapped nat_mapping_icmp 7" "ex_frame 2 ex_reply" "''eth2''"
      "ex_if ''eth2'' 2 (le32 172 64 3 1)" server1 "le32 172 64 3 1" 10 "htons 1024"
      "ex_map nat_mapping_icmp 7" "ex_route client1 ''eth1''" "ex_if ''eth1'' 1 (le32 10 0 1 1)"]
    ex_ip_frame(2) [of ex_reply True] ex_mapped_inv
  by (simp add: ex_headers ex_reply_facts ex_mapped_lookup)

text \<open>
  C5: A session through the NAT: when the ICMP query of an internal host has been translated, an ICMP
  message from outside that carries the identifier of the translated query is translated back to the
  host's own address and identifier.
\<close>
theorem icmp_session:
  assumes "nat_inv (nat_st sr)" "nat_room (nat_st sr)"
    and "ip_plain p src dst n" "8 \<le> n" "is_private_ip (ntohl src)" "\<not> is_private_ip (ntohl dst)"
      "rd16 24 p = Some ident"
    and "sr_rt_lookup (routing_table sr) dst = Some (Some r)"
      "sr_get_interface (if_list sr) (rt_interface r) = Some i"
    and "nat_handle_icmp sr p = Some (code, p', sr')"
    and "ip_plain q src' dst' k" "8 \<le> k" "\<not> is_private_ip (ntohl src')" "rd16 24 q = rd16 24 p'"
  shows "code = 1 \<and> rd32 ip_src p' = Some (if_ip i) \<and>
    (\<exists>q'. nat_handle_icmp sr' q = Some (1, q', sr') \<and> icmp_translated ip_dst src ident k q q')"
  by (rule icmp_query_reply [OF assms])

theorem icmp_session_witness:
  "\<exists>p' sr' q'. nat_handle_icmp (ex_router True) ex_query = Some (1, p', sr') \<and>
    nat_handle_icmp sr' ex_reply = Some (1, q', sr') \<and>
    icmp_translated ip_dst client1 (le16 0 7) 10 ex_reply q'"
proof -
  obtain p' where p': "nat_handle_icmp (ex_router True) ex_query = Some (1, p', ex_mapped nat_mapping_icmp 7)"
    and t: "icmp_translated ip_src (le32 172 64 3 1) (htons 1024) 10 ex_query p'"
    using ex_query_out by blast
  have q: "rd16 24 ex_reply = rd16 24 p'" using t ex_reply_facts(6) by (simp add: icmp_translated_def)
  from icmp_session [OF ex_inv(1,2) ex_query_facts(1) _ _ _ ex_query_facts(4) _ _ p' ex_reply_facts(1) _ _ q,
      where r = "ex_route server1 ''eth2''" and i = "ex_if ''eth2'' 2 (le32 172 64 3 1)"]
  show ?thesis using p' by auto
qed

text \<open>
  C6: A TCP handshake through the NAT: the first segment of an internal port that has no mapping leaves
  translated, with the interface's address and a port of 1024 or more that no other mapping has as its
  source, both checksums valid and every other byte unchanged; and a SYN with ACK of the peer to that port
  comes back to the internal address and port, again with both checksums valid, and puts the connection
  in state \<open>ESTAB\<close>.
\<close>
theorem tcp_session:
  assumes "nat_inv (nat_st sr)" "nat_room (nat_st sr)"
    and "tcp_packet p len tcp n src dst" "is_private_ip (ntohl src)" "\<not> is_private_ip (ntohl dst)"
      "rd16 tcp p = Some sport" "rd16 (tcp + 2) p = Some dport"
    and "unsol_readable (tcp div 4) (nat_st sr)"
    and "sr_rt_lookup (routing_table sr) dst = Some (Some r)"
      "sr_get_interface (if_list sr) (rt_interface r) = Some i"
    and "sr_nat_lookup_internal (nat_st sr) (ntohl src) (ntohs sport) nat_mapping_tcp = None"
  shows "\<exists>port p' sr'. nat_handle_tcp sr p len dir = Some (1, p', sr') \<and>
    1024 \<le> unat port \<and> port \<notin> aux_ext ` set (mappings (nat_st sr)) \<and>
    tcp_translated ip_src (if_ip i) tcp (htons port) tcp n p p' \<and>
    (\<forall>q len' tcp' k dst' f. tcp_packet q len' tcp' k dst dst' \<and> rd16 tcp' q = Some dport \<and>
       rd16 (tcp' + 2) q = Some (htons port) \<and> tcp_flags_at tcp' q = Some f \<and> SYN f \<and> ACK f \<longrightarrow>
       (\<exists>q' sr'' c. nat_handle_tcp sr' q len' 1 = Some (1, q', sr'') \<and>
          tcp_translated ip_dst src (tcp' + 2) sport tcp' k q q' \<and>
          c \<in> set (all_conns (nat_st sr'')) \<and> conn_state c = ESTAB \<and> peer_ip c = dst \<and> peer_port c = dport))"
  by (rule tcp_handshake [OF assms])

theorem tcp_session_witness:
  "\<exists>p' sr' q' sr'' c. nat_handle_tcp (ex_router True) ex_syn 40 0 = Some (1, p', sr') \<and>
    tcp_translated ip_src (le32 172 64 3 1) 20 (htons 1024) 20 20 ex_syn p' \<and>
    nat_handle_tcp sr' ex_syn_ack 40 1 = Some (1, q', sr'') \<and>
    tcp_translated ip_dst client1 22 (htons 4000) 20 20 ex_syn_ack q' \<and>
    c \<in> set (all_conns (nat_st sr'')) \<and> conn_state c = ESTAB"
proof -
  obtain pe nt where e: "nat_handle_tcp (ex_router True) ex_syn 40 0 = Some (1, pe, ex_router True\<lparr>nat_st := nt\<rparr>)"
      "tcp_translated ip_src (le32 172 64 3 1) 20 (htons 1024) 20 20 ex_syn pe"
    using ex_syn_out by blast
  obtain port p' sr' where o: "nat_handle_tcp (ex_router True) ex_syn 40 0 = Some (1, p', sr')"
      "tcp_translated ip_src (le32 172 64 3 1) 20 (htons port) 20 20 ex_syn p'"
    and answer: "\<forall>q len' tcp' k dst' f. tcp_packet q len' tcp' k server1 dst' \<and> rd16 tcp' q = Some (htons 80) \<and>
       rd16 (tcp' + 2) q = Some (htons port) \<and> tcp_flags_at tcp' q = Some f \<and> SYN f \<and> ACK f \<longrightarrow>
       (\<exists>q' sr'' c. nat_handle_tcp sr' q len' 1 = Some (1, q', sr'') \<and>
          tcp_translated ip_dst client1 (tcp' + 2) (htons 4000) tcp' k q q' \<and>
          c \<in> set (all_conns (nat_st sr'')) \<and> conn_state c = ESTAB \<and> peer_ip c = server1 \<and> peer_port c = htons 80)"
    using tcp_session [OF ex_inv(1,2) ex_tcp_facts(1) _ _ ex_tcp_facts(2), where dport = "htons 80"
        and r = "ex_route server1 ''eth2''" and i = "ex_if ''eth2'' 2 (le32 172 64 3 1)" and dir = 0]
      ex_inv(3) ex_tcp_facts(3) by (auto simp: ex_lookup_none)
  have "htons port = htons 1024" using e o by (auto simp: tcp_translated_def)
  then have "\<exists>q' sr'' c. nat_handle_tcp sr' ex_syn_ack 40 1 = Some (1, q', sr'') \<and>
      tcp_translated ip_dst client1 22 (htons 4000) 20 20 ex_syn_ack q' \<and>
      c \<in> set (all_conns (nat_st sr'')) \<and> conn_state c = ESTAB"
    using answer [rule_format, of ex_syn_ack 40 20 20] ex_tcp_facts by fastforce
  with o \<open>htons port = htons 1024\<close> show ?thesis by auto
qed

text \<open>
  C7: From the server's stream back to it: with NAT off, a packet message in the stream, in whatever
  pieces it comes, that holds a valid IP packet for a routed destination other than the router, with a
  TTL other than 1 (a TTL of 0 becomes 255), is read whole, and the packet leaves towards the route's gateway through the route's
  interface with its TTL one less, a valid header checksum and every other byte unchanged.
\<close>
theorem frame_through_server:
  assumes "stream (inbox c) = vns_message iface f @ rest" "Failed \<notin> set (inbox c)"
    and "iface_name_ok iface" "length f + 24 \<le> 10000"
    and "ip_frame (router c) f iface i hl" "\<not> nat_enabled (router c)" "router_inv (router c)" "sock_ok (router c)"
    and "rd32 ip_dst (drop 14 f) = Some dst" "\<not> for_router (router c) dst" "drop 14 f ! ip_ttl \<noteq> 1"
    and "sr_rt_lookup (routing_table (router c)) dst = Some (Some r)"
      "sr_get_interface (if_list (router c)) (rt_interface r) = Some out"
  shows "\<exists>evs lf p' sr'. stream evs = rest \<and>
    sr_read_from_server c = Returns (1, c\<lparr>inbox := evs, router := sr'\<rparr>) \<and>
    next_hop_header (drop 14 f) p' \<and>
    ip_output ((router c)\<lparr>logfile := lf\<rparr>) (rt_gw r) out p' (of_nat (length f) - 14) (rt_interface r) iface sr'"
  by (rule client_forwards [OF assms])

theorem frame_through_server_witness:
  "\<exists>evs lf p' sr'. stream evs = [] \<and>
    sr_read_from_server (ex_relay (in_pieces (vns_message ''eth1'' ex_transit))) =
      Returns (1, (ex_relay (in_pieces (vns_message ''eth1'' ex_transit)))\<lparr>inbox := evs, router := sr'\<rparr>) \<and>
    next_hop_header (ex_udp 64 192 23) p' \<and>
    ip_output ((ex_router False)\<lparr>logfile := lf\<rparr>) server1 (ex_if ''eth2'' 2 (le32 172 64 3 1)) p' 28
      ''eth2'' ''eth1'' sr'"
  using frame_through_server [of "ex_relay (in_pieces (vns_message ''eth1'' ex_transit))" "''eth1''" ex_transit "[]"
      "ex_if ''eth1'' 1 (le32 10 0 1 1)" 5 server1 "ex_route server1 ''eth2''"
      "ex_if ''eth2'' 2 (le32 172 64 3 1)"] ex_router_inv [of False] in_pieces
  by (simp add: ex_transit_facts ex_udp_facts)

text \<open>
  With NAT off, a frame with a valid IP packet for a routed destination that is not the router, with
  a TTL other than 1, leaves towards the route's gateway through the route's interface with its TTL one
  less, a valid header checksum and every other byte unchanged.
\<close>
theorem frame_is_forwarded:
  assumes "ip_frame sr f iface i hl" "\<not> nat_enabled sr" "router_inv sr" "sock_ok sr"
    and "rd32 ip_dst (drop 14 f) = Some dst" "\<not> for_router sr dst" "drop 14 f ! ip_ttl \<noteq> 1"
    and "sr_rt_lookup (routing_table sr) dst = Some (Some r)"
      "sr_get_interface (if_list sr) (rt_interface r) = Some out"
  shows "\<exists>p' sr'. sr_handlepacket sr f (of_nat (length f)) iface = Some sr' \<and>
    next_hop_header (drop 14 f) p' \<and>
    ip_output sr (rt_gw r) out p' (of_nat (length f) - 14) (rt_interface r) iface sr'"
  by (rule frame_forwarded [OF assms(1) refl refl assms(2-)])

theorem frame_is_forwarded_witness:
  "\<exists>p' sr'. sr_handlepacket (ex_router False) (ex_frame 1 (ex_udp 64 192 23)) 42 ''eth1'' = Some sr' \<and>
    next_hop_header (ex_udp 64 192 23) p' \<and>
    ip_output (ex_router False) server1 (ex_if ''eth2'' 2 (le32 172 64 3 1)) p' 28 ''eth2'' ''eth1'' sr'"
  using frame_is_forwarded [OF ex_ip_frame(1) _ ex_router_inv, of "ex_udp 64 192 23" False server1
      "ex_route server1 ''eth2''" "ex_if ''eth2'' 2 (le32 172 64 3 1)"]
  by (simp add: ex_headers ex_udp_facts)

text \<open>
  A TTL of 0 is not treated as expired: the packet is forwarded with TTL 255.
\<close>
theorem ttl_zero_forwarded:
  assumes "ip_frame sr f iface i hl" "\<not> nat_enabled sr" "router_inv sr" "sock_ok sr"
    and "rd32 ip_dst (drop 14 f) = Some dst" "\<not> for_router sr dst" "drop 14 f ! ip_ttl = 0"
    and "sr_rt_lookup (routing_table sr) dst = Some (Some r)"
      "sr_get_interface (if_list sr) (rt_interface r) = Some out"
  shows "\<exists>p' sr'. sr_handlepacket sr f (of_nat (length f)) iface = Some sr' \<and> p' ! ip_ttl = 255 \<and>
    ip_output sr (rt_gw r) out p' (of_nat (length f) - 14) (rt_interface r) iface sr'"
  using frame_forwarded [OF assms(1) refl refl assms(2-6) _ assms(8,9)] assms(7)
    next_hop_wraps by fastforce

theorem ttl_zero_forwarded_witness:
  "\<exists>p' sr'. sr_handlepacket (ex_router False) (ex_frame 1 (ex_udp 0 0 24)) 42 ''eth1'' = Some sr' \<and>
    p' ! ip_ttl = 255 \<and>
    ip_output (ex_router False) server1 (ex_if ''eth2'' 2 (le32 172 64 3 1)) p' 28 ''eth2'' ''eth1'' sr'"
  using ttl_zero_forwarded [OF ex_ip_frame(1) _ ex_router_inv, of "ex_udp 0 0 24" False server1
      "ex_route server1 ''eth2''" "ex_if ''eth2'' 2 (le32 172 64 3 1)"]
  by (simp add: ex_headers ex_udp_facts)

text \<open>
  C31: Two routers in series: a packet whose next hop is known leaves the first router in one message,
  and when the server hands its frame to the router that has the next hop's hardware address, that
  router accepts it and sends it on by its own route.  After both the TTL is two less, the header
  checksum valid and every other byte unchanged.
\<close>
theorem two_routers:
  assumes "forwards c iface p r out" "p ! ip_ttl \<noteq> 1" "p = drop 14 f" "length f + 24 \<le> 10000"
    and "stream (inbox c) = vns_message iface f @ rest" "Failed \<notin> set (inbox c)"
    and "ip_frame (router c) f iface i hl"
    and "sr_arpcache_lookup (cache (router c)) (rt_gw r) = Some e"
    and "forwards d iface2 p r2 out2" "p ! ip_ttl \<noteq> 2"
    and "sr_get_interface (if_list (router d)) iface2 = Some j" "if_addr j = ent_mac e"
  shows "\<exists>c' g. sr_read_from_server c = Returns (1, c') \<and>
    wire (router c') = wire (router c) @ [vns_message (rt_interface r) g] \<and>
    (\<forall>evs rest2. stream evs = vns_message iface2 g @ rest2 \<longrightarrow> Failed \<notin> set evs \<longrightarrow>
      (\<exists>evs' lf q sr'. stream evs' = rest2 \<and>
        sr_read_from_server (d\<lparr>inbox := evs\<rparr>) = Returns (1, d\<lparr>inbox := evs', router := sr'\<rparr>) \<and>
        q ! ip_ttl = p ! ip_ttl - 2 \<and> (\<forall>k. k \<notin> {ip_ttl, ip_sum, 11} \<longrightarrow> q ! k = p ! k) \<and>
        valid_sum (take (hl * 4) q) \<and> length q = length p \<and>
        ip_output ((router d)\<lparr>logfile := lf\<rparr>) (rt_gw r2) out2 q (of_nat (length f) - 14)
          (rt_interface r2) iface2 sr'))"
  by (rule two_hops [OF assms])

theorem two_routers_witness:
  "\<exists>c' g. sr_read_from_server (ex_relay (in_pieces (vns_message ''eth1'' ex_transit))) = Returns (1, c') \<and>
    wire (router c') = wire (ex_router False) @ [vns_message ''eth2'' g] \<and>
    (\<exists>evs' lf q sr'. sr_read_from_server (ex_relay2\<lparr>inbox := in_pieces (vns_message ''eth1'' g)\<rparr>) =
       Returns (1, ex_relay2\<lparr>inbox := evs', router := sr'\<rparr>) \<and> q ! ip_ttl = 62 \<and>
       ip_output ((router ex_relay2)\<lparr>logfile := lf\<rparr>) server1 (ex_if ''eth2'' 2 (le32 172 64 4 1)) q 28
         ''eth2'' ''eth1'' sr')"
proof -
  obtain e where e: "sr_arpcache_lookup (cache (ex_router False)) server1 = Some e" "ent_mac e = ex_mac"
    using ex_next_hop by blast
  let ?c = "ex_relay (in_pieces (vns_message ''eth1'' ex_transit))"
  have s: "stream (inbox ?c) = vns_message ''eth1'' ex_transit @ []" "Failed \<notin> set (inbox ?c)"
    using in_pieces by simp_all
  have f: "ex_udp 64 192 23 ! ip_ttl \<noteq> 1" "ex_udp 64 192 23 ! ip_ttl \<noteq> 2"
      "ex_udp 64 192 23 = drop 14 ex_transit" "length ex_transit + 24 \<le> 10000"
    by (simp_all add: ex_udp_facts ex_transit_facts)
  have h: "ip_frame (router ?c) ex_transit ''eth1'' (ex_if ''eth1'' 1 (le32 10 0 1 1)) 5"
    "sr_arpcache_lookup (cache (router ?c)) (rt_gw (ex_route server1 ''eth2'')) = Some e"
    using e(1) by (simp_all add: ex_transit_facts)
  have j: "if_addr ((ex_if ''eth1'' 1 (le32 172 64 3 2))\<lparr>if_addr := ex_mac\<rparr>) = ent_mac e" by (simp add: e(2))
  obtain c' g where r: "sr_read_from_server ?c = Returns (1, c')"
    "wire (router c') = wire (router ?c) @ [vns_message (rt_interface (ex_route server1 ''eth2'')) g]"
    and d: "\<forall>evs rest2. stream evs = vns_message ''eth1'' g @ rest2 \<longrightarrow> Failed \<notin> set evs \<longrightarrow>
      (\<exists>evs' lf q sr'. stream evs' = rest2 \<and>
        sr_read_from_server (ex_relay2\<lparr>inbox := evs\<rparr>) = Returns (1, ex_relay2\<lparr>inbox := evs', router := sr'\<rparr>) \<and>
        q ! ip_ttl = ex_udp 64 192 23 ! ip_ttl - 2 \<and>
        (\<forall>k. k \<notin> {ip_ttl, ip_sum, 11} \<longrightarrow> q ! k = ex_udp 64 192 23 ! k) \<and>
        valid_sum (take (5 * 4) q) \<and> length q = length (ex_udp 64 192 23) \<and>
        ip_output ((router ex_relay2)\<lparr>logfile := lf\<rparr>) (rt_gw (ex_route server1 ''eth2''))
          (ex_if ''eth2'' 2 (le32 172 64 4 1)) q (of_nat (length ex_transit) - 14)
          (rt_interface (ex_route server1 ''eth2'')) ''eth1'' sr')"
    using two_routers [OF ex_forwards f(1,3,4) s h ex_forwards2(1) f(2) ex_forwards2(2) j] by blast
  have i: "stream (in_pieces (vns_message ''eth1'' g)) = vns_message ''eth1'' g @ []"
    "Failed \<notin> set (in_pieces (vns_message ''eth1'' g))"
    using in_pieces by simp_all
  obtain evs' lf q sr' where "sr_read_from_server (ex_relay2\<lparr>inbox := in_pieces (vns_message ''eth1'' g)\<rparr>) =
      Returns (1, ex_relay2\<lparr>inbox := evs', router := sr'\<rparr>)" "q ! ip_ttl = 62"
    "ip_output ((router ex_relay2)\<lparr>logfile := lf\<rparr>) server1 (ex_if ''eth2'' 2 (le32 172 64 4 1)) q 28 ''eth2'' ''eth1'' sr'"
    using d [rule_format, OF i] by (auto simp: ex_udp_facts ex_transit_facts)
  with r show ?thesis
    by (intro exI [of _ c'] exI [of _ g] conjI exI [of _ evs'] exI [of _ lf] exI [of _ q] exI [of _ sr']) simp_all
qed

text \<open>
  C8: In every run of the router, whatever frames (below 2 GB) come and timers fire, also with all identifiers taken, each message written to the
  server is a packet message of the VNS format (or the part of one that the socket took) around an
  Ethernet frame that names an existing interface and carries its hardware address as the source.
\<close>
theorem output_is_typed:
  assumes "router_step\<^sup>*\<^sup>* sr sr'" "ifs_ok (if_list sr)"
  shows "\<exists>ms. wire sr' = wire sr @ ms \<and> (\<forall>m \<in> set ms. \<exists>iface frame n.
    m = take n (vns_message iface frame) \<and> frame_ok (if_list sr) frame iface)"
  using router_run_typed [OF assms] by (auto simp: typed_output_def typed_message_def list_all_iff)

theorem output_is_typed_witness:
  "\<exists>sr' ms. sr_handlepacket (ex_router False) ex_transit 42 ''eth1'' = Some sr' \<and>
    wire sr' = wire (ex_router False) @ ms \<and> (\<forall>m \<in> set ms. \<exists>iface frame n.
      m = take n (vns_message iface frame) \<and> frame_ok ex_ifs frame iface)"
proof -
  obtain sr' where s: "sr_handlepacket (ex_router False) ex_transit 42 ''eth1'' = Some sr'"
    using ex_transit_sent by blast
  then have "router_step (ex_router False) sr'"
    using router_step.frame [of ex_transit "ex_router False" "''eth1''" sr']
    by (simp add: ex_transit_facts)
  then have "router_step\<^sup>*\<^sup>* (ex_router False) sr'" by blast
  from output_is_typed [OF this] s show ?thesis by (auto simp: ex_ifs_ok)
qed

text \<open>
  C9: A transit packet whose TTL is 1 is answered, with NAT on or off, by an ICMP time-exceeded message
  from the address of the interface it came in on to its source, which carries the first 28 bytes of the
  packet and has valid IP and ICMP checksums.
\<close>
theorem ttl_expired_answered:
  assumes "ip_frame sr f iface i hl" "router_inv sr" "sock_ok sr"
    and "rd32 ip_dst (drop 14 f) = Some dst" "\<not> for_router sr dst" "drop 14 f ! ip_ttl = 1"
    and "rd32 ip_src (drop 14 f) = Some src" "28 \<le> length (drop 14 f)"
  shows "\<exists>m sr'. sr_handlepacket sr f (of_nat (length f)) iface = Some sr' \<and>
    icmp_message (if_ip i) src icmp_type_timeexceeded 0 ([0, 0, 0, 0] @ take 28 (drop 14 f)) m \<and>
    ip_output sr src i m 56 iface iface sr'"
  by (rule frame_ttl_expired [OF assms(1) refl assms(2-)])

theorem ttl_expired_answered_witness:
  "\<exists>m sr'. sr_handlepacket (ex_router True) (ex_frame 1 (ex_udp 1 255 23)) 42 ''eth1'' = Some sr' \<and>
    icmp_message (le32 10 0 1 1) client1 11 0 ([0, 0, 0, 0] @ take 28 (ex_udp 1 255 23)) m \<and>
    ip_output (ex_router True) client1 (ex_if ''eth1'' 1 (le32 10 0 1 1)) m 56 ''eth1'' ''eth1'' sr'"
  using ttl_expired_answered [OF ex_ip_frame(1) ex_router_inv, of "ex_udp 1 255 23" True server1 client1]
  by (simp add: ex_headers ex_udp_facts)

text \<open>
  C10: An ICMP echo request for one of the router's addresses, with valid checksums, is answered by an
  echo reply from that address to the sender that repeats identifier, sequence number and data.
\<close>
theorem echo_answered:
  assumes "ip_frame sr f iface i 5" "router_inv sr" "sock_ok sr"
    and "rd8 ip_p (drop 14 f) = Some ip_protocol_icmp" "rd8 20 (drop 14 f) = Some 8"
    and "rd32 ip_src (drop 14 f) = Some src" "rd32 ip_dst (drop 14 f) = Some dst" "for_router sr dst"
    and "valid_sum (drop 20 (drop 14 f))" "rd16 22 (drop 14 f) \<noteq> Some 0"
    and "rd16 ip_len (drop 14 f) = Some t" "unat (ntohs t) = n + 28" "n + 28 \<le> length (drop 14 f)"
  shows "\<exists>m sr'. sr_handlepacket sr f (of_nat (length f)) iface = Some sr' \<and>
    icmp_message dst src icmp_type_echoreply 0 (take (n + 4) (drop 24 (drop 14 f))) m \<and>
    ip_output sr src i m (of_nat n + 28) iface iface sr'"
  by (rule frame_echo [OF assms(1) refl assms(2-)])

theorem echo_answered_witness:
  "\<exists>m sr'. sr_handlepacket (ex_router True) (ex_frame 1 ex_ping) 44 ''eth1'' = Some sr' \<and>
    icmp_message (le32 10 0 1 1) client1 0 0 (take 6 (drop 24 ex_ping)) m \<and>
    ip_output (ex_router True) client1 (ex_if ''eth1'' 1 (le32 10 0 1 1)) m 30 ''eth1'' ''eth1'' sr'"
  using echo_answered [OF ex_ip_frame(1) ex_router_inv, of ex_ping True client1 "le32 10 0 1 1" "le16 0 30" 2]
  by (simp add: ex_headers ex_ping_facts)

text \<open>
  C11: The checksum gate: an IP packet of acceptable length is passed on, as it came, exactly when its
  header checksum is valid and is not stored as zero, and is dropped without a change otherwise.
\<close>
theorem checksum_gate:
  assumes "20 < unat len" "unat len \<le> 65535" "unat len \<le> length p"
    and "ip_hl p = Some hl" "5 \<le> hl" "hl * 4 \<le> length p" "rd16 ip_sum p = Some v"
    and "rd8 ip_p p = Some protocol" "rd32 ip_dst p = Some dst"
  shows "sr_handle_ippacket sr p len interface =
    (if v \<noteq> 0 \<and> valid_sum (take (hl * 4) p)
     then (if for_router sr dst then handle_ip_to_router sr p len interface (hl * 4) protocol
           else handle_ip_transit sr p len interface protocol)
     else Some sr)"
  unfolding for_router_def by (rule sr_handle_ippacket_gate [OF assms])

theorem checksum_gate_witness:
  "sr_handle_ippacket (ex_router False) (ex_udp 64 192 24) 28 ''eth1'' = Some (ex_router False)"
  using checksum_gate [of 28 "ex_udp 64 192 24" 5 "le16 192 24" 17 server1 "ex_router False" "''eth1''"]
  by (simp add: ex_udp_facts rd16_def rd8_def valid_sum_def) (simp add: ex_udp_def valid_sum_def)

text \<open>
  A packet without a route is answered by an ICMP network-unreachable message to its source.
\<close>
theorem no_route_answered:
  assumes "sr_get_interface (if_list sr) iface = Some i" "length (if_addr i) = 6"
    and "arp_inv (cache sr)" "sock_ok sr" "28 \<le> length p"
    and "rd32 ip_src p = Some src" "rd32 ip_dst p = Some dst"
    and "sr_rt_lookup (routing_table sr) dst = Some None"
  shows "\<exists>m sr'. sr_forward_ippacket sr p n iface = Some sr' \<and>
    icmp_message (if_ip i) src icmp_type_dstunreachable 0 ([0, 0, 0, 0] @ take 28 p) m \<and>
    ip_output sr src i m 56 iface iface sr'"
  using sr_send_icmp_error [OF assms(1-4) _ assms(5,6), of 3 0]
    sr_forward_ippacket_no_route [OF assms(7,8)] by simp

theorem no_route_answered_witness:
  "\<exists>m sr'. sr_forward_ippacket (ex_router False) ex_ping 30 ''eth1'' = Some sr' \<and>
    icmp_message (le32 10 0 1 1) client1 3 0 ([0, 0, 0, 0] @ take 28 ex_ping) m \<and>
    ip_output (ex_router False) client1 (ex_if ''eth1'' 1 (le32 10 0 1 1)) m 56 ''eth1'' ''eth1'' sr'"
  using no_route_answered [of "ex_router False" "''eth1''" "ex_if ''eth1'' 1 (le32 10 0 1 1)" ex_ping client1
      "le32 10 0 1 1"] ex_router_inv [of False]
  by (simp add: router_inv_def ex_ping_facts ex_no_route)

section \<open>Address resolution\<close>

text \<open>
  C13: An ARP request frame is answered, whatever address it asks for, by a reply with the interface's
  addresses to its sender, and the sender's address goes into the cache; apart from the cache, the log
  and the socket nothing changes.
\<close>
theorem arp_request_answered:
  assumes "sr_get_interface (if_list sr) iface = Some i" "length (if_addr i) = 6"
    and "14 \<le> length f" "take 6 f = if_addr i \<or> f ! 0 = 255"
      "rd16 ether_type f = Some (htons ethertype_arp)"
      "arp_packet_fields (drop 14 f) arp_op_request sha sip" "sock_ok sr"
  shows "\<exists>req c sr'. sr_arpcache_insert (clock sr) (cache sr) sha sip = Some (req, c) \<and>
    sr_handlepacket sr f (of_nat (length f)) iface = Some sr' \<and>
    emits (sr\<lparr>cache := c\<rparr>) sr' [vns_message iface (ether_frame sha (if_addr i) ethertype_arp
      (arp_payload arp_op_reply (if_addr i) (if_ip i) sha sip))]"
  by (rule frame_arp_request [OF assms])

theorem arp_request_answered_witness:
  "\<exists>req c sr'. sr_arpcache_insert 1000 (cache (ex_router False)) ex_mac client1 = Some (req, c) \<and>
    sr_handlepacket (ex_router False) (ex_arp_frame 1) 42 ''eth1'' = Some sr' \<and>
    wire sr' = wire (ex_router False) @ [vns_message ''eth1'' (ether_frame ex_mac [2, 0, 0, 0, 0, 1] ethertype_arp
      (arp_payload arp_op_reply [2, 0, 0, 0, 0, 1] (le32 10 0 1 1) ex_mac client1))]"
  using arp_request_answered [of "ex_router False" "''eth1''" "ex_if ''eth1'' 1 (le32 10 0 1 1)" "ex_arp_frame 1"
      ex_mac client1]
  by (auto simp: ex_arp_facts ex_if_def dest!: emits_wire)

text \<open>
  C14: An ARP reply for which a request is pending caches the sender's address (when an entry is free and
  the address is not cached; no other answer of the cache changes) and releases the packets that wait:
  in the order of the list, which is the reverse of the order they were queued in, each leaves through
  the interface the reply came in on, framed for the sender's hardware address with the address of the
  interface it was queued for as its source.  Packets queued for an interface with another hardware
  address than the reply's are refused when they are sent, and lost.  The request is gone and no other
  request is touched.
\<close>
theorem arp_reply_releases:
  assumes "arp_packet_fields p arp_op_reply sha sip"
    and "ifs_ok (if_list sr)" "sr_get_interface (if_list sr) interface = Some i"
    and "sock_ok sr" "arp_inv (cache sr)"
    and "req \<in> set (requests (cache sr))" "req_ip req = sip"
    and "\<forall>pkt \<in> set (req_packets req). sr_get_interface (if_list sr) (pkt_iface pkt) \<noteq> None"
  shows "\<exists>sr'. sr_handle_arp sr p len interface = Some sr' \<and>
    wire sr' = wire sr @ map (\<lambda>pkt. vns_message interface (queued_frame (if_list sr) sha pkt))
      (filter (queued_on (if_list sr) (if_addr i)) (req_packets req)) \<and>
    requests (cache sr') = filter (\<lambda>r. req_ip r \<noteq> sip) (requests (cache sr)) \<and>
    (if list_all ent_valid (entries (cache sr)) then entries (cache sr') = entries (cache sr)
     else sr_arpcache_lookup (cache sr) sip = None \<longrightarrow>
       map_option ent_mac (sr_arpcache_lookup (cache sr') sip) = Some sha) \<and>
    (\<forall>ip. ip \<noteq> sip \<longrightarrow>
       map_option ent_mac (sr_arpcache_lookup (cache sr') ip) = map_option ent_mac (sr_arpcache_lookup (cache sr) ip))"
proof -
  have "length sha = 6" using assms(1) by (auto simp: arp_packet_fields_def dest: rd_bytes_length)
  then show ?thesis
    using sr_handle_arp_reply [OF assms] insert_lookup insert_requests(3) by fastforce
qed

theorem arp_reply_releases_witness:
  "\<exists>sr'. sr_handle_arp ex_pending (ex_arp 2) 28 ''eth1'' = Some sr' \<and>
    wire sr' = wire ex_pending @ [vns_message ''eth1'' (queued_frame ex_ifs ex_mac ex_waiting)] \<and>
    requests (cache sr') = [] \<and> map_option ent_mac (sr_arpcache_lookup (cache sr') client1) = Some ex_mac"
  using arp_reply_releases [OF ex_arp_facts(2) _ _ _ ex_pending_inv, of "''eth1''"
      "ex_if ''eth1'' 1 (le32 10 0 1 1)" ex_req 28] ex_pending_room
  by (auto simp: ex_ifs_ok queued_on_def)

text \<open>
  C15: Inserting an address into the ARP cache changes the answer for no other address; it takes the
  first free entry, so that an address that was not cached is found afterwards, and when all 100
  entries are in use it is dropped.  The request for the address leaves the list in both cases.
\<close>
theorem arp_insert_lookup:
  assumes "length mac = 6" "sr_arpcache_insert now c mac ip = Some (req, c')"
  shows "(\<forall>ip'. ip' \<noteq> ip \<longrightarrow>
      map_option ent_mac (sr_arpcache_lookup c' ip') = map_option ent_mac (sr_arpcache_lookup c ip')) \<and>
    (if list_all ent_valid (entries c) then entries c' = entries c
     else sr_arpcache_lookup c ip = None \<longrightarrow> map_option ent_mac (sr_arpcache_lookup c' ip) = Some mac) \<and>
    req = find (\<lambda>r. req_ip r = ip) (requests c) \<and>
    requests c' = remove_first (\<lambda>r. req_ip r = ip) (requests c)"
  using insert_lookup [OF assms] insert_requests [OF assms(2)] by simp

theorem arp_insert_lookup_witness:
  "\<exists>req c'. sr_arpcache_insert 1000 (cache (ex_boot True)) ex_mac server1 = Some (req, c') \<and>
    map_option ent_mac (sr_arpcache_lookup c' server1) = Some ex_mac"
proof -
  obtain req c' where i: "sr_arpcache_insert 1000 (cache (ex_boot True)) ex_mac server1 = Some (req, c')"
    using ex_learned by blast
  from arp_insert_lookup [OF ex_boot_cache(3) i] show ?thesis
    using i ex_boot_cache(1,2) by auto
qed

text \<open>
  After a round of the ARP timer's expiry an answer is at most 15 seconds old, and an answer that
  was at most 15 seconds old before it is still given.
\<close>
theorem arp_expiry:
  "(sr_arpcache_lookup (arp_expire now c) ip = Some e \<longrightarrow> now - ent_added e \<le> 15) \<and>
   (sr_arpcache_lookup c ip = Some e \<and> now - ent_added e \<le> 15 \<longrightarrow>
      sr_arpcache_lookup (arp_expire now c) ip = Some e)"
  using lookup_after_expire expire_keeps_young by blast

theorem arp_expiry_witness:
  "sr_arpcache_lookup (arp_expire 1015 (ex_cache1)) server1 = Some (arp_new 1000 ex_mac server1) \<and>
   sr_arpcache_lookup (arp_expire 1016 (ex_cache1)) server1 \<noteq> Some (arp_new 1000 ex_mac server1)"
  using arp_expiry [of 1015 ex_cache1 server1 "arp_new 1000 ex_mac server1"]
    arp_expiry [of 1016 ex_cache1 server1 "arp_new 1000 ex_mac server1"]
  by (simp add: ex_cache1_def sr_arpcache_lookup_def arp_new_def)

text \<open>
  C17: One round of the ARP timer over requests none of which has been sent five times finishes: for each
  request that is due, in list order, it broadcasts one ARP query through the interface of its newest
  packet and counts it; it removes no request and leaves the requests that are not due alone.
\<close>
theorem sweep_sends_queries:
  assumes "arp_inv (cache sr)" "ifs_ok (if_list sr)" "sock_ok sr"
    and "list_all (retryable sr) (requests (cache sr))"
  shows "\<exists>sr'. sr_arpcache_sweepreqs sr = Some sr' \<and>
    requests (cache sr') = map (touched (clock sr)) (requests (cache sr)) \<and>
    wire sr' = wire sr @ map (arp_query (if_list sr)) (filter (req_due (clock sr)) (requests (cache sr)))"
  by (rule sweep_retries [OF assms])

theorem sweep_sends_queries_witness:
  "\<exists>sr'. sr_arpcache_sweepreqs ex_pending = Some sr' \<and>
    requests (cache sr') = [ex_req\<lparr>req_sent := 1000, req_times_sent := 1\<rparr>] \<and>
    wire sr' = wire ex_pending @ [arp_query ex_ifs ex_req]"
  using sweep_sends_queries [OF ex_pending_inv]
  by (simp add: ex_ifs_ok retryable_def touched_def req_due_def)

text \<open>
  C18: When the ARP timer reaches a request that was sent five times and is due, it gives the request up
  and then follows the link of the freed node: the round has no defined behaviour.
\<close>
theorem sweep_reads_freed_request:
  assumes "arp_inv (cache sr)" "requests (cache sr) = pre @ r # post"
    and "\<forall>x \<in> set pre. clock sr - req_sent x \<le> 1" "1 < clock sr - req_sent r" "5 \<le> req_times_sent r"
  shows "sr_arpcache_sweepreqs sr = None"
  by (rule sweep_use_after_free [OF assms])

theorem sweep_reads_freed_request_witness:
  "sr_arpcache_sweepreqs (ex_pending\<lparr>cache := (cache ex_pending)\<lparr>requests := [ex_req\<lparr>req_times_sent := 5\<rparr>]\<rparr>\<rparr>) = None"
  using sweep_reads_freed_request [of "ex_pending\<lparr>cache := (cache ex_pending)\<lparr>requests := [ex_req\<lparr>req_times_sent := 5\<rparr>]\<rparr>\<rparr>"
      "[]" "ex_req\<lparr>req_times_sent := 5\<rparr>" "[]"] ex_pending_inv
  by (simp add: arp_inv_def req_ok_def)

section \<open>Threads\<close>

text \<open>
  C12: Whatever the three threads do, they do not deadlock: from every configuration they reach, they
  can all finish their rounds.  A thread between two rounds holds no mutex, and a thread only unlocks a
  mutex that it owns.
\<close>
theorem threads_finish:
  assumes "lock_reach thread_round c"
  shows "(\<exists>c'. some_op\<^sup>*\<^sup>* c c' \<and> (\<forall>t. todo c' t = [])) \<and>
    (\<forall>t l. todo c t = [] \<longrightarrow> mutex_count (owner c l) t = 0) \<and>
    (\<forall>t l ops. todo c t = Unlock l # ops \<longrightarrow> 0 < mutex_count (owner c l) t)"
  using router_threads.all_finish router_threads.idle_holds_nothing router_threads.unlock_owned assms
  by blast

theorem threads_finish_witness:
  "lock_reach thread_round ex_contended \<and> todo ex_contended Main \<noteq> [] \<and>
    (\<exists>c'. some_op\<^sup>*\<^sup>* ex_contended c' \<and> (\<forall>t. todo c' t = []))"
  using threads_finish [OF ex_contended_reach] ex_contended_reach by (simp add: ex_contended_def)

text \<open>
  C16: Interleaving keeps the tables: when the timers make rounds between the NAT calls of a handler, and
  time passes, the mappings still have distinct external and internal endpoints, the bitmap marks
  exactly the identifiers in use, and the router's invariant holds.
\<close>
theorem races_keep_tables:
  assumes "(race_step tk)\<^sup>*\<^sup>* (Lookup, sr) (pc, sr')"
    and "router_inv sr" "nat_room (nat_st sr)" "length (tk_packet tk) + 14 < 2 ^ 31"
  shows "router_inv sr' \<and> distinct (map aux_ext (mappings (nat_st sr'))) \<and>
    distinct (map int_key (mappings (nat_st sr'))) \<and>
    (\<forall>k \<in> {1024..<65536}. used (bitmap (nat_st sr')) k \<longleftrightarrow> k \<in> ext_id ` set (mappings (nat_st sr')))"
proof -
  have inv: "router_inv sr'" using races_keep_inv [OF assms(1,2) _ assms(4)] assms(3) by simp
  then have n: "nat_inv (nat_st sr')" by (simp add: router_inv_def nat_ok_def)
  then have t: "pool.tracks (bitmap (nat_st sr')) (map ext_id (mappings (nat_st sr')))"
    by (simp add: nat_inv_def)
  show ?thesis
    using distinct_aux_ext [OF t] t n inv by (auto simp: pool.tracks_def nat_inv_def)
qed

theorem races_keep_tables_witness:
  "\<exists>sr'. (race_step ex_task)\<^sup>*\<^sup>* (Lookup, ex_router True)
      (Insert_connection (ex_map nat_mapping_tcp 4000), sr') \<and>
    distinct (map aux_ext (mappings (nat_st sr')))"
proof -
  obtain sr' where r: "(race_step ex_task)\<^sup>*\<^sup>* (Lookup, ex_router True)
      (Insert_connection (ex_map nat_mapping_tcp 4000), sr')"
    using ex_race by blast
  from races_keep_tables [OF r ex_router_inv ex_inv(2)] r show ?thesis by (auto simp: ex_syn_facts)
qed

text \<open>
  The TCP handlers are their sections: looking up, inserting a mapping, inserting or updating a
  connection and recording a packet, each under the NAT's mutex, followed by the rewriting of the packet.
\<close>
theorem handlers_are_sections:
  assumes "nat_inv (nat_st sr)"
  shows "nat_tcp_outbound sr p len tcp src dst =
      do {
        _ \<leftarrow> rd_bytes tcp sizeof_sr_tcp_hdr p;
        port \<leftarrow> rd16 (tcp + tcp_src_port) p;
        r \<leftarrow> nat_sections (clock sr) (tcp_out_task p len (ntohl src) (ntohs port)) (nat_st sr);
        tcp_out_finish sr p len tcp dst r
      } \<and>
    nat_tcp_inbound sr p len tcp =
      do {
        flags \<leftarrow> tcp_flags_at tcp p;
        port \<leftarrow> rd16 (tcp + tcp_dst_port) p;
        r \<leftarrow> nat_sections (clock sr) (tcp_in_task p len (ntohs port) (SYN flags \<and> \<not> ACK flags)) (nat_st sr);
        tcp_in_finish sr p len tcp (SYN flags \<and> \<not> ACK flags) r
      }"
  unfolding outbound_sections [OF assms] inbound_sections [OF assms] by (simp add: Let_def)

theorem handlers_are_sections_witness:
  "nat_tcp_outbound (ex_router True) ex_syn 40 20 client1 server1 =
     do {
       r \<leftarrow> nat_sections 1000 (tcp_out_task ex_syn 40 (ntohl client1) 4000) (nat_st (ex_router True));
       tcp_out_finish (ex_router True) ex_syn 40 20 server1 r
     }"
  using handlers_are_sections [OF ex_inv(1), of ex_syn 40 20 client1 server1] ex_tcp_facts(2)
  by (simp add: ex_syn_facts rd_bytes_def)

text \<open>
  C29: A round of the NAT timer between the insertion of a TCP mapping and of its first connection frees
  the mapping: the insertion of the connection finds nothing and returns a null pointer, which the
  handler dereferences.
\<close>
theorem new_mapping_race:
  assumes "nat_ok nt" "nat_room nt"
    "sr_nat_lookup_internal nt (tk_host tk) (tk_aux tk) nat_mapping_tcp = None"
    "sr_nat_insert_mapping now nt (tk_host tk) (tk_aux tk) nat_mapping_tcp = (m, nat_st sr)"
    "tk_type tk = nat_mapping_tcp" "sr_nat_timeout sr = Some sr'"
  shows "sr_nat_insert_connection now' (nat_st sr') (aux_ext m) p state = Some (None, nat_st sr') \<and>
    nat_section now' tk (Insert_connection m) (nat_st sr') = None"
proof -
  have "nat_section now tk Insert_mapping nt = Some (Insert_connection m, nat_st sr)"
    using assms(4,5) by simp
  note f = timer_frees_new_mapping [OF assms(1,2) _ this refl assms(6)]
  have "find (\<lambda>k. aux_ext k = aux_ext m) (mappings (nat_st sr')) = None"
    using f(1) assms(3,5) by (simp add: sr_nat_lookup_external_def)
  then show ?thesis using f(2) assms(3,5) by (simp add: sr_nat_insert_connection_def)
qed

theorem new_mapping_race_witness:
  "\<exists>sr'. sr_nat_timeout (ex_mapped nat_mapping_tcp 4000) = Some sr' \<and>
    sr_nat_insert_connection 1000 (nat_st sr') 1024 ex_syn SYN_SENT = Some (None, nat_st sr')"
proof -
  obtain sr' where t: "sr_nat_timeout (ex_mapped nat_mapping_tcp 4000) = Some sr'"
    using ex_race by blast
  have "nat_ok (nat_st (ex_router True))" using ex_router_inv [of True] by (simp add: router_inv_def)
  from new_mapping_race [OF this ex_inv(2) _ _ _ t, of ex_task 1000 "ex_map nat_mapping_tcp 4000" 1000 ex_syn SYN_SENT]
  show ?thesis using t by (simp add: ex_lookup_none ex_insert(1))
qed

text \<open>
  C32: The handlers update a connection through the list that the copy of the mapping points to, outside
  the lock under which it was copied: when a round of the NAT timer frees the head of that list in
  between, the update reads freed memory.
\<close>
theorem copied_connection_race:
  assumes "nat_inv (nat_st sr)" "tk_type tk = nat_mapping_tcp"
    "nat_section now tk Lookup (nat_st sr) = Some (Update_connection m, nat_st sr)"
    "conns m = c # cs" "\<not> conn_live (clock sr) (nat_st sr) c" "sr_nat_timeout sr = Some sr'"
  shows "nat_section now' tk (Update_connection m) (nat_st sr') = None"
proof -
  have "m \<in> set (mappings (nat_st sr))"
    using assms(2,3) by (auto split: option.splits if_splits dest: external_in internal_in)
  moreover from this have "map_type m = nat_mapping_tcp"
    using assms(1,4) by (cases "map_type m") (auto simp: nat_inv_def conns_inv_def)
  ultimately show ?thesis using timer_frees_copied_conn [OF assms(1) _ _ assms(4,5,6)] by blast
qed

theorem copied_connection_race_witness:
  "\<exists>sr'. sr_nat_timeout ex_idle = Some sr' \<and>
    nat_section 1301 ex_task (Update_connection ex_conn_map) (nat_st sr') = None"
proof -
  obtain sr' where t: "sr_nat_timeout ex_idle = Some sr'" using ex_idle_facts(6) by blast
  from copied_connection_race [OF ex_idle_facts(1) _ ex_idle_facts(5,3) _ t] t show ?thesis
    using ex_idle_facts(2,4) by auto
qed

section \<open>Routing\<close>

text \<open>
  C19: Longest-prefix match: on a non-empty table the lookup returns an entry exactly when the entry
  matches, its mask is not zero, no earlier matching entry has a mask as large and no later one a larger
  mask (masks compared as numbers in host order).
\<close>
theorem longest_prefix_match:
  "sr_rt_lookup rt ip = Some (Some r) \<longleftrightarrow>
     (\<exists>xs ys. rt = xs @ r # ys \<and> rt_matches r ip \<and> 0 < mask_len r \<and>
        (\<forall>x \<in> set xs. rt_matches x ip \<longrightarrow> mask_len x < mask_len r) \<and>
        (\<forall>y \<in> set ys. rt_matches y ip \<longrightarrow> mask_len y \<le> mask_len r))"
  unfolding sr_rt_lookup_Some first_longest_def ..

theorem longest_prefix_match_witness:
  "sr_rt_lookup ex_rt server1 = Some (Some (ex_route server1 ''eth2'')) \<and>
   (\<exists>xs ys. ex_rt = xs @ ex_route server1 ''eth2'' # ys)"
  using longest_prefix_match [of ex_rt server1 "ex_route server1 ''eth2''"] by auto

text \<open>
  No route is found exactly when every matching entry has the mask 0.0.0.0: a default route, which
  matches every address, is never used.
\<close>
theorem default_route_unused:
  "sr_rt_lookup rt ip = Some None \<longleftrightarrow> rt \<noteq> [] \<and> (\<forall>r \<in> set rt. rt_matches r ip \<longrightarrow> rt_mask r = 0)"
  by (rule sr_rt_lookup_NoRoute)

theorem default_route_unused_witness:
  "sr_rt_lookup [\<lparr>rt_dest = 0, rt_gw = server1, rt_mask = 0, rt_interface = ''eth2''\<rparr>] client1 = Some None"
  using default_route_unused [of "[\<lparr>rt_dest = 0, rt_gw = server1, rt_mask = 0, rt_interface = ''eth2''\<rparr>]" client1]
  by simp

text \<open>
  C21: Loading a file whose lines all have four words that fit and three addresses that parse replaces
  the table by exactly the lines' entries, in order.
\<close>
theorem load_rt_all_lines:
  assumes "map (line_entry inet_aton) lines = map Some es" "lines \<noteq> []"
  shows "sr_load_rt inet_aton (Some lines) rt = Some (0, es)"
  by (rule sr_load_rt_good [OF assms])

theorem load_rt_all_lines_witness:
  "sr_load_rt ex_aton (Some [''10.0.1.100 10.0.1.100 255.255.255.255 eth1'',
      ''172.64.3.21 172.64.3.21 255.255.255.255 eth2'']) [] = Some (0, ex_rt)"
  by (rule load_rt_all_lines) (simp_all add: ex_lines)

text \<open>
  C22: What \<open>sr_print_routing_table\<close> prints, without its heading, is a file that loads to the same table:
  the addresses and interface names come back as they were, for any \<open>inet_aton\<close> that reads dotted quads.
\<close>
theorem printed_table_read_back:
  assumes "rt \<noteq> []" "\<forall>e \<in> set rt. plain_name (rt_interface e)"
    and "\<And>ip. inet_aton (inet_ntoa ip) = Some ip"
  shows "sr_load_rt inet_aton (Some (tl (fgets_lines (text_of (sr_print_routing_table rt))))) old = Some (0, rt)"
  by (rule printed_table_loads [OF assms])

theorem printed_table_read_back_witness:
  "sr_load_rt dotted_quad (Some (tl (fgets_lines (text_of (sr_print_routing_table ex_rt))))) [] = Some (0, ex_rt)"
  by (rule printed_table_read_back [OF ex_rt_plain dotted_inet_ntoa])

text \<open>
  A line whose first address does not parse stops the load with -1, after the old table is gone and
  the entries of the lines before it are installed.
\<close>
theorem load_rt_stops:
  assumes "map (line_entry inet_aton) good = map Some es" "good \<noteq> []"
    and "scan_words [] bad = d # ws" "length d < 32" "\<forall>w \<in> set ws. length w < 32" "inet_aton d = None"
  shows "sr_load_rt inet_aton (Some (good @ bad # rest)) rt = Some (-1, es)"
  by (rule sr_load_rt_bad [OF assms])

theorem load_rt_stops_witness:
  "sr_load_rt ex_aton (Some ([''10.0.1.100 10.0.1.100 255.255.255.255 eth1''] @ ''# comment'' # [])) ex_rt =
     Some (-1, [ex_route client1 ''eth1''])"
  by (rule load_rt_stops [where d = "''#''" and ws = "[''comment'']"])
    (simp_all add: ex_lines isspace_def)

section \<open>Checksums\<close>

text \<open>
  C23: The checksum of \<open>len\<close> bytes that lie in the buffer is the complement modulo 65535 of their
  big-endian 16-bit sum, an odd last byte padded with zero; it is never zero.
\<close>
theorem cksum_is_complement:
  assumes "0 \<le> len" "nat len \<le> length data" "len \<le> 131072"
  shows "\<exists>c. cksum data len = Some c \<and> c \<noteq> 0 \<and>
    unat (ntohs c) = 65535 - be16_sum (take (nat len) data) mod 65535"
  using cksum_value [OF assms] cksum_nonzero by blast

theorem cksum_is_complement_witness:
  "\<exists>c. cksum (ex_udp 64 0 0) 20 = Some c \<and> unat (ntohs c) = 256 * 192 + 23"
  using cksum_is_complement [of 20 "ex_udp 64 0 0"] by (auto simp: ex_udp_def)

section \<open>The translation table\<close>

text \<open>
  C24: Two internal endpoints translated one after the other get different external identifiers; both
  lead back to their own mapping afterwards, and translating the second again changes nothing.
\<close>
theorem translations_distinct:
  assumes "nat_inv nt" "nat_room nt" "nat_translate now ty nt ip aux = (m, nt')"
    and "nat_room nt'" "nat_translate now ty nt' ip' aux' = (m', nt'')" "(ip, aux) \<noteq> (ip', aux')"
  shows "aux_ext m \<noteq> aux_ext m' \<and> sr_nat_lookup_external nt'' (aux_ext m) ty' = Some m \<and>
    sr_nat_lookup_external nt'' (aux_ext m') ty' = Some m' \<and>
    nat_translate now ty nt'' ip' aux' = (m', nt'')"
  using nat_translate_two [OF assms] by blast

theorem translations_distinct_witness:
  "\<exists>m m' nt' nt''. nat_translate 1000 nat_mapping_icmp (nat_st (ex_router True)) (ntohl client1) 7 = (m, nt') \<and>
     nat_translate 1000 nat_mapping_icmp nt' (ntohl client1) 8 = (m', nt'') \<and> aux_ext m \<noteq> aux_ext m'"
proof -
  obtain m' nt'' where t: "nat_translate 1000 nat_mapping_icmp (ex_mapped_nat nat_mapping_icmp 7) (ntohl client1) 8 = (m', nt'')"
    by fastforce
  have "nat_translate 1000 nat_mapping_icmp (nat_st (ex_router True)) (ntohl client1) 7 =
      (ex_map nat_mapping_icmp 7, ex_mapped_nat nat_mapping_icmp 7)"
    by (simp add: nat_translate_def ex_lookup_none ex_insert(1))
  from translations_distinct [OF ex_inv(1,2) this _ t] this t show ?thesis
    by (force simp: nat_room_def ex_insert(2))
qed

text \<open>
  C25: With all 64512 identifiers taken, a new mapping gets the external identifier 65535 although
  another mapping holds it: the -1 of \<open>find_next_id\<close> is not checked.
\<close>
theorem identifiers_exhausted:
  assumes "nat_inv nt" "\<not> nat_room nt"
  shows "\<exists>m0 m. m0 \<in> set (mappings nt) \<and> aux_ext m0 = 65535 \<and>
    sr_nat_insert_mapping now nt ip aux ty = (m, nt\<lparr>mappings := m # mappings nt\<rparr>) \<and>
    aux_ext m = 65535 \<and> int_key m = (ip, aux)"
  using insert_mapping_exhausted [OF assms] by blast

theorem identifiers_exhausted_witness:
  "\<exists>m0 m. m0 \<in> set (mappings ex_full) \<and> aux_ext m0 = 65535 \<and> aux_ext m = 65535 \<and>
     sr_nat_insert_mapping 1000 ex_full (ntohl client1) 7 nat_mapping_icmp = (m, ex_full\<lparr>mappings := m # mappings ex_full\<rparr>)"
  using identifiers_exhausted [OF ex_full_inv] by blast

text \<open>
  C26: One round of NAT expiry keeps, in order, exactly the live mappings (an ICMP mapping within the query
  timeout, a TCP mapping with a live connection), each with its live connections only, and gives back
  exactly the identifiers of the others.
\<close>
theorem nat_expiry_exact:
  assumes "nat_inv nt"
  shows "mappings (nat_expire t nt) = map (expired t nt) (filter (map_live t nt) (mappings nt)) \<and>
    (\<forall>k \<in> {1024..<65536}. used (bitmap (nat_expire t nt)) k \<longleftrightarrow>
       k \<in> ext_id ` set (filter (map_live t nt) (mappings nt)))"
  using nat_expire_mappings nat_expire_ids [OF assms] by blast

theorem nat_expiry_exact_witness:
  "mappings (nat_expire 1060 (ex_mapped_nat nat_mapping_icmp 7)) = [ex_map nat_mapping_icmp 7] \<and>
   mappings (nat_expire 1061 (ex_mapped_nat nat_mapping_icmp 7)) = []"
  using nat_expiry_exact [of "ex_mapped_nat nat_mapping_icmp 7" 1060]
    nat_expiry_exact [of "ex_mapped_nat nat_mapping_icmp 7" 1061] ex_mapped_inv [of nat_mapping_icmp 7]
  by (simp add: router_inv_def nat_ok_def ex_insert(2) map_live_def expired_def ex_map_def ex_timeouts)

text \<open>
  C27: An established connection is dropped after the transitory timeout: with the transitory timeout at
  most the established one, as in the defaults, the established timeout has no effect.
\<close>
theorem established_timeout_ineffective:
  assumes "uint (tcp_transitory_to nt) \<le> uint (tcp_estab_idle_to nt)" "conn_state c = ESTAB"
  shows "c \<in> set (expire_conns t nt cs) \<longleftrightarrow>
    c \<in> set cs \<and> t - conn_last_updated c \<le> uint (tcp_transitory_to nt)"
  by (rule estab_expires [OF assms])

theorem established_timeout_ineffective_witness:
  "\<lparr>conn_addr = 0, conn_state = ESTAB, peer_ip = server1, peer_port = 80, conn_last_updated = 1000\<rparr> \<notin>
     set (expire_conns 1301 (sr_nat_init 60 7440 300 ex_nat0)
       [\<lparr>conn_addr = 0, conn_state = ESTAB, peer_ip = server1, peer_port = 80, conn_last_updated = 1000\<rparr>])"
  using established_timeout_ineffective [of "sr_nat_init 60 7440 300 ex_nat0"
      "\<lparr>conn_addr = 0, conn_state = ESTAB, peer_ip = server1, peer_port = 80, conn_last_updated = 1000\<rparr>" 1301]
  by (simp add: sr_nat_init_def del: expire_conns.simps)

text \<open>
  C28: The states a connection can be in after any sequence of segments are exactly these six: a SYN
  always leads to \<open>SYN_SENT\<close> or \<open>ESTAB\<close>, so the branches for \<open>SYN_RCVD\<close> are dead code, and \<open>LISTEN\<close>,
  \<open>TIME_WAIT\<close>, \<open>CLOST_WAIT\<close> and \<open>LAST_ACK\<close> are never assigned.
\<close>
theorem connection_states:
  "conn_reach s \<longleftrightarrow> s \<in> {SYN_SENT, ESTAB, FIN_WAIT_1, FIN_WAIT_2, CLOSING, CLOSED}"
  using conn_reach_states conn_reach_all by blast

text \<open>
  C30: The NAT refines a one-to-one map from internal endpoints to external identifiers: each step of the
  router (a frame below 2 GB, a timer round, passing time) that leaves no more than 64512 mappings, one for each identifier, either leaves the map as it is,
  or opens one endpoint with an identifier of 1024 or more that no other endpoint has, or is a round of
  the timer, which only closes endpoints (C25 is about the table that outgrows the identifiers).  So
  an open endpoint keeps its identifier, and only the timer closes it.  The two lookups read this map by
  key and by value.
\<close>
theorem nat_refines_map:
  assumes "router_inv sr" "router_step sr sr'" "length (mappings (nat_st sr')) \<le> 64512"
  shows "(\<exists>ev. nat_spec (nat_view (nat_st sr)) ev (nat_view (nat_st sr')) \<and>
      ((\<exists>E. ev = Expired E) \<longrightarrow> sr_nat_timeout sr = Some sr')) \<and>
    router_inv sr' \<and> one_to_one (nat_view (nat_st sr')) \<and>
    (\<forall>ip aux ty. map_option aux_ext (sr_nat_lookup_internal (nat_st sr') ip aux ty) =
       nat_view (nat_st sr') (ip, aux)) \<and>
    (\<forall>k ty e. map_option int_key (sr_nat_lookup_external (nat_st sr') k ty) = Some e \<longleftrightarrow>
       nat_view (nat_st sr') e = Some k)"
proof -
  have fits: "nat_fits (nat_st sr')" using assms(3) by (simp add: nat_fits_def)
  have inv: "router_inv sr'" by (rule router_step_inv [OF assms(2) fits assms(1)])
  then have "nat_inv (nat_st sr')" by (rule router_inv_nat)
  moreover have "\<exists>ev. nat_spec (nat_view (nat_st sr)) ev (nat_view (nat_st sr')) \<and>
      ((\<exists>E. ev = Expired E) \<longrightarrow> sr_nat_timeout sr = Some sr')"
    using router_step_spec [OF assms(2) fits assms(1)] unfolding nat_opens_def by blast
  ultimately show ?thesis
    using inv lookup_internal_view lookup_external_view nat_view_one_to_one by blast
qed

theorem nat_refines_map_witness:
  "\<exists>sr' ev. router_step (ex_router True) sr' \<and>
    nat_spec (nat_view (nat_st (ex_router True))) ev (nat_view (nat_st sr')) \<and>
    nat_view (nat_st sr') (ntohl client1, 7) = Some 1024"
proof -
  obtain sr' where s: "router_step (ex_router True) sr'" "nat_st sr' = ex_mapped_nat nat_mapping_icmp 7"
    using ex_query_step by blast
  then have "length (mappings (nat_st sr')) \<le> 64512" by (simp add: ex_insert(2))
  from nat_refines_map [OF ex_router_inv s(1) this] obtain ev
    where r: "nat_spec (nat_view (nat_st (ex_router True))) ev (nat_view (nat_st sr'))"
    "map_option aux_ext (sr_nat_lookup_internal (nat_st sr') (ntohl client1) 7 nat_mapping_icmp) =
       nat_view (nat_st sr') (ntohl client1, 7)" by blast
  have "sr_nat_lookup_internal (nat_st sr') (ntohl client1) 7 nat_mapping_icmp = Some (ex_map nat_mapping_icmp 7)"
    by (simp add: s(2) ex_mapped_lookup)
  with r s(1) show ?thesis by (intro exI [of _ sr'] exI [of _ ev]) simp
qed

section \<open>Packets the NAT does not translate\<close>



text \<open>
  The first segment of an internal port to a destination without a route dereferences a null route.
\<close>
theorem tcp_no_route_undefined:
  assumes "tcp_packet p len tcp n src dst" "is_private_ip (ntohl src)" "\<not> is_private_ip (ntohl dst)"
    and "rd16 tcp p = Some port" "sr_rt_lookup (routing_table sr) dst = Some None"
    and "sr_nat_lookup_internal (nat_st sr) (ntohl src) (ntohs port) nat_mapping_tcp = None"
  shows "nat_handle_tcp sr p len dir = None"
  by (rule nat_handle_tcp_no_route [OF assms])

theorem tcp_no_route_undefined_witness:
  "nat_handle_tcp (ex_router True) ex_syn_away 40 0 = None"
  by (rule tcp_no_route_undefined [OF ex_away_facts(1) _ ex_away_facts(3,2)])
    (simp_all add: ex_away_facts ex_lookup_none)

text \<open>
  An inbound ICMP message for a mapping whose IP header has options and which fills its buffer makes
  the ICMP checksum read past the end of the packet: its length assumes a header of 20 bytes.
\<close>
theorem icmp_options_overrun:
  assumes "ip_hl p = Some hl" "6 \<le> hl" "rd16 ip_len p = Some v" "unat (ntohs v) = length p"
    and "rd32 ip_src p = Some src" "\<not> is_private_ip (ntohl src)" "rd16 (hl * 4 + 4) p = Some ident"
    and "sr_nat_lookup_external (nat_st sr) (ntohs ident) nat_mapping_icmp = Some m"
  shows "nat_handle_icmp sr p = None"
  by (rule nat_handle_icmp_options [OF assms])

theorem icmp_options_overrun_witness:
  "nat_handle_icmp (ex_mapped nat_mapping_icmp 7) ex_options = None"
  by (rule icmp_options_overrun [OF ex_options_facts(1) _ ex_options_facts(2) _ ex_options_facts(5),
        where m = "ex_map nat_mapping_icmp 7" and ident = "htons 1024"])
    (simp_all add: ex_options_facts ex_mapped_lookup)

text \<open>
  A SYN from outside to a port without a mapping is not translated and not answered at once: the
  packet is recorded, unless the same SYN is recorded already.
\<close>
theorem unsolicited_syn_recorded:
  assumes "tcp_packet p len tcp n src dst" "\<not> is_private_ip (ntohl src)"
    and "tcp_flags_at tcp p = Some f" "SYN f" "\<not> ACK f" "rd16 (tcp + 2) p = Some port"
    and "sr_nat_lookup_external (nat_st sr) (ntohs port) nat_mapping_tcp = None"
    and "unsol_pkt (nat_st sr) = Some us" "list_all (\<lambda>u. tcp + 8 \<le> length (un_ip_packet u)) us"
  shows "nat_handle_tcp sr p len 1 = Some (-1, p, sr\<lparr>nat_st := recorded (clock sr) (nat_st sr) p len us\<rparr>)"
  by (rule stray_syn_recorded [OF assms])

theorem unsolicited_syn_recorded_witness:
  "\<exists>nt. nat_handle_tcp (ex_router True) ex_stray_syn 40 1 = Some (-1, ex_stray_syn, ex_router True\<lparr>nat_st := nt\<rparr>) \<and>
     unsol_pkt nt = Some [ex_stray]"
  using unsolicited_syn_recorded [OF ex_tcp_facts(8) _ ex_tcp_facts(9), of "htons 2000" "ex_router True" "[]"]
    recorded_first [of "nat_st (ex_router True)" 1000 ex_stray_syn 40] ex_recorded_fields(9) [of True]
  by (auto simp: ex_stray_facts ex_stray_def ex_lookup_external simp del: ex_fields(6))

text \<open>
  C33: A round of the NAT timer goes through the whole list of unsolicited packets: exactly those older
  than six seconds whose source has a route leave it, the others stay in their order; and each that
  leaves is answered, one after the other, with a port unreachable that quotes it, through the interface
  of the route to its source.  The same round expires the mappings.
\<close>
theorem unsolicited_syn_answered:
  assumes "unsol_pkt (nat_st sr) = Some us" "\<forall>u \<in> set us. 28 \<le> length (un_ip_packet u)"
    and "routing_table sr \<noteq> []"
      "\<forall>r \<in> set (routing_table sr). sr_get_interface (if_list sr) (rt_interface r) \<noteq> None"
    and "router_safe sr" "sock_ok sr"
  shows "\<exists>sr1. unsol_answers sr (filter (unsol_due sr) us) sr1 \<and>
    sr_nat_timeout sr = Some (sr1\<lparr>nat_st := nat_expire (clock sr)
      ((nat_st sr)\<lparr>unsol_pkt := Some (filter (\<lambda>u. \<not> unsol_due sr u) us)\<rparr>)\<rparr>)"
  by (rule unsolicited_answered [OF assms])

theorem unsolicited_syn_answered_witness:
  "\<exists>sr1. unsol_answers ex_mixed [ex_stray, ex_old] sr1 \<and>
    sr_nat_timeout ex_mixed =
      Some (sr1\<lparr>nat_st := nat_expire 1007 ((nat_st ex_mixed)\<lparr>unsol_pkt := Some [ex_fresh]\<rparr>)\<rparr>)"
proof -
  have "\<forall>u \<in> {ex_stray, ex_fresh, ex_old}. 28 \<le> length (un_ip_packet u)"
    "\<forall>r \<in> set ex_rt. sr_get_interface ex_ifs (rt_interface r) \<noteq> None" "ex_rt \<noteq> []"
    by (simp_all add: ex_stray_def ex_fresh_def ex_old_def) (simp_all add: ex_rt_def)
  with unsolicited_syn_answered [of ex_mixed "[ex_stray, ex_fresh, ex_old]"] show ?thesis
    by (simp add: ex_mixed_facts)
qed

section \<open>The server session\<close>

text \<open>
  C34: The SHA-1 code computes the function of the standard: for a message fed in any pieces, of any
  length below 2^61 bytes, the result is the digest FIPS 180 defines for the whole message.
\<close>
theorem sha1_of_pieces:
  assumes "length (Message_Block c) = 64" "\<forall>m \<in> set ms. length m < 2 ^ 32"
    and "length (concat ms) < 2 ^ 61"
  shows "\<exists>c1 c2. input_pieces ms (SHA1Reset c) = Some c1 \<and> SHA1Result c1 = Some (True, c2) \<and>
    Message_Digest c2 = sha1_digest (concat ms)"
  by (rule sha1_pieces [OF assms])

theorem sha1_of_pieces_witness:
  "\<exists>c1 c2. input_pieces [[97], [], [98, 99]] (SHA1Reset ex_sha1) = Some c1 \<and>
    SHA1Result c1 = Some (True, c2) \<and> Message_Digest c2 = sha1_digest [97, 98, 99]"
  using sha1_of_pieces [of ex_sha1 "[[97], [], [98, 99]]"] by (auto simp: ex_sha1_def)

text \<open>
  C35: The server's authentication request is answered by one message with the user name and the SHA-1
  digest of the salt followed by the 64 bytes of the key file; nothing else of the router changes.
\<close>
theorem auth_reply_sent:
  assumes "stream (inbox c) = wire_command 128 salt @ rest" "length salt + 8 \<le> 10000"
      "Failed \<notin> set (inbox c)"
    and "auth_key_file c = Some kf" "64 \<le> length kf" "10 \<notin> set (take 64 kf)"
    and "length (stack_bytes c) = 65" "length (Message_Block (sha1_memory c)) = 64"
    and "length (user (router c)) < 32" "sock_ok (router c)"
  shows "\<exists>evs. stream evs = rest \<and>
    sr_read_from_server c = Returns (1, c\<lparr>inbox := evs, router := (router c)\<lparr>wire := wire (router c) @
      [auth_reply (user (router c)) (sha1_bytes (salt @ take 64 kf))]\<rparr>\<rparr>)"
proof -
  obtain evs where e: "stream evs = rest" "sr_read_from_server c =
      defined (handle_command (c\<lparr>inbox := evs\<rparr>) (host_command 128 salt) (int (length salt) + 8) 128)"
    using read_from_server_command [OF assms(1-3)] by auto
  then show ?thesis
    using auth_command [of "c\<lparr>inbox := evs\<rparr>" kf salt] assms by (auto simp: defined_def)
qed

theorem auth_reply_sent_witness:
  "\<exists>evs. stream evs = [] \<and> sr_read_from_server (ex_client (in_pieces (wire_command 128 ex_salt))) =
    Returns (1, ex_client evs\<lparr>router := (ex_base False)\<lparr>wire :=
      [auth_reply ''user'' (sha1_bytes (ex_salt @ ex_key))]\<rparr>\<rparr>)"
  using auth_reply_sent [of "ex_client (in_pieces (wire_command 128 ex_salt))" ex_salt "[]" ex_key]
    ex_key_facts in_pieces
  by (simp add: ex_salt_def) (simp add: ex_client_def)

text \<open>
  C36: A command of at most 10000 bytes is read whole and handled with its type in host order, whatever
  pieces the stream arrives in and however often the calls are interrupted; the bytes after it stay in
  the stream.
\<close>
theorem command_read_whole:
  assumes "stream (inbox c) = wire_command ty body @ rest" "length body + 8 \<le> 10000"
    and "Failed \<notin> set (inbox c)"
  shows "\<exists>evs. stream evs = rest \<and> sr_read_from_server c =
    defined (handle_command (c\<lparr>inbox := evs\<rparr>) (host_command ty body) (int (length body) + 8) (sint ty))"
  using read_from_server_command [OF assms] by blast

theorem command_read_whole_witness:
  "\<exists>evs. stream evs = [7] \<and> sr_read_from_server (ex_client (in_pieces (wire_command 1000 [1, 2] @ [7]))) =
    Returns (1, ex_client evs)"
  using command_read_whole [of "ex_client (in_pieces (wire_command 1000 [1, 2] @ [7]))" 1000 "[1, 2]" "[7]"] in_pieces
  by (simp add: handle_command_def defined_def) (simp add: ex_client_def)

text \<open>
  C37: While a command is incomplete the client waits, however the bytes came and however often \<open>recv\<close>
  returned 0: it does not notice the end of the stream.
\<close>
theorem incomplete_command_waits:
  assumes "stream (inbox c) = take k (wire_command ty body)" "k < length body + 8"
    and "length body + 8 \<le> 10000" "Failed \<notin> set (inbox c)"
  shows "sr_read_from_server c = Waiting"
  by (rule read_from_server_partial [OF assms])

theorem incomplete_command_waits_witness:
  "sr_read_from_server (ex_client (Got (take 6 (wire_command 2 [0])) # replicate 100 (Got []))) = Waiting"
  by (rule incomplete_command_waits [where k = 6 and ty = 2 and body = "[0]"])
    (simp_all add: stream_def)

text \<open>
  C38: The length field of a command: more than 10000 (or negative) ends the session, but less than 8 is
  not refused and makes the client access memory outside the buffer it allocates.
\<close>
theorem command_length_checked:
  assumes "stream (inbox c) = bytes32 (htonl n) @ rest" "Failed \<notin> set (inbox c)"
  shows "(10000 < unat n \<longrightarrow> (\<exists>evs. sr_read_from_server c = Returns (-1, c\<lparr>inbox := evs\<rparr>))) \<and>
    (unat n < 8 \<longrightarrow> unat n - 4 \<le> length rest \<longrightarrow> sr_read_from_server c = Undefined)"
  using read_from_server_length [OF assms] by blast

theorem command_length_checked_witness:
  "sr_read_from_server (ex_client (in_pieces (bytes32 (htonl 4)))) = Undefined \<and>
   (\<exists>evs. sr_read_from_server (ex_client (in_pieces (bytes32 (htonl 20000)))) = Returns (-1, ex_client evs))"
  using command_length_checked [of "ex_client (in_pieces (bytes32 (htonl 4)))" 4 "[]"]
    command_length_checked [of "ex_client (in_pieces (bytes32 (htonl 20000)))" 20000 "[]"] in_pieces
  by (simp add: ex_client_def)

text \<open>
  C39: The server's description of a list of interfaces appends exactly these interfaces, with their
  names, addresses and IPs, to the interface list; the session goes on when every route of the routing
  table names an interface and ends otherwise.
\<close>
theorem interfaces_configured:
  assumes "stream (inbox c) = wire_command 16 (concat (map iface_items l)) @ rest"
      "Failed \<notin> set (inbox c)" "108 * length l + 8 \<le> 10000"
    and "\<forall>x \<in> set l. iface_ok x" "l \<noteq> []"
    and "sr = (router c)\<lparr>if_list := if_list (router c) @
      described (if_memory c) (length (if_list (router c))) l\<rparr>"
  shows "\<exists>evs. stream evs = rest \<and> sr_read_from_server c =
    Returns (if routing_table sr \<noteq> [] \<and>
      (\<forall>r \<in> set (routing_table sr). \<exists>i. sr_get_interface (if_list sr) (rt_interface r) = Some i)
      then 1 else -1, c\<lparr>inbox := evs, router := sr\<rparr>)"
proof -
  have "length (concat (map iface_items l)) + 8 \<le> 10000" using length_items [OF assms(4)] assms(3) by simp
  then obtain evs where e: "stream evs = rest" "sr_read_from_server c =
      defined (handle_command (c\<lparr>inbox := evs\<rparr>) (host_command 16 (concat (map iface_items l)))
        (int (length (concat (map iface_items l))) + 8) 16)"
    using read_from_server_command [OF assms(1) _ assms(2)] by auto
  have "length (if_list sr) \<noteq> 0" using assms(5) by (simp add: assms(6) length_described)
  then have ne: "if_list sr \<noteq> []" by auto
  have "8 + 108 * length l < 2 ^ 31" using assms(3) by simp
  from hwinfo_command [OF assms(4) this, where c = "c\<lparr>inbox := evs\<rparr>"]
  show ?thesis
    using e assms(6) ne by (intro exI [of _ evs]) (simp add: defined_def verify_routing_table)
qed

theorem interfaces_configured_witness:
  "\<exists>evs. stream evs = [] \<and> sr_read_from_server (ex_client (in_pieces (wire_command 16
      (concat (map iface_items [(''eth9'', [2, 0, 0, 0, 0, 9], 9)]))))) =
    Returns (1, ex_client evs\<lparr>router := (ex_base False)\<lparr>if_list := ex_ifs @ [ex_if ''eth9'' 9 9]\<rparr>\<rparr>)"
proof -
  define l where "l = [(''eth9'', [2, 0, 0, 0, 0, 9] :: buf, 9 :: u32)]"
  define c where "c = ex_client (in_pieces (wire_command 16 (concat (map iface_items l))))"
  define sr where "sr = (ex_base False)\<lparr>if_list := ex_ifs @ [ex_if ''eth9'' 9 9]\<rparr>"
  have d: "described (if_memory c) k l = [ex_if ''eth9'' 9 9]" for k
    by (simp add: c_def l_def ex_if_def)
  have h: "sr = (router c)\<lparr>if_list := if_list (router c) @
      described (if_memory c) (length (if_list (router c))) l\<rparr>"
    by (simp only: d) (simp add: c_def sr_def)
  have s: "stream (inbox c) = wire_command 16 (concat (map iface_items l)) @ []" "Failed \<notin> set (inbox c)"
    by (simp_all only: c_def ex_client_fields in_pieces append_Nil2 not_False_eq_True)
  have k: "108 * length l + 8 \<le> 10000" "\<forall>x \<in> set l. iface_ok x" "l \<noteq> []" by (simp_all add: l_def)
  have g: "routing_table sr \<noteq> [] \<and>
      (\<forall>r \<in> set (routing_table sr). \<exists>i. sr_get_interface (if_list sr) (rt_interface r) = Some i)"
    by (auto simp: sr_def sr_get_interface_append ex_rt_def ex_route_def)
  obtain evs where "stream evs = []" "sr_read_from_server c = Returns (1, c\<lparr>inbox := evs, router := sr\<rparr>)"
    using interfaces_configured [OF s k h] g by auto
  moreover have "c\<lparr>inbox := evs, router := sr\<rparr> = ex_client evs\<lparr>router := sr\<rparr>"
    by (simp add: c_def ex_client_def)
  ultimately show ?thesis unfolding c_def sr_def l_def by metis
qed

text \<open>
  C40: In every session of the program, from its start on, whatever the server sends and in whatever
  pieces, the ARP cache has its 100 entries and one request per address; and as long as the session has
  not held more than 64512 NAT mappings, one for each identifier, these have distinct external and
  internal endpoints and the bitmap marks exactly the external ones in 1024..65535 as used.
\<close>
theorem session_tables:
  assumes "client_start c0" "client_step\<^sup>*\<^sup>* c0 c"
  shows "length (entries (cache (router c))) = 100 \<and> distinct (map req_ip (requests (cache (router c)))) \<and>
    ((\<lambda>a b. client_step a b \<and> length (mappings (nat_st (router b))) \<le> 64512)\<^sup>*\<^sup>* c0 c \<longrightarrow>
       distinct (map aux_ext (mappings (nat_st (router c)))) \<and>
       distinct (map int_key (mappings (nat_st (router c)))) \<and>
       (\<forall>m \<in> set (mappings (nat_st (router c))). 1024 \<le> ext_id m) \<and>
       (\<forall>k \<in> {1024..<65536}. used (bitmap (nat_st (router c))) k \<longleftrightarrow>
          k \<in> ext_id ` set (mappings (nat_st (router c)))))"
proof -
  have start: "router_inv (router c0)" "memory_ok (if_memory c0)" using client_start_inv [OF assms(1)] by blast+
  have safe: "router_safe (router c)" using client_run_safe [OF assms(2)] router_inv_safe start by blast
  have "nat_inv (nat_st (router c))"
    if "(\<lambda>a b. client_step a b \<and> length (mappings (nat_st (router b))) \<le> 64512)\<^sup>*\<^sup>* c0 c"
    using fitting_client_inv [OF that] start by (simp add: router_inv_def nat_ok_def)
  then show ?thesis
    using safe nat_inv_tables unfolding router_safe_def arp_inv_def by blast
qed

theorem session_tables_witness:
  "client_start ex_running \<and> length (entries (cache (router ex_running))) = 100 \<and>
    distinct (map aux_ext (mappings (nat_st (router ex_running))))"
  using session_tables [OF ex_running_start] ex_running_start by blast

end
